(* ===== verification/Prelude.thy ===== *)
theory Prelude imports
  Main
  "HOL-Library.Word"
begin

text \<open>
  What the component theories share: names for the machine types of the C++ code, the model of
  the sequence operations of the C++ standard library that the code uses (find_if, any_of,
  erase), and the collections of hints the component proofs draw on.

  A std::string is a sequence of bytes; it is modelled as \<^typ>\<open>string\<close>, whose characters are
  exactly the 256 byte values. A float is modelled by its 32-bit pattern (type f32): the server
  and the protocol only ever copy floats, and memcpy copies the pattern.
\<close>

unbundle bit_operations_syntax

section \<open>Names for the machine types\<close>

type_synonym u8 = "8 word"
type_synonym u16 = "16 word"
type_synonym u32 = "32 word"
type_synonym u64 = "64 word"
type_synonym f32 = "32 word"
type_synonym buffer = "u8 list"

section \<open>Hint collections\<close>

named_theorems wire_defs \<open>definitions of the serializer that proofs unfold\<close>
named_theorems msg_simps \<open>bytes and lengths of the encoded messages\<close>
named_theorems sess_simps \<open>what each session operation does to the fields of the manager\<close>

section \<open>Sequence operations of the standard library\<close>

text \<open>std::find_if. The iterator it returns is an index; None stands for end().\<close>

fun find_if :: "('a \<Rightarrow> bool) \<Rightarrow> 'a list \<Rightarrow> nat option" where
  "find_if P [] = None"
| "find_if P (x # xs) = (if P x then Some 0 else map_option Suc (find_if P xs))"

text \<open>vector::erase of one position.\<close>

definition erase :: "nat \<Rightarrow> 'a list \<Rightarrow> 'a list" where
  "erase i xs = take i xs @ drop (Suc i) xs"

lemma find_if_None: "find_if P xs = None \<longleftrightarrow> (\<forall>x \<in> set xs. \<not> P x)"
  by (induction xs) auto

lemma find_if_SomeD:
  "find_if P xs = Some i \<Longrightarrow> i < length xs \<and> P (xs ! i) \<and> (\<forall>j < i. \<not> P (xs ! j))"
proof (induction xs arbitrary: i)
  case (Cons x xs)
  show ?case
  proof (cases "P x")
    case False
    with Cons.prems obtain k where k: "find_if P xs = Some k" and "i = Suc k" by auto
    then show ?thesis using Cons.IH [OF k] False by (auto simp: nth_Cons split: nat.splits)
  qed (use Cons.prems in auto)
qed simp

lemma find_if_Some_length: "find_if P xs = Some i \<Longrightarrow> i < length xs"
  by (simp add: find_if_SomeD)

lemma find_if_Some_sat: "find_if P xs = Some i \<Longrightarrow> P (xs ! i)"
  by (simp add: find_if_SomeD)

lemma find_if_Some_in: "find_if P xs = Some i \<Longrightarrow> xs ! i \<in> set xs"
  by (simp add: find_if_Some_length)

lemma find_if_append:
  "find_if P (xs @ ys) =
     (case find_if P xs of Some i \<Rightarrow> Some i | None \<Rightarrow> map_option ((+) (length xs)) (find_if P ys))"
proof (induction xs)
  case Nil
  show ?case by (cases "find_if P ys") simp_all
next
  case (Cons x xs)
  then show ?case
    by (cases "find_if P xs"; cases "find_if P ys") auto
qed

lemma erase_length [simp]: "i < length xs \<Longrightarrow> length (erase i xs) = length xs - 1"
  by (simp add: erase_def)

lemma erase_subset: "set (erase i xs) \<subseteq> set xs"
  by (auto simp: erase_def dest: in_set_takeD in_set_dropD)

lemma map_erase: "map f (erase i xs) = erase i (map f xs)"
  by (simp add: erase_def take_map drop_map)

lemma erase_decomp: "i < length xs \<Longrightarrow> xs = take i xs @ xs ! i # drop (Suc i) xs"
  by (simp add: id_take_nth_drop)

lemma distinct_erase: "distinct xs \<Longrightarrow> distinct (erase i xs)"
  using set_take_disj_set_drop_if_distinct [of xs i "Suc i"] by (auto simp: erase_def)

lemma set_erase:
  assumes "i < length xs" and "distinct xs"
  shows "set (erase i xs) = set xs - {xs ! i}"
proof -
  have split: "take i xs @ xs ! i # drop (Suc i) xs = xs"
    using assms(1) by (simp add: id_take_nth_drop [symmetric])
  then have "distinct (take i xs @ xs ! i # drop (Suc i) xs)"
    using assms(2) by simp
  then have "xs ! i \<notin> set (erase i xs)" by (simp add: erase_def)
  moreover have "set xs = insert (xs ! i) (set (erase i xs))"
    using arg_cong [OF split, of set] by (simp add: erase_def)
  ultimately show ?thesis by auto
qed

lemma erase_in: "x \<in> set xs \<Longrightarrow> i < length xs \<Longrightarrow> x \<noteq> xs ! i \<Longrightarrow> x \<in> set (erase i xs)"
proof -
  assume x: "x \<in> set xs" and i: "i < length xs" and ne: "x \<noteq> xs ! i"
  have "set xs = insert (xs ! i) (set (erase i xs))"
    by (subst (1) erase_decomp [OF i]) (simp add: erase_def Un_commute)
  with x ne show ?thesis by auto
qed

lemma map_list_update_same:
  "i < length xs \<Longrightarrow> f y = f (xs ! i) \<Longrightarrow> map f (xs[i := y]) = map f xs"
  by (simp add: map_update list_update_same_conv)

section \<open>Little-endian pieces of a word\<close>

lemma u16_split: "((ucast (ucast v :: u8) :: u16) OR push_bit 8 (ucast (ucast (drop_bit 8 v) :: u8))) = (v :: u16)"
  by (rule bit_word_eqI) (auto simp: bit_simps)

lemma u32_split: "((ucast (ucast v :: u16) :: u32) OR push_bit 16 (ucast (ucast (drop_bit 16 v) :: u16))) = (v :: u32)"
  by (rule bit_word_eqI) (auto simp: bit_simps)

lemma u64_split: "((ucast (ucast v :: u32) :: u64) OR push_bit 32 (ucast (ucast (drop_bit 32 v) :: u32))) = (v :: u64)"
  by (rule bit_word_eqI) (auto simp: bit_simps)

lemma u16_join_low: "(ucast ((ucast lo :: u16) OR push_bit 8 (ucast hi)) :: u8) = lo"
  by (rule bit_word_eqI) (auto simp: bit_simps)

lemma u16_join_high: "(ucast (drop_bit 8 ((ucast lo :: u16) OR push_bit 8 (ucast hi))) :: u8) = hi" for lo hi :: u8
  by (rule bit_word_eqI) (auto simp: bit_simps dest: bit_imp_le_length)

lemma u32_join_low: "(ucast ((ucast lo :: u32) OR push_bit 16 (ucast hi)) :: u16) = lo"
  by (rule bit_word_eqI) (auto simp: bit_simps)

lemma u32_join_high: "(ucast (drop_bit 16 ((ucast lo :: u32) OR push_bit 16 (ucast hi))) :: u16) = hi" for lo hi :: u16
  by (rule bit_word_eqI) (auto simp: bit_simps dest: bit_imp_le_length)

lemma u64_join_low: "(ucast ((ucast lo :: u64) OR push_bit 32 (ucast hi)) :: u32) = lo"
  by (rule bit_word_eqI) (auto simp: bit_simps)

lemma u64_join_high: "(ucast (drop_bit 32 ((ucast lo :: u64) OR push_bit 32 (ucast hi))) :: u32) = hi" for lo hi :: u32
  by (rule bit_word_eqI) (auto simp: bit_simps dest: bit_imp_le_length)

lemma unat_u8_bound: "unat (w :: u8) < 256"
  by (rule order_less_le_trans [OF unsigned_less]) simp

lemma unat_u16_bound: "unat (w :: u16) < 65536"
  by (rule order_less_le_trans [OF unsigned_less]) simp

lemma unat_u32_bound: "unat (w :: u32) < 2 ^ 32"
  by (rule order_less_le_trans [OF unsigned_less]) simp

lemma unat_u64_bound: "unat (w :: u64) < 2 ^ 64"
  by (rule order_less_le_trans [OF unsigned_less]) simp

lemma u16_of_nat_inj: "a < 65536 \<Longrightarrow> b < 65536 \<Longrightarrow> (word_of_nat a :: u16) = word_of_nat b \<longleftrightarrow> a = b"
  by (simp add: word_unat_eq_iff unat_of_nat)

lemmas word_split = u16_split u32_split u64_split
lemmas word_join = u16_join_low u16_join_high u32_join_low u32_join_high u64_join_low u64_join_high

text \<open>
  reinterpret_cast between const char* and bytes: a char and a uint8_t are the same eight bits.
\<close>

definition byte_of_char :: "char \<Rightarrow> u8" where
  "byte_of_char c = of_char c"

definition char_of_byte :: "u8 \<Rightarrow> char" where
  "char_of_byte b = char_of (unat b)"

lemma unat_byte_of_char: "unat (byte_of_char c) = of_char c"
proof -
  have "byte_of_char c = word_of_nat (of_char c)"
    by (simp add: byte_of_char_def of_nat_of_char)
  moreover have "(of_char c :: nat) mod 256 = of_char c"
    by (rule of_char_mod_256)
  ultimately show ?thesis by (simp add: unat_of_nat)
qed

lemma char_of_byte_of_char [simp]: "char_of_byte (byte_of_char c) = c"
  by (simp add: char_of_byte_def unat_byte_of_char)

lemma byte_of_char_of_byte [simp]: "byte_of_char (char_of_byte b) = b"
proof -
  have "unat b < 256" by (rule order_less_le_trans [OF unsigned_less]) simp
  then have "unat (byte_of_char (char_of_byte b)) = unat b"
    by (simp add: unat_byte_of_char) (simp add: char_of_byte_def)
  then show ?thesis by (simp add: word_unat_eq_iff)
qed

lemma byte_char_comp [simp]:
  "char_of_byte \<circ> byte_of_char = id" "byte_of_char \<circ> char_of_byte = id"
  by (simp_all add: fun_eq_iff)

end
