(* ===== verification/Net.thy ===== *)
theory Net imports
  Prelude
begin

text \<open>
  src/src/common/Net.hpp and Net.cpp: the peer address and the UDP socket. Winsock is not part of
  the program; each call of it is a parameter of the operation that makes it (what socket, bind,
  getsockname, sendto, select and recvfrom return), and the operation is the code around the call:
  the open flag, the early returns, what is reported to the caller.
\<close>

section \<open>Startup and Endpoint\<close>

text \<open>WSAStartup returns 0 on success; the destructor calls WSACleanup only after a success.\<close>

record Startup =
  m_ok :: bool

definition mk_Startup :: "int \<Rightarrow> Startup" where
  "mk_Startup wsaStartup = \<lparr>m_ok = (wsaStartup = 0)\<rparr>"

definition Startup_cleanup_called :: "Startup \<Rightarrow> bool" where
  "Startup_cleanup_called s \<longleftrightarrow> m_ok s"

record Endpoint =
  address :: u32
  port :: u16

definition Endpoint_eq :: "Endpoint \<Rightarrow> Endpoint \<Rightarrow> bool" where
  "Endpoint_eq a b \<longleftrightarrow> address a = address b \<and> port a = port b"

lemma Endpoint_eq_iff [simp]: "Endpoint_eq a b \<longleftrightarrow> a = b"
  by (cases a; cases b) (auto simp: Endpoint_eq_def)

text \<open>std::format of an unsigned integer: its decimal digits.\<close>

fun dec_digits :: "nat \<Rightarrow> string" where
  "dec_digits n =
     (if n < 10 then [char_of (48 + n)] else dec_digits (n div 10) @ [char_of (48 + n mod 10)])"

declare dec_digits.simps [simp del]

text \<open>
  inet_ntop with AF_INET writes the four bytes of the address, which is in network byte order in
  memory, as a dotted quad. The host is little endian, so the first byte in memory is the low one.
\<close>

definition inet_ntop :: "u32 \<Rightarrow> string" where
  "inet_ntop a =
     dec_digits (unat (a AND 0xFF)) @ ''.'' @ dec_digits (unat (drop_bit 8 a AND 0xFF)) @ ''.'' @
     dec_digits (unat (drop_bit 16 a AND 0xFF)) @ ''.'' @ dec_digits (unat (drop_bit 24 a AND 0xFF))"

definition Endpoint_ToString :: "Endpoint \<Rightarrow> string" where
  "Endpoint_ToString e = inet_ntop (address e) @ '':'' @ dec_digits (unat (port e))"

text \<open>inet_pton of 127.0.0.1: the bytes 127, 0, 0, 1 in memory order.\<close>

definition Loopback :: "u16 \<Rightarrow> Endpoint" where
  "Loopback aPort = \<lparr>address = 0x0100007F, port = aPort\<rparr>"

section \<open>UdpSocket\<close>

record Received =
  rcv_size :: nat
  rcv_from :: Endpoint

record UdpSocket =
  m_handle :: u64
  m_open :: bool

definition UdpSocket_default :: UdpSocket where
  "UdpSocket_default = \<lparr>m_handle = 0, m_open = False\<rparr>"

text \<open>socket() returns a handle, or INVALID_SOCKET (None).\<close>

definition UdpSocket_Open :: "u64 option \<Rightarrow> UdpSocket \<Rightarrow> bool \<times> UdpSocket" where
  "UdpSocket_Open os_socket s =
     (if m_open s then (True, s)
      else (case os_socket of
              None \<Rightarrow> (False, s)
            | Some handle \<Rightarrow> (True, s\<lparr>m_handle := handle, m_open := True\<rparr>)))"

text \<open>bind() on a handle and a port, true when it did not return SOCKET_ERROR.\<close>

definition UdpSocket_Bind :: "u64 option \<Rightarrow> (u64 \<Rightarrow> u16 \<Rightarrow> bool) \<Rightarrow> u16 \<Rightarrow> UdpSocket \<Rightarrow> bool \<times> UdpSocket" where
  "UdpSocket_Bind os_socket os_bind aPort s =
     (let (opened, s1) = (if m_open s then (True, s) else UdpSocket_Open os_socket s)
      in if \<not> opened then (False, s1) else (os_bind (m_handle s1) aPort, s1))"

text \<open>getsockname(): the bound port in host order, or SOCKET_ERROR (None).\<close>

definition UdpSocket_LocalPort :: "(u64 \<Rightarrow> u16 option) \<Rightarrow> UdpSocket \<Rightarrow> u16" where
  "UdpSocket_LocalPort os_getsockname s =
     (if \<not> m_open s then 0
      else (case os_getsockname (m_handle s) of None \<Rightarrow> 0 | Some p \<Rightarrow> p))"

definition UdpSocket_Close :: "UdpSocket \<Rightarrow> UdpSocket" where
  "UdpSocket_Close s = (if m_open s then s\<lparr>m_open := False, m_handle := 0\<rparr> else s)"

text \<open>
  sendto(): the number of bytes sent. The result pairs what SendTo returns with the datagram handed
  to the operating system, if any.
\<close>

definition UdpSocket_SendTo ::
  "(u64 \<Rightarrow> Endpoint \<Rightarrow> u8 list \<Rightarrow> int) \<Rightarrow> Endpoint \<Rightarrow> u8 list \<Rightarrow> UdpSocket \<Rightarrow> bool \<times> (Endpoint \<times> u8 list) option" where
  "UdpSocket_SendTo os_sendto aTo aData s =
     (if \<not> m_open s then (False, None)
      else (os_sendto (m_handle s) aTo aData = int (length aData), Some (aTo, aData)))"

text \<open>
  select() with the timeout split in seconds and microseconds, then recvfrom() into the buffer: the
  byte count it returns, the bytes and the sender.
\<close>

definition RecvFrom_timeout :: "u32 \<Rightarrow> int \<times> int" where
  "RecvFrom_timeout aTimeoutMs = (uint (aTimeoutMs div 1000), uint ((aTimeoutMs mod 1000) * 1000))"

definition UdpSocket_RecvFrom ::
  "(u64 \<Rightarrow> int \<times> int \<Rightarrow> int) \<Rightarrow> (u64 \<Rightarrow> nat \<Rightarrow> int \<times> u8 list \<times> Endpoint) \<Rightarrow> nat \<Rightarrow> u32 \<Rightarrow> UdpSocket \<Rightarrow>
     (Received \<times> u8 list) option" where
  "UdpSocket_RecvFrom os_select os_recvfrom bufferSize aTimeoutMs s =
     (if \<not> m_open s then None
      else if os_select (m_handle s) (RecvFrom_timeout aTimeoutMs) \<le> 0 then None
      else (case os_recvfrom (m_handle s) bufferSize of
              (n, bytes, sender) \<Rightarrow>
                if n \<le> 0 then None
                else Some (\<lparr>rcv_size = nat n, rcv_from = sender\<rparr>, bytes)))"

section \<open>Lemmas\<close>

lemma closed_socket_inert:
  "\<not> m_open s \<Longrightarrow> UdpSocket_SendTo f a d s = (False, None)"
  "\<not> m_open s \<Longrightarrow> UdpSocket_RecvFrom g h n t s = None"
  "\<not> m_open s \<Longrightarrow> UdpSocket_LocalPort k s = 0"
  by (simp_all add: UdpSocket_SendTo_def UdpSocket_RecvFrom_def UdpSocket_LocalPort_def)

lemma Close_closed [simp]: "\<not> m_open (UdpSocket_Close s)"
  by (simp add: UdpSocket_Close_def)

lemma Open_iff: "fst (UdpSocket_Open h s) = m_open (snd (UdpSocket_Open h s))"
  by (auto simp: UdpSocket_Open_def split: option.splits)

lemma dec_digits_digits: "set (dec_digits n) \<subseteq> char_of ` {48..57 :: nat}"
proof (induction n rule: dec_digits.induct)
  case (1 n)
  have "char_of (48 + n mod 10) \<in> char_of ` {48..57 :: nat}" by (rule imageI) auto
  moreover have "n < 10 \<Longrightarrow> char_of (48 + n) \<in> char_of ` {48..57 :: nat}" by (rule imageI) auto
  ultimately show ?case using 1 by (subst dec_digits.simps) auto
qed

lemma dec_digits_nonempty: "dec_digits n \<noteq> []"
  by (subst dec_digits.simps) simp

text \<open>Reading the digits back.\<close>

fun dec_value :: "nat \<Rightarrow> string \<Rightarrow> nat" where
  "dec_value acc [] = acc"
| "dec_value acc (c # cs) = dec_value (10 * acc + (of_char c - 48)) cs"

lemma dec_value_append: "dec_value a (xs @ ys) = dec_value (dec_value a xs) ys"
  by (induction xs arbitrary: a) simp_all

lemma dec_value_digits: "dec_value 0 (dec_digits n) = n"
proof (induction n rule: dec_digits.induct)
  case (1 n)
  have c: "(of_char (char_of (48 + k)) :: nat) - 48 = k" if "k < 10" for k :: nat
    using that by simp
  show ?case
  proof (cases "n < 10")
    case True
    then show ?thesis using c [of n] by (subst dec_digits.simps) simp
  next
    case False
    then show ?thesis using 1 c [of "n mod 10"]
      by (subst dec_digits.simps) (simp add: dec_value_append)
  qed
qed

lemma dec_digits_inj: "dec_digits m = dec_digits n \<longleftrightarrow> m = n"
  by (metis dec_value_digits)

lemma digits_no_sep: "c \<in> {CHR ''.'', CHR '':''} \<Longrightarrow> c \<notin> set (dec_digits n)"
proof -
  have "CHR ''.'' = char_of (46::nat)" "CHR '':'' = char_of (58::nat)" by code_simp+
  moreover have "char_of (46::nat) \<notin> char_of ` {48..57 :: nat}" "char_of (58::nat) \<notin> char_of ` {48..57 :: nat}"
    by (auto simp: char_of_eq_iff)
  ultimately show "c \<in> {CHR ''.'', CHR '':''} \<Longrightarrow> c \<notin> set (dec_digits n)"
    using dec_digits_digits [of n] by auto
qed

lemma split_at_sep:
  "c \<notin> set xs \<Longrightarrow> c \<notin> set xs' \<Longrightarrow> xs @ [c] @ ys = xs' @ [c] @ ys' \<longleftrightarrow> xs = xs' \<and> ys = ys'"
  by (simp add: append_eq_append_conv2) (auto simp: append_eq_Cons_conv Cons_eq_append_conv)

lemma split_at_dot:
  "dec_digits m @ ''.'' @ ys = dec_digits n @ ''.'' @ ys' \<longleftrightarrow> m = n \<and> ys = ys'"
  by (rule trans [OF split_at_sep]) (simp_all add: digits_no_sep dec_digits_inj)

lemma split_at_colon:
  "dec_digits m @ '':'' @ ys = dec_digits n @ '':'' @ ys' \<longleftrightarrow> m = n \<and> ys = ys'"
  by (rule trans [OF split_at_sep]) (simp_all add: digits_no_sep dec_digits_inj)

lemma byte_step: "x mod 256 = y mod 256 \<Longrightarrow> x div 256 = y div 256 \<Longrightarrow> x = y" for x y :: nat
  by (metis div_mult_mod_eq)

lemma quad_inj:
  fixes a b :: u32
  assumes "unat (a AND 0xFF) = unat (b AND 0xFF)"
    and "unat (drop_bit 8 a AND 0xFF) = unat (drop_bit 8 b AND 0xFF)"
    and "unat (drop_bit 16 a AND 0xFF) = unat (drop_bit 16 b AND 0xFF)"
    and "unat (drop_bit 24 a AND 0xFF) = unat (drop_bit 24 b AND 0xFF)"
  shows "a = b"
proof -
  have m: "unat (x AND 0xFF) = unat x mod 256" for x :: u32
  proof -
    have "x AND 0xFF = take_bit 8 x" by (simp add: take_bit_eq_mask mask_numeral)
    then show ?thesis by (simp only: unsigned_take_bit_eq) (simp only: take_bit_eq_mod, simp)
  qed
  have d: "unat (drop_bit k x) = unat x div 2 ^ k" for k and x :: u32
  proof -
    have "take_bit 32 (unat x) = unat x"
      using unat_u32_bound [of x] by (intro take_bit_nat_eq_self) simp
    then show ?thesis by (simp only: unsigned_drop_bit_eq) (simp add: drop_bit_eq_div)
  qed
  let ?x = "unat a" and ?y = "unat b"
  have q: "x div 256 div 256 = x div 65536" "x div 65536 div 256 = x div 16777216" for x :: nat
    by (simp_all flip: div_mult2_eq)
  have top: "?x div 16777216 mod 256 = ?x div 16777216" "?y div 16777216 mod 256 = ?y div 16777216"
    using unat_u32_bound [of a] unat_u32_bound [of b] by (simp_all add: less_mult_imp_div_less)
  note e = assms [unfolded m d]
  have p: "(2::nat) ^ 8 = 256" "(2::nat) ^ 16 = 65536" "(2::nat) ^ 24 = 16777216" by simp_all
  from e(4) have "?x div 16777216 = ?y div 16777216" by (simp only: p top)
  then have "?x div 65536 div 256 = ?y div 65536 div 256" by (simp only: q)
  from byte_step [OF e(3) [unfolded p] this] have "?x div 256 div 256 = ?y div 256 div 256" by (simp only: q)
  from byte_step [OF e(2) [unfolded p] this] have "?x div 256 = ?y div 256" .
  from byte_step [OF e(1) this] have "?x = ?y" .
  then show ?thesis by (rule word_unat_eq_iff [THEN iffD2])
qed

section \<open>Properties\<close>

text \<open>
  ToString tells two peers apart: endpoints that print alike are equal, so a log line or the
  debug view identifies the address and the port.
\<close>

theorem ToString_identifies: "(Endpoint_ToString a = Endpoint_ToString b) = Endpoint_eq a b"
proof
  assume eq: "Endpoint_ToString a = Endpoint_ToString b"
  from eq have q: "unat (address a AND 0xFF) = unat (address b AND 0xFF) \<and>
      unat (drop_bit 8 (address a) AND 0xFF) = unat (drop_bit 8 (address b) AND 0xFF) \<and>
      unat (drop_bit 16 (address a) AND 0xFF) = unat (drop_bit 16 (address b) AND 0xFF) \<and>
      unat (drop_bit 24 (address a) AND 0xFF) = unat (drop_bit 24 (address b) AND 0xFF) \<and>
      unat (port a) = unat (port b)"
    unfolding Endpoint_ToString_def inet_ntop_def append_assoc split_at_dot split_at_colon dec_digits_inj .
  then have "address a = address b" by (intro quad_inj) (elim conjE, assumption)+
  moreover have "port a = port b" using q by (intro word_unat_eq_iff [THEN iffD2]) (elim conjE)
  ultimately show "Endpoint_eq a b" by (simp add: Endpoint_eq_def)
qed simp

end
