(* ===== verification/Serialize.thy ===== *)
theory Serialize imports
  Prelude
begin

text \<open>
  src/src/common/Serialize.hpp: the little-endian serializer, wire::Writer and wire::Reader.

  The Writer holds a reference to a byte vector and only appends; its operations are functions on
  that vector. The Reader is a cursor over a span with a sticky failure bit. Each of its
  operations returns the new reader and \<^const>\<open>Some\<close> of the value stored in the out
  parameter when the C++ returns true, \<^const>\<open>None\<close> when it returns false (the C++ then
  leaves the out parameter alone). Offsets and sizes are natural numbers: the subtraction
  m_data.size() - m_offset cannot wrap because the offset never passes the end (wf_Reader, kept
  by every operation).

  The locale wire_codec is the contract between one write operation and its read operation; the
  messages of Protocol.hpp are proved from it.
\<close>

section \<open>Writer\<close>

definition Writer_U8 :: "u8 \<Rightarrow> buffer \<Rightarrow> buffer" where
  "Writer_U8 v b = b @ [v]"

definition Writer_U16 :: "u16 \<Rightarrow> buffer \<Rightarrow> buffer" where
  "Writer_U16 v b = Writer_U8 (ucast (drop_bit 8 v)) (Writer_U8 (ucast v) b)"

definition Writer_U32 :: "u32 \<Rightarrow> buffer \<Rightarrow> buffer" where
  "Writer_U32 v b = Writer_U16 (ucast (drop_bit 16 v)) (Writer_U16 (ucast v) b)"

definition Writer_U64 :: "u64 \<Rightarrow> buffer \<Rightarrow> buffer" where
  "Writer_U64 v b = Writer_U32 (ucast (drop_bit 32 v)) (Writer_U32 (ucast v) b)"

definition Writer_F32 :: "f32 \<Rightarrow> buffer \<Rightarrow> buffer" where
  "Writer_F32 v b = (let bits = v in Writer_U32 bits b)"

definition Writer_Bytes :: "u8 list \<Rightarrow> buffer \<Rightarrow> buffer" where
  "Writer_Bytes v b = b @ v"

text \<open>The length prefix is a cast of size_t to 16 bits, which truncates.\<close>

definition Writer_Str :: "string \<Rightarrow> buffer \<Rightarrow> buffer" where
  "Writer_Str s b = Writer_U16 (word_of_nat (length s)) b @ map byte_of_char s"

definition Writer_Size :: "buffer \<Rightarrow> nat" where
  "Writer_Size b = length b"

section \<open>Reader\<close>

record Reader =
  m_data :: "u8 list"
  m_offset :: nat
  m_failed :: bool

definition mk_Reader :: "u8 list \<Rightarrow> Reader" where
  "mk_Reader d = \<lparr>m_data = d, m_offset = 0, m_failed = False\<rparr>"

definition Reader_Fail :: "Reader \<Rightarrow> Reader" where
  "Reader_Fail r = r\<lparr>m_failed := True\<rparr>"

definition Reader_Available :: "nat \<Rightarrow> Reader \<Rightarrow> bool \<times> Reader" where
  "Reader_Available n r =
     (if m_failed r \<or> length (m_data r) - m_offset r < n then (False, Reader_Fail r)
      else (True, r))"

definition Reader_U8 :: "Reader \<Rightarrow> u8 option \<times> Reader" where
  "Reader_U8 r =
     (case Reader_Available 1 r of
        (False, r1) \<Rightarrow> (None, r1)
      | (True, r1) \<Rightarrow> (Some (m_data r1 ! m_offset r1), r1\<lparr>m_offset := m_offset r1 + 1\<rparr>))"

definition Reader_U16 :: "Reader \<Rightarrow> u16 option \<times> Reader" where
  "Reader_U16 r =
     (case Reader_U8 r of
        (None, r1) \<Rightarrow> (None, r1)
      | (Some low, r1) \<Rightarrow>
          (case Reader_U8 r1 of
             (None, r2) \<Rightarrow> (None, r2)
           | (Some high, r2) \<Rightarrow> (Some (ucast low OR push_bit 8 (ucast high)), r2)))"

definition Reader_U32 :: "Reader \<Rightarrow> u32 option \<times> Reader" where
  "Reader_U32 r =
     (case Reader_U16 r of
        (None, r1) \<Rightarrow> (None, r1)
      | (Some low, r1) \<Rightarrow>
          (case Reader_U16 r1 of
             (None, r2) \<Rightarrow> (None, r2)
           | (Some high, r2) \<Rightarrow> (Some (ucast low OR push_bit 16 (ucast high)), r2)))"

definition Reader_U64 :: "Reader \<Rightarrow> u64 option \<times> Reader" where
  "Reader_U64 r =
     (case Reader_U32 r of
        (None, r1) \<Rightarrow> (None, r1)
      | (Some low, r1) \<Rightarrow>
          (case Reader_U32 r1 of
             (None, r2) \<Rightarrow> (None, r2)
           | (Some high, r2) \<Rightarrow> (Some (ucast low OR push_bit 32 (ucast high)), r2)))"

definition Reader_F32 :: "Reader \<Rightarrow> f32 option \<times> Reader" where
  "Reader_F32 r =
     (case Reader_U32 r of
        (None, r1) \<Rightarrow> (None, r1)
      | (Some bits, r1) \<Rightarrow> (Some bits, r1))"

definition Reader_Str :: "u16 \<Rightarrow> Reader \<Rightarrow> string option \<times> Reader" where
  "Reader_Str maxSize r =
     (case Reader_U16 r of
        (None, r1) \<Rightarrow> (None, r1)
      | (Some sz, r1) \<Rightarrow>
          (if sz > maxSize then (None, Reader_Fail r1)
           else
             (case Reader_Available (unat sz) r1 of
                (False, r2) \<Rightarrow> (None, Reader_Fail r2)
              | (True, r2) \<Rightarrow>
                  (Some (map char_of_byte (take (unat sz) (drop (m_offset r2) (m_data r2)))),
                   r2\<lparr>m_offset := m_offset r2 + unat sz\<rparr>))))"

definition Reader_Rest :: "Reader \<Rightarrow> u8 list" where
  "Reader_Rest r = (if m_failed r then [] else drop (m_offset r) (m_data r))"

definition Reader_Remaining :: "Reader \<Rightarrow> nat" where
  "Reader_Remaining r = (if m_failed r then 0 else length (m_data r) - m_offset r)"

definition Reader_Ok :: "Reader \<Rightarrow> bool" where
  "Reader_Ok r \<longleftrightarrow> \<not> m_failed r"

text \<open>The cursor stays inside the data.\<close>

definition wf_Reader :: "Reader \<Rightarrow> bool" where
  "wf_Reader r \<longleftrightarrow> m_offset r \<le> length (m_data r)"

text \<open>Moving the cursor of a reader that has not failed.\<close>

definition advance :: "nat \<Rightarrow> Reader \<Rightarrow> Reader" where
  "advance n r = r\<lparr>m_offset := m_offset r + n\<rparr>"

lemma advance_simps [simp]:
  "m_data (advance n r) = m_data r" "m_offset (advance n r) = m_offset r + n"
  "m_failed (advance n r) = m_failed r" "advance 0 r = r"
  "advance m (advance n r) = advance (n + m) r"
  by (simp_all add: advance_def add.commute add.left_commute)

lemma Rest_advance: "Reader_Rest (advance n r) = drop n (Reader_Rest r)"
  by (simp add: Reader_Rest_def add.commute)

lemma Remaining_Rest: "Reader_Remaining r = length (Reader_Rest r)"
  by (simp add: Reader_Remaining_def Reader_Rest_def)

lemma mk_Reader_simps [simp]:
  "Reader_Rest (mk_Reader d) = d" "m_failed (mk_Reader d) = False" "wf_Reader (mk_Reader d)"
  by (simp_all add: mk_Reader_def Reader_Rest_def wf_Reader_def)

lemma Fail_simps [simp]:
  "m_failed (Reader_Fail r)" "m_data (Reader_Fail r) = m_data r"
  "m_offset (Reader_Fail r) = m_offset r"
  by (simp_all add: Reader_Fail_def)

lemma Fail_failed: "m_failed r \<Longrightarrow> Reader_Fail r = r"
  by (simp add: Reader_Fail_def)

text \<open>A reader that has not failed and whose remaining data begins with the given bytes.\<close>

definition starts :: "Reader \<Rightarrow> u8 list \<Rightarrow> bool" where
  "starts r bs \<longleftrightarrow> \<not> m_failed r \<and> take (length bs) (Reader_Rest r) = bs"

lemma starts_iff: "starts r bs \<longleftrightarrow> \<not> m_failed r \<and> (\<exists>rest. Reader_Rest r = bs @ rest)"
  by (auto simp: starts_def) (metis append_take_drop_id)

lemma starts_append:
  "starts r (xs @ ys) \<longleftrightarrow> starts r xs \<and> starts (advance (length xs) r) ys"
  by (auto simp: starts_iff Rest_advance)

lemma starts_length: "starts r bs \<Longrightarrow> length bs \<le> length (Reader_Rest r)"
  by (auto simp: starts_iff)

lemma starts_not_failed: "starts r bs \<Longrightarrow> \<not> m_failed r"
  by (simp add: starts_def)

lemma starts_bounds: "starts r bs \<Longrightarrow> \<not> m_failed r \<and> length bs \<le> length (Reader_Rest r)"
  by (simp add: starts_length starts_not_failed)

lemma starts_mk_Reader [simp]: "starts (mk_Reader (bs @ rest)) bs"
  by (simp add: starts_def)

section \<open>The contract of a pair of write and read operations\<close>

text \<open>
  put writes the bytes enc v at the end; get on a reader at enc v gives v back and stands behind
  it; a get that succeeds has read exactly the bytes of its result; a get on a failed reader
  changes nothing, and a get that fails leaves the reader failed. ok is the set of values the
  reader accepts.
\<close>

locale wire_codec =
  fixes put :: "'v \<Rightarrow> buffer \<Rightarrow> buffer"
    and get :: "Reader \<Rightarrow> 'v option \<times> Reader"
    and enc :: "'v \<Rightarrow> u8 list"
    and ok :: "'v \<Rightarrow> bool"
  assumes put_enc: "put v b = b @ enc v"
    and get_failed: "m_failed r \<Longrightarrow> get r = (None, r)"
    and get_enc: "\<not> m_failed r \<Longrightarrow> ok v \<Longrightarrow> Reader_Rest r = enc v @ rest \<Longrightarrow>
      get r = (Some v, advance (length (enc v)) r)"
    and get_Some: "get r = (Some v, r') \<Longrightarrow>
      \<not> m_failed r \<and> ok v \<and> (\<exists>rest. Reader_Rest r = enc v @ rest) \<and>
      r' = advance (length (enc v)) r"
    and get_None: "get r = (None, r') \<Longrightarrow> m_failed r' \<and> m_data r' = m_data r \<and>
      m_offset r \<le> m_offset r' \<and> (wf_Reader r \<longrightarrow> wf_Reader r')"
begin

lemma put_app: "put v b = b @ put v []"
  by (simp add: put_enc)

lemma get_Some_wf:
  assumes "get r = (Some v, r')" and "wf_Reader r"
  shows "wf_Reader r'"
proof -
  from get_Some [OF assms(1)] obtain rest
    where 1: "\<not> m_failed r" "Reader_Rest r = enc v @ rest" and 2: "r' = advance (length (enc v)) r"
    by blast
  from 1 have "drop (m_offset r) (m_data r) = enc v @ rest" by (simp add: Reader_Rest_def)
  then have "length (drop (m_offset r) (m_data r)) = length (enc v) + length rest" by simp
  with 2 assms(2) show ?thesis by (simp add: wf_Reader_def)
qed

lemma get_wf: "wf_Reader r \<Longrightarrow> wf_Reader (snd (get r))"
proof -
  assume wf: "wf_Reader r"
  obtain x r' where g: "get r = (x, r')" by fastforce
  show ?thesis
  proof (cases x)
    case None
    with g get_None [of r r'] wf show ?thesis by simp
  next
    case (Some v)
    with g get_Some_wf [of r v r'] wf show ?thesis by simp
  qed
qed

text \<open>The read operation decides whether the rest of the data starts with an encoding.\<close>

lemma get_iff: "get r = (Some v, r') \<longleftrightarrow> ok v \<and> starts r (enc v) \<and> r' = advance (length (enc v)) r"
proof
  show "get r = (Some v, r') \<Longrightarrow> ok v \<and> starts r (enc v) \<and> r' = advance (length (enc v)) r"
    using get_Some [of r v r'] by (simp add: starts_iff)
  assume *: "ok v \<and> starts r (enc v) \<and> r' = advance (length (enc v)) r"
  then obtain rest where "\<not> m_failed r" "Reader_Rest r = enc v @ rest" by (auto simp: starts_iff)
  with * show "get r = (Some v, r')" using get_enc [of r v rest] by simp
qed

lemma get_starts: "starts r (enc v) \<Longrightarrow> ok v \<Longrightarrow> get r = (Some v, advance (length (enc v)) r)"
  by (simp add: get_iff)

lemma get_fails: "get r = (None, r') \<Longrightarrow> m_failed r'"
  using get_None [of r r'] by simp

text \<open>Encodings are uniquely readable: one stream cannot start with two values.\<close>

lemma enc_prefix_unique:
  assumes "ok v" and "ok w" and "enc v @ xs = enc w @ ys"
  shows "v = w"
proof -
  let ?r = "mk_Reader (enc v @ xs)"
  have "get ?r = (Some v, advance (length (enc v)) ?r)"
    using assms(1) by (intro get_enc) simp_all
  moreover have "get ?r = (Some w, advance (length (enc w)) ?r)"
    using assms(2,3) by (intro get_enc) simp_all
  ultimately show ?thesis by simp
qed

end

section \<open>The fixed-width operations and the string satisfy it\<close>

definition enc_U8 :: "u8 \<Rightarrow> u8 list" where
  "enc_U8 v = [v]"

definition enc_U16 :: "u16 \<Rightarrow> u8 list" where
  "enc_U16 v = [ucast v, ucast (drop_bit 8 v)]"

definition enc_U32 :: "u32 \<Rightarrow> u8 list" where
  "enc_U32 v = enc_U16 (ucast v) @ enc_U16 (ucast (drop_bit 16 v))"

definition enc_U64 :: "u64 \<Rightarrow> u8 list" where
  "enc_U64 v = enc_U32 (ucast v) @ enc_U32 (ucast (drop_bit 32 v))"

definition enc_Str :: "string \<Rightarrow> u8 list" where
  "enc_Str s = enc_U16 (word_of_nat (length s)) @ map byte_of_char s"

lemma enc_length [simp]:
  "length (enc_U8 a) = 1" "length (enc_U16 b) = 2" "length (enc_U32 c) = 4"
  "length (enc_U64 d) = 8" "length (enc_Str s) = 2 + length s"
  by (simp_all add: enc_U8_def enc_U16_def enc_U32_def enc_U64_def enc_Str_def)

lemma enc_U16_inj [simp]: "enc_U16 a = enc_U16 b \<longleftrightarrow> a = b"
proof
  assume eq: "enc_U16 a = enc_U16 b"
  then have "(ucast a :: u8) = ucast b" and "(ucast (drop_bit 8 a) :: u8) = ucast (drop_bit 8 b)"
    by (simp_all add: enc_U16_def)
  then show "a = b" by (subst (1 2) u16_split [symmetric]) (simp only:)
qed simp

lemma Available_iff:
  "Reader_Available n r =
     (if \<not> m_failed r \<and> n \<le> length (Reader_Rest r) then (True, r) else (False, Reader_Fail r))"
  by (auto simp: Reader_Available_def Reader_Rest_def)

lemma Rest_Cons:
  "\<not> m_failed r \<Longrightarrow> Reader_Rest r = x # xs \<Longrightarrow> m_data r ! m_offset r = x"
  by (auto simp: Reader_Rest_def) (metis hd_drop_conv_nth drop_eq_Nil2 linorder_not_le list.distinct(1) list.sel(1))

interpretation u8_codec: wire_codec Writer_U8 Reader_U8 enc_U8 "\<lambda>_. True"
proof unfold_locales
  fix r :: Reader and v :: u8 and rest r'
  show "Writer_U8 v b = b @ enc_U8 v" for b by (simp add: Writer_U8_def enc_U8_def)
  show "m_failed r \<Longrightarrow> Reader_U8 r = (None, r)"
    by (simp add: Reader_U8_def Available_iff Fail_failed)
  show "\<not> m_failed r \<Longrightarrow> True \<Longrightarrow> Reader_Rest r = enc_U8 v @ rest \<Longrightarrow>
      Reader_U8 r = (Some v, advance (length (enc_U8 v)) r)"
    by (simp add: Reader_U8_def Available_iff enc_U8_def Rest_Cons advance_def)
  show "Reader_U8 r = (Some v, r') \<Longrightarrow>
      \<not> m_failed r \<and> True \<and> (\<exists>rest. Reader_Rest r = enc_U8 v @ rest) \<and>
      r' = advance (length (enc_U8 v)) r"
    by (cases "Reader_Rest r")
      (auto simp: Reader_U8_def Available_iff enc_U8_def Rest_Cons advance_def split: if_splits)
  show "Reader_U8 r = (None, r') \<Longrightarrow> m_failed r' \<and> m_data r' = m_data r \<and>
      m_offset r \<le> m_offset r' \<and> (wf_Reader r \<longrightarrow> wf_Reader r')"
    by (auto simp: Reader_U8_def Available_iff wf_Reader_def split: if_splits)
qed

text \<open>
  The wider integers are read as two halves, low half first. The halves satisfy the contract, so
  the whole does: proved once for any way to split a value in two and join it again.
\<close>

definition read_two ::
  "(Reader \<Rightarrow> 'h option \<times> Reader) \<Rightarrow> ('h \<Rightarrow> 'h \<Rightarrow> 'w) \<Rightarrow> Reader \<Rightarrow> 'w option \<times> Reader" where
  "read_two get join r =
     (case get r of
        (None, r1) \<Rightarrow> (None, r1)
      | (Some low, r1) \<Rightarrow>
          (case get r1 of
             (None, r2) \<Rightarrow> (None, r2)
           | (Some high, r2) \<Rightarrow> (Some (join low high), r2)))"

locale halves_codec = half: wire_codec put get enc "\<lambda>_. True"
  for put :: "'h \<Rightarrow> buffer \<Rightarrow> buffer" and get :: "Reader \<Rightarrow> 'h option \<times> Reader"
    and enc :: "'h \<Rightarrow> u8 list" +
  fixes join :: "'h \<Rightarrow> 'h \<Rightarrow> 'w" and low :: "'w \<Rightarrow> 'h" and high :: "'w \<Rightarrow> 'h"
  assumes join_split: "join (low w) (high w) = w"
    and low_join: "low (join a b) = a"
    and high_join: "high (join a b) = b"
begin

lemma read_two_None:
  assumes "read_two get join r = (None, r')"
  shows "m_failed r' \<and> m_data r' = m_data r \<and> m_offset r \<le> m_offset r' \<and>
    (wf_Reader r \<longrightarrow> wf_Reader r')"
proof (cases "fst (get r)")
  case None
  with assms have "get r = (None, r')" by (cases "get r") (simp add: read_two_def)
  then show ?thesis by (rule half.get_None)
next
  case (Some a)
  then obtain r1 where r1: "get r = (Some a, r1)" by (cases "get r") simp
  with assms have "get r1 = (None, r')"
    by (cases "get r1") (simp add: read_two_def split: option.splits)
  note * = half.get_None [OF this]
  moreover have "m_data r1 = m_data r" and "m_offset r \<le> m_offset r1"
    using half.get_Some [OF r1] by auto
  moreover have "wf_Reader r \<Longrightarrow> wf_Reader r1" using half.get_wf [of r] r1 by simp
  ultimately show ?thesis by auto
qed

lemma read_two_Some:
  assumes "read_two get join r = (Some w, r')"
  shows "\<not> m_failed r \<and> (\<exists>rest. Reader_Rest r = (enc (low w) @ enc (high w)) @ rest) \<and>
    r' = advance (length (enc (low w) @ enc (high w))) r"
proof -
  from assms obtain a b r1 where ab: "get r = (Some a, r1)" "get r1 = (Some b, r')" "w = join a b"
    by (auto simp: read_two_def split: prod.splits option.splits)
  from half.get_Some [OF ab(1)] obtain rest where
    1: "\<not> m_failed r" "Reader_Rest r = enc a @ rest" "r1 = advance (length (enc a)) r" by auto
  from half.get_Some [OF ab(2)] obtain rest' where
    2: "Reader_Rest r1 = enc b @ rest'" "r' = advance (length (enc b)) r1" by auto
  from 1 2(1) have "rest = enc b @ rest'" by (simp add: Rest_advance)
  with 1 2 ab(3) show ?thesis by (simp add: low_join high_join)
qed

lemma read_two_enc:
  assumes "\<not> m_failed r" and "Reader_Rest r = (enc (low w) @ enc (high w)) @ rest"
  shows "read_two get join r = (Some w, advance (length (enc (low w) @ enc (high w))) r)"
proof -
  let ?r1 = "advance (length (enc (low w))) r"
  have "get r = (Some (low w), ?r1)"
    using assms half.get_enc [of r "low w"] by simp
  moreover have "get ?r1 = (Some (high w), advance (length (enc (high w))) ?r1)"
    using assms half.get_enc [of ?r1 "high w"] by (simp add: Rest_advance)
  ultimately show ?thesis by (simp add: read_two_def join_split)
qed

sublocale whole: wire_codec
  "\<lambda>w b. put (high w) (put (low w) b)" "read_two get join" "\<lambda>w. enc (low w) @ enc (high w)" "\<lambda>_. True"
proof unfold_locales
  fix r r' :: Reader and w rest
  show "put (high w) (put (low w) b) = b @ enc (low w) @ enc (high w)" for b
    by (simp add: half.put_enc)
  show "m_failed r \<Longrightarrow> read_two get join r = (None, r)"
    by (simp add: read_two_def half.get_failed)
  show "\<not> m_failed r \<Longrightarrow> True \<Longrightarrow> Reader_Rest r = (enc (low w) @ enc (high w)) @ rest \<Longrightarrow>
      read_two get join r = (Some w, advance (length (enc (low w) @ enc (high w))) r)"
    by (rule read_two_enc)
  show "read_two get join r = (Some w, r') \<Longrightarrow>
      \<not> m_failed r \<and> True \<and> (\<exists>rest. Reader_Rest r = (enc (low w) @ enc (high w)) @ rest) \<and>
      r' = advance (length (enc (low w) @ enc (high w))) r"
    using read_two_Some by blast
  show "read_two get join r = (None, r') \<Longrightarrow> m_failed r' \<and> m_data r' = m_data r \<and>
      m_offset r \<le> m_offset r' \<and> (wf_Reader r \<longrightarrow> wf_Reader r')"
    by (rule read_two_None)
qed

end

lemma Reader_two:
  "Reader_U16 = read_two Reader_U8 (\<lambda>lo hi. ucast lo OR push_bit 8 (ucast hi))"
  "Reader_U32 = read_two Reader_U16 (\<lambda>lo hi. ucast lo OR push_bit 16 (ucast hi))"
  "Reader_U64 = read_two Reader_U32 (\<lambda>lo hi. ucast lo OR push_bit 32 (ucast hi))"
  by (simp_all add: fun_eq_iff Reader_U16_def Reader_U32_def Reader_U64_def read_two_def)

interpretation u16_halves: halves_codec Writer_U8 Reader_U8 enc_U8
  "\<lambda>lo hi. (ucast lo :: u16) OR push_bit 8 (ucast hi)" ucast "\<lambda>w. ucast (drop_bit 8 w)"
  by unfold_locales (rule word_split word_join)+

interpretation u16_codec: wire_codec Writer_U16 Reader_U16 enc_U16 "\<lambda>_. True"
  using u16_halves.whole.wire_codec_axioms
  by (simp add: Reader_two(1) Writer_U16_def [abs_def] enc_U16_def [abs_def] enc_U8_def)

interpretation u32_halves: halves_codec Writer_U16 Reader_U16 enc_U16
  "\<lambda>lo hi. (ucast lo :: u32) OR push_bit 16 (ucast hi)" ucast "\<lambda>w. ucast (drop_bit 16 w)"
  by unfold_locales (rule word_split word_join)+

interpretation u32_codec: wire_codec Writer_U32 Reader_U32 enc_U32 "\<lambda>_. True"
  using u32_halves.whole.wire_codec_axioms
  by (simp add: Reader_two(2) Writer_U32_def [abs_def] enc_U32_def [abs_def])

interpretation u64_halves: halves_codec Writer_U32 Reader_U32 enc_U32
  "\<lambda>lo hi. (ucast lo :: u64) OR push_bit 32 (ucast hi)" ucast "\<lambda>w. ucast (drop_bit 32 w)"
  by unfold_locales (rule word_split word_join)+

interpretation u64_codec: wire_codec Writer_U64 Reader_U64 enc_U64 "\<lambda>_. True"
  using u64_halves.whole.wire_codec_axioms
  by (simp add: Reader_two(3) Writer_U64_def [abs_def] enc_U64_def [abs_def])

lemma Reader_F32_U32: "Reader_F32 = Reader_U32"
  by (simp add: fun_eq_iff Reader_F32_def split: prod.splits option.splits)

interpretation f32_codec: wire_codec Writer_F32 Reader_F32 enc_U32 "\<lambda>_. True"
  using u32_codec.wire_codec_axioms
  by (simp add: Reader_F32_U32 Writer_F32_def [abs_def])

text \<open>A string is readable when its length is within the reader's cap.\<close>

definition str_ok :: "u16 \<Rightarrow> string \<Rightarrow> bool" where
  "str_ok maxSize s \<longleftrightarrow> length s \<le> unat maxSize"

lemma str_ok_size:
  "str_ok m s \<Longrightarrow> unat (word_of_nat (length s) :: u16) = length s \<and> \<not> (word_of_nat (length s) :: u16) > m"
proof -
  assume ok: "str_ok m s"
  have "unat m < 2 ^ 16" by (rule order_less_le_trans [OF unsigned_less]) simp
  with ok have len: "length s < 65536" by (simp add: str_ok_def)
  then have u: "unat (word_of_nat (length s) :: u16) = length s" by (simp add: unat_of_nat)
  with ok show ?thesis by (simp add: str_ok_def word_less_nat_alt)
qed

lemma Str_Some:
  assumes "Reader_Str m r = (Some s, r')"
  shows "\<not> m_failed r \<and> str_ok m s \<and> (\<exists>rest. Reader_Rest r = enc_Str s @ rest) \<and>
    r' = advance (length (enc_Str s)) r"
proof -
  from assms obtain sz r1 where sz: "Reader_U16 r = (Some sz, r1)" "\<not> sz > m"
    and av: "\<not> m_failed r1" "unat sz \<le> length (Reader_Rest r1)"
    and s: "s = map char_of_byte (take (unat sz) (Reader_Rest r1))" "r' = advance (unat sz) r1"
    by (auto simp: Reader_Str_def Available_iff Reader_Rest_def advance_def
        split: prod.splits option.splits if_splits)
  from u16_codec.get_Some [OF sz(1)] obtain rest
    where r: "\<not> m_failed r" "Reader_Rest r = enc_U16 sz @ rest" "r1 = advance 2 r" by auto
  from r have rest: "Reader_Rest r1 = rest" by (simp add: Rest_advance)
  have len: "length s = unat sz" using s av rest by simp
  have "rest = map byte_of_char s @ drop (unat sz) rest" using s rest by simp
  with r(2) len have "Reader_Rest r = enc_Str s @ drop (unat sz) rest" by (simp add: enc_Str_def)
  moreover have "str_ok m s" using sz(2) len by (simp add: str_ok_def word_le_nat_alt not_less)
  ultimately show ?thesis using r s len by auto
qed

lemma Str_enc:
  assumes "\<not> m_failed r" and "str_ok m s" and "Reader_Rest r = enc_Str s @ rest"
  shows "Reader_Str m r = (Some s, advance (length (enc_Str s)) r)"
proof -
  let ?sz = "word_of_nat (length s) :: u16" and ?r1 = "advance 2 r"
  note sz = str_ok_size [OF assms(2)]
  from assms(3) have rest: "Reader_Rest r = enc_U16 ?sz @ (map byte_of_char s @ rest)"
    by (simp add: enc_Str_def)
  with assms(1) have u: "Reader_U16 r = (Some ?sz, ?r1)" using u16_codec.get_enc [of r ?sz] by simp
  have "Reader_Rest ?r1 = map byte_of_char s @ rest" using rest by (simp add: Rest_advance)
  moreover from this assms(1) have "drop (m_offset ?r1) (m_data ?r1) = map byte_of_char s @ rest"
    by (simp add: Reader_Rest_def)
  ultimately show ?thesis using u sz assms(1)
    by (simp add: Reader_Str_def Available_iff advance_def del: advance_simps)
qed

lemma Str_None:
  assumes "Reader_Str m r = (None, r')"
  shows "m_failed r' \<and> m_data r' = m_data r \<and> m_offset r \<le> m_offset r' \<and> (wf_Reader r \<longrightarrow> wf_Reader r')"
proof (cases "Reader_U16 r")
  case (Pair x r1)
  show ?thesis
  proof (cases x)
    case None
    with Pair assms have "Reader_U16 r = (None, r')" by (simp add: Reader_Str_def)
    then show ?thesis by (rule u16_codec.get_None)
  next
    case (Some sz)
    with Pair assms have "r' = Reader_Fail r1"
      by (auto simp: Reader_Str_def Available_iff Fail_failed split: if_splits)
    moreover have "m_data r1 = m_data r" "m_offset r \<le> m_offset r1"
      using Pair Some u16_codec.get_Some [of r sz r1] by auto
    moreover have "wf_Reader r \<Longrightarrow> wf_Reader r1" using Pair Some u16_codec.get_wf [of r] by simp
    ultimately show ?thesis by (auto simp: wf_Reader_def)
  qed
qed

interpretation str_codec: wire_codec Writer_Str "Reader_Str m" enc_Str "str_ok m" for m
proof unfold_locales
  show "Writer_Str v b = b @ enc_Str v" for v b
    by (simp add: Writer_Str_def enc_Str_def u16_codec.put_enc)
  show "m_failed r \<Longrightarrow> Reader_Str m r = (None, r)" for r
    by (simp add: Reader_Str_def u16_codec.get_failed)
qed (use Str_enc Str_Some Str_None in blast)+

text \<open>
  The laws of all codecs, bundled: by get_starts a proof that knows what the data starts with
  computes what is read; by get_iff a successful read is inverted.
\<close>

lemmas codec_reads =
  u8_codec.get_starts [OF _ TrueI] u16_codec.get_starts [OF _ TrueI] u32_codec.get_starts [OF _ TrueI]
  u64_codec.get_starts [OF _ TrueI] f32_codec.get_starts [OF _ TrueI] str_codec.get_starts

lemmas codec_iffs =
  u8_codec.get_iff u16_codec.get_iff u32_codec.get_iff u64_codec.get_iff f32_codec.get_iff str_codec.get_iff

lemmas codec_fails =
  u8_codec.get_fails u16_codec.get_fails u32_codec.get_fails u64_codec.get_fails
  f32_codec.get_fails str_codec.get_fails

lemmas codec_puts =
  u8_codec.put_enc u16_codec.put_enc u32_codec.put_enc u64_codec.put_enc f32_codec.put_enc str_codec.put_enc

section \<open>Streams of fields\<close>

text \<open>
  A caller of the two classes writes fields one after the other and reads them back in the same
  order. A field is one call; a read call names the kind it asks for, with the cap it passes to
  Str.
\<close>

datatype field = F_U8 u8 | F_U16 u16 | F_U32 u32 | F_U64 u64 | F_F32 f32 | F_Str string

datatype field_kind = K_U8 | K_U16 | K_U32 | K_U64 | K_F32 | K_Str u16

fun write_field :: "field \<Rightarrow> buffer \<Rightarrow> buffer" where
  "write_field (F_U8 v) = Writer_U8 v"
| "write_field (F_U16 v) = Writer_U16 v"
| "write_field (F_U32 v) = Writer_U32 v"
| "write_field (F_U64 v) = Writer_U64 v"
| "write_field (F_F32 v) = Writer_F32 v"
| "write_field (F_Str v) = Writer_Str v"

fun read_field :: "field_kind \<Rightarrow> Reader \<Rightarrow> field option \<times> Reader" where
  "read_field K_U8 r = map_prod (map_option F_U8) id (Reader_U8 r)"
| "read_field K_U16 r = map_prod (map_option F_U16) id (Reader_U16 r)"
| "read_field K_U32 r = map_prod (map_option F_U32) id (Reader_U32 r)"
| "read_field K_U64 r = map_prod (map_option F_U64) id (Reader_U64 r)"
| "read_field K_F32 r = map_prod (map_option F_F32) id (Reader_F32 r)"
| "read_field (K_Str cap) r = map_prod (map_option F_Str) id (Reader_Str cap r)"

definition write_fields :: "field list \<Rightarrow> buffer \<Rightarrow> buffer" where
  "write_fields fs b = fold write_field fs b"

text \<open>Every call is made, also after one failed, as a caller that only looks at Ok() in the end does.\<close>

fun read_fields :: "field_kind list \<Rightarrow> Reader \<Rightarrow> field option list \<times> Reader" where
  "read_fields [] r = ([], r)"
| "read_fields (k # ks) r =
     (case read_field k r of (v, r1) \<Rightarrow> (case read_fields ks r1 of (vs, r2) \<Rightarrow> (v # vs, r2)))"

text \<open>The kind that asks for a field, and whether it can be read with it.\<close>

fun asks :: "field \<Rightarrow> field_kind \<Rightarrow> bool" where
  "asks (F_U8 _) K_U8 = True"
| "asks (F_U16 _) K_U16 = True"
| "asks (F_U32 _) K_U32 = True"
| "asks (F_U64 _) K_U64 = True"
| "asks (F_F32 _) K_F32 = True"
| "asks (F_Str s) (K_Str cap) = str_ok cap s"
| "asks _ _ = False"

fun enc_field :: "field \<Rightarrow> u8 list" where
  "enc_field (F_U8 v) = enc_U8 v"
| "enc_field (F_U16 v) = enc_U16 v"
| "enc_field (F_U32 v) = enc_U32 v"
| "enc_field (F_U64 v) = enc_U64 v"
| "enc_field (F_F32 v) = enc_U32 v"
| "enc_field (F_Str v) = enc_Str v"

lemma write_field_enc: "write_field f b = b @ enc_field f"
  by (cases f) (simp_all add: codec_puts)

lemma write_fields_enc: "write_fields fs b = b @ concat (map enc_field fs)"
  unfolding write_fields_def by (induction fs arbitrary: b) (simp_all add: write_field_enc)

lemma read_field_Some:
  "asks f k \<Longrightarrow> starts r (enc_field f) \<Longrightarrow> read_field k r = (Some f, advance (length (enc_field f)) r)"
  by (cases f; cases k) (simp_all add: codec_reads)

lemma read_fields_starts:
  "list_all2 asks fs ks \<Longrightarrow> starts r (concat (map enc_field fs)) \<Longrightarrow>
   read_fields ks r = (map Some fs, advance (length (concat (map enc_field fs))) r)"
  by (induction fs ks arbitrary: r rule: list_all2_induct)
    (simp_all add: starts_append read_field_Some)

lemma read_field_failed: "m_failed r \<Longrightarrow> read_field k r = (None, r)"
  by (cases k) (simp_all add: u8_codec.get_failed u16_codec.get_failed u32_codec.get_failed
      u64_codec.get_failed f32_codec.get_failed str_codec.get_failed)

lemma read_fields_failed: "m_failed r \<Longrightarrow> read_fields ks r = (replicate (length ks) None, r)"
  by (induction ks) (simp_all add: read_field_failed)

lemma read_field_wf: "wf_Reader r \<Longrightarrow> wf_Reader (snd (read_field k r))"
  by (cases k) (simp_all add: u8_codec.get_wf u16_codec.get_wf u32_codec.get_wf
      u64_codec.get_wf f32_codec.get_wf str_codec.get_wf)

lemma read_field_None: "read_field k r = (None, r') \<Longrightarrow> m_failed r'"
  by (cases k) (auto dest: codec_fails simp: map_prod_def split: prod.splits)

lemma read_field_Some_ok: "read_field k r = (Some f, r') \<Longrightarrow> \<not> m_failed r'"
  by (cases k) (auto simp: map_prod_def codec_iffs dest: starts_not_failed split: prod.splits)

text \<open>The outcomes of a stream of reads: successes up to the first failure, then only failures.\<close>

lemma read_fields_shape:
  assumes "read_fields ks r = (vs, r')"
  shows "\<exists>fs n. vs = map Some fs @ replicate n None \<and> length vs = length ks \<and> (0 < n \<longrightarrow> m_failed r')"
  using assms
proof (induction ks arbitrary: r vs)
  case (Cons k ks)
  obtain v r1 where v: "read_field k r = (v, r1)" by fastforce
  obtain ws where ws: "read_fields ks r1 = (ws, r')" "vs = v # ws"
    using Cons.prems v by (auto split: prod.splits)
  show ?case
  proof (cases v)
    case None
    with v read_field_None have "m_failed r1" by simp
    from read_fields_failed [OF this, of ks] ws None \<open>m_failed r1\<close> show ?thesis
      by (intro exI [of _ "[]"] exI [of _ "Suc (length ks)"]) auto
  next
    case (Some f)
    from Cons.IH [OF ws(1)] obtain fs n where
      "ws = map Some fs @ replicate n None" "length ws = length ks" "0 < n \<longrightarrow> m_failed r'" by blast
    with Some ws(2) show ?thesis by (intro exI [of _ "f # fs"] exI [of _ n]) simp
  qed
qed simp

lemma read_fields_wf: "wf_Reader r \<Longrightarrow> wf_Reader (snd (read_fields ks r))"
proof (induction ks arbitrary: r)
  case (Cons k ks)
  show ?case using Cons.IH [OF read_field_wf [OF Cons.prems, of k]]
    by (simp add: case_prod_beta)
qed simp

section \<open>Properties\<close>

text \<open>
  Whatever fields are written, in whatever order and mix of types, reading them back with the
  matching calls returns every field, and leaves the cursor exactly behind them. The floats
  come back with their bits; a string comes back when its length is within the cap.
\<close>

theorem fields_roundtrip:
  assumes "list_all2 asks fs ks"
  shows "read_fields ks (mk_Reader (write_fields fs [] @ rest)) =
    (map Some fs, advance (Writer_Size (write_fields fs [])) (mk_Reader (write_fields fs [] @ rest)))"
  using read_fields_starts [OF assms, of "mk_Reader (write_fields fs [] @ rest)"]
  by (simp add: write_fields_enc Writer_Size_def)

theorem fields_roundtrip_witness:
  "read_fields [K_U8, K_Str 256, K_U16] (mk_Reader (write_fields [F_U8 7, F_Str ''ab'', F_U16 0x1234] [] @ [9])) =
    ([Some (F_U8 7), Some (F_Str ''ab''), Some (F_U16 0x1234)],
     advance (Writer_Size (write_fields [F_U8 7, F_Str ''ab'', F_U16 0x1234] []))
       (mk_Reader (write_fields [F_U8 7, F_Str ''ab'', F_U16 0x1234] [] @ [9])))"
  using fields_roundtrip [of "[F_U8 7, F_Str ''ab'', F_U16 0x1234]" "[K_U8, K_Str 256, K_U16]" "[9]"]
  by (simp add: str_ok_def)

text \<open>
  On any bytes whatever, and for any sequence of read calls, the cursor never passes the end of
  the data, and the calls that return true form a prefix of the sequence: after the first failure
  every call fails, so Ok() in the end tells whether all of them succeeded.
\<close>

theorem reads_are_safe:
  "wf_Reader (snd (read_fields ks (mk_Reader d))) \<and>
   (\<exists>fs n. fst (read_fields ks (mk_Reader d)) = map Some fs @ replicate n None \<and>
      (Reader_Ok (snd (read_fields ks (mk_Reader d))) = (n = 0)) \<and> length fs + n = length ks)"
proof -
  obtain vs r where r: "read_fields ks (mk_Reader d) = (vs, r)" by fastforce
  from read_fields_shape [OF r] obtain fs n where s: "vs = map Some fs @ replicate n None"
    "length vs = length ks" "0 < n \<longrightarrow> m_failed r" by blast
  have "\<not> m_failed r'" if "read_fields ks r0 = (map Some fs, r')" "\<not> m_failed r0" for ks r0 fs r'
    using that by (induction ks arbitrary: r0 fs) (auto split: prod.splits dest!: read_field_Some_ok)
  with s r have "m_failed r = (0 < n)" by (cases n) auto
  with s r read_fields_wf [of "mk_Reader d" ks] show ?thesis
    by (auto simp: Reader_Ok_def intro!: exI [of _ fs] exI [of _ n])
qed

end
