(* ===== verification/Protocol.thy ===== *)
theory Protocol imports
  Serialize
begin

text \<open>
  src/src/common/Protocol.hpp: the eight messages, their header, and the templates Encode and
  Decode. Each struct is a record; its Write appends to a buffer; its Read runs on the pair of the
  message being filled and the reader, and returns whether it succeeded with the message as the
  reads left it, partly assigned when one of them failed. The template parameter T of Encode
  and Decode is a record of what the templates use of T: kType, kFlags, Write and Read.

  The locale wire_message is that requirement on T as a contract; the round trip and the refusals
  of Decode are proved once from it and hold for the eight messages by interpretation.
\<close>

section \<open>Constants, message types and flags\<close>

definition kVersion :: u32 where "kVersion = 2"
definition kMaxDatagram :: nat where "kMaxDatagram = 1200"
definition kMaxStringSize :: u16 where "kMaxStringSize = 256"

text \<open>
  enum class Type : uint8_t. A value of the enum may be any byte; Type_Other is a byte that no
  enumerator names, which the cast in Header::Read could produce.
\<close>

datatype Type =
    Type_Invalid | Type_Hello | Type_HelloAck | Type_Ping | Type_Pong | Type_PlayerState
  | Type_NotifyPlayerState | Type_NotifyPlayerJoined | Type_NotifyPlayerLeft
  | Type_Other u8

fun u8_of_Type :: "Type \<Rightarrow> u8" where
  "u8_of_Type Type_Invalid = 0"
| "u8_of_Type Type_Hello = 1"
| "u8_of_Type Type_HelloAck = 2"
| "u8_of_Type Type_Ping = 3"
| "u8_of_Type Type_Pong = 4"
| "u8_of_Type Type_PlayerState = 5"
| "u8_of_Type Type_NotifyPlayerState = 6"
| "u8_of_Type Type_NotifyPlayerJoined = 7"
| "u8_of_Type Type_NotifyPlayerLeft = 8"
| "u8_of_Type (Type_Other b) = b"

definition Type_of_u8 :: "u8 \<Rightarrow> Type" where
  "Type_of_u8 b =
     (if b = 0 then Type_Invalid else if b = 1 then Type_Hello else if b = 2 then Type_HelloAck
      else if b = 3 then Type_Ping else if b = 4 then Type_Pong else if b = 5 then Type_PlayerState
      else if b = 6 then Type_NotifyPlayerState else if b = 7 then Type_NotifyPlayerJoined
      else if b = 8 then Type_NotifyPlayerLeft else Type_Other b)"

definition Flags_None :: u8 where "Flags_None = 0"
definition Flags_Reliable :: u8 where "Flags_Reliable = push_bit 0 1"

section \<open>Reading fields into a message\<close>

text \<open>
  \<^verbatim>\<open>aReader.U32(field)\<close> assigns the field when it returns true; \<^verbatim>\<open>a && b\<close> evaluates
  \<^verbatim>\<open>b\<close> only when \<^verbatim>\<open>a\<close> returned true; \<^verbatim>\<open>field.Read(aReader)\<close> reads a struct inside a struct.
\<close>

type_synonym 'm step = "'m \<times> Reader \<Rightarrow> bool \<times> 'm \<times> Reader"

definition into :: "(Reader \<Rightarrow> 'v option \<times> Reader) \<Rightarrow> ('v \<Rightarrow> 'm \<Rightarrow> 'm) \<Rightarrow> 'm step" where
  "into get upd x =
     (case get (snd x) of
        (None, r) \<Rightarrow> (False, fst x, r)
      | (Some v, r) \<Rightarrow> (True, upd v (fst x), r))"

definition and_then :: "'m step \<Rightarrow> 'm step \<Rightarrow> 'm step" where
  "and_then a b x = (case a x of (False, y) \<Rightarrow> (False, y) | (True, y) \<Rightarrow> b y)"

definition nested :: "'f step \<Rightarrow> ('m \<Rightarrow> 'f) \<Rightarrow> ('f \<Rightarrow> 'm \<Rightarrow> 'm) \<Rightarrow> 'm step" where
  "nested s field upd x =
     (case s (field (fst x), snd x) of (b, f, r) \<Rightarrow> (b, upd f (fst x), r))"

lemma into_True [msg_simps]:
  "into get upd (m, r) = (True, m', r') \<longleftrightarrow> (\<exists>v. get r = (Some v, r') \<and> m' = upd v m)"
  by (auto simp: into_def split: prod.splits option.splits)

lemma into_False [msg_simps]:
  "into get upd (m, r) = (False, m', r') \<longleftrightarrow> get r = (None, r') \<and> m' = m"
  by (auto simp: into_def split: prod.splits option.splits)

lemma and_then_into_True [msg_simps]:
  "and_then (into get upd) b (m, r) = (True, m', r') \<longleftrightarrow>
     (\<exists>v r1. get r = (Some v, r1) \<and> b (upd v m, r1) = (True, m', r'))"
  by (auto simp: and_then_def into_def split: prod.splits bool.splits option.splits)

lemma and_then_nested_True [msg_simps]:
  "and_then (nested s field upd) b (m, r) = (True, m', r') \<longleftrightarrow>
     (\<exists>f r1. s (field m, r) = (True, f, r1) \<and> b (upd f m, r1) = (True, m', r'))"
  by (auto simp: and_then_def nested_def split: prod.splits bool.splits)

lemma and_then_False [msg_simps]:
  "and_then a b x = (False, m, r) \<longleftrightarrow>
     a x = (False, m, r) \<or> (\<exists>m1 r1. a x = (True, m1, r1) \<and> b (m1, r1) = (False, m, r))"
  by (auto simp: and_then_def split: prod.splits bool.splits)

lemma nested_iff [msg_simps]:
  "nested s field upd (m, r) = (b, m', r') \<longleftrightarrow>
     (\<exists>f. s (field m, r) = (b, f, r') \<and> m' = upd f m)"
  by (auto simp: nested_def split: prod.splits)

section \<open>The header\<close>

record Header =
  hdr_type :: Type
  hdr_flags :: u8
  hdr_size :: u16

definition Header_kSize :: nat where "Header_kSize = 4"

definition Header_default :: Header where
  "Header_default = \<lparr>hdr_type = Type_Invalid, hdr_flags = Flags_None, hdr_size = 0\<rparr>"

definition Header_IsReliable :: "Header \<Rightarrow> bool" where
  "Header_IsReliable h \<longleftrightarrow> (hdr_flags h AND Flags_Reliable) \<noteq> 0"

definition Header_Write :: "Header \<Rightarrow> buffer \<Rightarrow> buffer" where
  "Header_Write h b =
     Writer_U16 (hdr_size h) (Writer_U8 (hdr_flags h) (Writer_U8 (u8_of_Type (hdr_type h)) b))"

definition Header_Read :: "Header step" where
  "Header_Read x =
     (case Reader_U8 (snd x) of
        (None, r1) \<Rightarrow> (False, fst x, r1)
      | (Some rawType, r1) \<Rightarrow>
          (case and_then (into Reader_U8 (\<lambda>v h. h\<lparr>hdr_flags := v\<rparr>))
                         (into Reader_U16 (\<lambda>v h. h\<lparr>hdr_size := v\<rparr>)) (fst x, r1) of
             (False, h, r2) \<Rightarrow> (False, h, r2)
           | (True, h, r2) \<Rightarrow>
               if rawType > u8_of_Type Type_NotifyPlayerLeft then (False, h, r2)
               else
                 (let h' = h\<lparr>hdr_type := Type_of_u8 rawType\<rparr>
                  in (hdr_type h' \<noteq> Type_Invalid, h', r2))))"

text \<open>PeekHeader fills aOut; the pair is the returned bool and aOut afterwards.\<close>

definition PeekHeader :: "u8 list \<Rightarrow> Header \<Rightarrow> bool \<times> Header" where
  "PeekHeader d out = (case Header_Read (out, mk_Reader d) of (b, h, _) \<Rightarrow> (b, h))"

section \<open>The messages\<close>

record Vec3 =
  vx :: f32
  vy :: f32
  vz :: f32

definition Vec3_Write :: "Vec3 \<Rightarrow> buffer \<Rightarrow> buffer" where
  "Vec3_Write p b = Writer_F32 (vz p) (Writer_F32 (vy p) (Writer_F32 (vx p) b))"

definition Vec3_Read :: "Vec3 step" where
  "Vec3_Read =
     and_then (into Reader_F32 (\<lambda>v p. p\<lparr>vx := v\<rparr>))
       (and_then (into Reader_F32 (\<lambda>v p. p\<lparr>vy := v\<rparr>)) (into Reader_F32 (\<lambda>v p. p\<lparr>vz := v\<rparr>)))"

record Hello =
  hello_version :: u32
  hello_username :: string

definition Hello_Write :: "Hello \<Rightarrow> buffer \<Rightarrow> buffer" where
  "Hello_Write m b = Writer_Str (hello_username m) (Writer_U32 (hello_version m) b)"

definition Hello_Read :: "Hello step" where
  "Hello_Read =
     and_then (into Reader_U32 (\<lambda>v m. m\<lparr>hello_version := v\<rparr>))
       (into (Reader_Str kMaxStringSize) (\<lambda>v m. m\<lparr>hello_username := v\<rparr>))"

record HelloAck =
  ack_accepted :: bool
  ack_version :: u32
  ack_reason :: string

definition HelloAck_Write :: "HelloAck \<Rightarrow> buffer \<Rightarrow> buffer" where
  "HelloAck_Write m b =
     Writer_Str (ack_reason m)
       (Writer_U32 (ack_version m) (Writer_U8 (if ack_accepted m then 1 else 0) b))"

definition HelloAck_Read :: "HelloAck step" where
  "HelloAck_Read x =
     (case Reader_U8 (snd x) of
        (None, r1) \<Rightarrow> (False, fst x, r1)
      | (Some raw, r1) \<Rightarrow>
          (case and_then (into Reader_U32 (\<lambda>v m. m\<lparr>ack_version := v\<rparr>))
                         (into (Reader_Str kMaxStringSize) (\<lambda>v m. m\<lparr>ack_reason := v\<rparr>)) (fst x, r1) of
             (False, m, r2) \<Rightarrow> (False, m, r2)
           | (True, m, r2) \<Rightarrow> (True, m\<lparr>ack_accepted := (raw \<noteq> 0)\<rparr>, r2)))"

record Ping =
  ping_sentAt :: u64

definition Ping_Write :: "Ping \<Rightarrow> buffer \<Rightarrow> buffer" where
  "Ping_Write m b = Writer_U64 (ping_sentAt m) b"

definition Ping_Read :: "Ping step" where
  "Ping_Read = into Reader_U64 (\<lambda>v m. m\<lparr>ping_sentAt := v\<rparr>)"

record Pong =
  pong_sentAt :: u64

definition Pong_Write :: "Pong \<Rightarrow> buffer \<Rightarrow> buffer" where
  "Pong_Write m b = Writer_U64 (pong_sentAt m) b"

definition Pong_Read :: "Pong step" where
  "Pong_Read = into Reader_U64 (\<lambda>v m. m\<lparr>pong_sentAt := v\<rparr>)"

record PlayerState =
  ps_tick :: u64
  ps_position :: Vec3
  ps_rotation :: f32

definition PlayerState_Write :: "PlayerState \<Rightarrow> buffer \<Rightarrow> buffer" where
  "PlayerState_Write m b =
     Writer_F32 (ps_rotation m) (Vec3_Write (ps_position m) (Writer_U64 (ps_tick m) b))"

definition PlayerState_Read :: "PlayerState step" where
  "PlayerState_Read =
     and_then (into Reader_U64 (\<lambda>v m. m\<lparr>ps_tick := v\<rparr>))
       (and_then (nested Vec3_Read ps_position (\<lambda>v m. m\<lparr>ps_position := v\<rparr>))
         (into Reader_F32 (\<lambda>v m. m\<lparr>ps_rotation := v\<rparr>)))"

record NotifyPlayerState =
  nps_playerId :: u32
  nps_tick :: u64
  nps_position :: Vec3
  nps_rotation :: f32

definition NotifyPlayerState_Write :: "NotifyPlayerState \<Rightarrow> buffer \<Rightarrow> buffer" where
  "NotifyPlayerState_Write m b =
     Writer_F32 (nps_rotation m)
       (Vec3_Write (nps_position m) (Writer_U64 (nps_tick m) (Writer_U32 (nps_playerId m) b)))"

definition NotifyPlayerState_Read :: "NotifyPlayerState step" where
  "NotifyPlayerState_Read =
     and_then (into Reader_U32 (\<lambda>v m. m\<lparr>nps_playerId := v\<rparr>))
       (and_then (into Reader_U64 (\<lambda>v m. m\<lparr>nps_tick := v\<rparr>))
         (and_then (nested Vec3_Read nps_position (\<lambda>v m. m\<lparr>nps_position := v\<rparr>))
           (into Reader_F32 (\<lambda>v m. m\<lparr>nps_rotation := v\<rparr>))))"

record NotifyPlayerJoined =
  npj_playerId :: u32
  npj_username :: string

definition NotifyPlayerJoined_Write :: "NotifyPlayerJoined \<Rightarrow> buffer \<Rightarrow> buffer" where
  "NotifyPlayerJoined_Write m b = Writer_Str (npj_username m) (Writer_U32 (npj_playerId m) b)"

definition NotifyPlayerJoined_Read :: "NotifyPlayerJoined step" where
  "NotifyPlayerJoined_Read =
     and_then (into Reader_U32 (\<lambda>v m. m\<lparr>npj_playerId := v\<rparr>))
       (into (Reader_Str kMaxStringSize) (\<lambda>v m. m\<lparr>npj_username := v\<rparr>))"

record NotifyPlayerLeft =
  npl_playerId :: u32

definition NotifyPlayerLeft_Write :: "NotifyPlayerLeft \<Rightarrow> buffer \<Rightarrow> buffer" where
  "NotifyPlayerLeft_Write m b = Writer_U32 (npl_playerId m) b"

definition NotifyPlayerLeft_Read :: "NotifyPlayerLeft step" where
  "NotifyPlayerLeft_Read = into Reader_U32 (\<lambda>v m. m\<lparr>npl_playerId := v\<rparr>)"

text \<open>A message as it is declared, before anything is read into it.\<close>

definition Vec3_default :: Vec3 where "Vec3_default = \<lparr>vx = 0, vy = 0, vz = 0\<rparr>"

definition Hello_default :: Hello where
  "Hello_default = \<lparr>hello_version = kVersion, hello_username = []\<rparr>"

definition HelloAck_default :: HelloAck where
  "HelloAck_default = \<lparr>ack_accepted = False, ack_version = kVersion, ack_reason = []\<rparr>"

definition Ping_default :: Ping where "Ping_default = \<lparr>ping_sentAt = 0\<rparr>"

definition Pong_default :: Pong where "Pong_default = \<lparr>pong_sentAt = 0\<rparr>"

definition PlayerState_default :: PlayerState where
  "PlayerState_default = \<lparr>ps_tick = 0, ps_position = Vec3_default, ps_rotation = 0\<rparr>"

definition NotifyPlayerState_default :: NotifyPlayerState where
  "NotifyPlayerState_default =
     \<lparr>nps_playerId = 0, nps_tick = 0, nps_position = Vec3_default, nps_rotation = 0\<rparr>"

definition NotifyPlayerJoined_default :: NotifyPlayerJoined where
  "NotifyPlayerJoined_default = \<lparr>npj_playerId = 0, npj_username = []\<rparr>"

definition NotifyPlayerLeft_default :: NotifyPlayerLeft where
  "NotifyPlayerLeft_default = \<lparr>npl_playerId = 0\<rparr>"

section \<open>Encode and Decode\<close>

record 'm msg_traits =
  kType :: Type
  kFlags :: u8
  Write :: "'m \<Rightarrow> buffer \<Rightarrow> buffer"
  Read :: "'m step"

definition Encode :: "'m msg_traits \<Rightarrow> 'm \<Rightarrow> bool \<times> buffer" where
  "Encode T m =
     (let out0 = [];
          out1 = Header_Write \<lparr>hdr_type = kType T, hdr_flags = kFlags T, hdr_size = 0\<rparr> out0;
          out2 = Write T m out1;
          bodySize = length out2 - Header_kSize
      in if length out2 > kMaxDatagram \<or> bodySize > 65535 then (False, [])
         else (True, (out2[2 := word_of_nat bodySize])[3 := word_of_nat (drop_bit 8 bodySize)]))"

definition Decode :: "'m msg_traits \<Rightarrow> u8 list \<Rightarrow> 'm \<Rightarrow> bool \<times> 'm" where
  "Decode T d out =
     (case Header_Read (Header_default, mk_Reader d) of
        (ok, header, reader) \<Rightarrow>
          if \<not> ok \<or> hdr_type header \<noteq> kType T then (False, out)
          else if unat (hdr_size header) \<noteq> Reader_Remaining reader then (False, out)
          else (case Read T (out, reader) of (ok', m, reader') \<Rightarrow> (ok' \<and> Reader_Ok reader', m)))"

definition Hello_T :: "Hello msg_traits" where
  "Hello_T = \<lparr>kType = Type_Hello, kFlags = Flags_Reliable, Write = Hello_Write, Read = Hello_Read\<rparr>"

definition HelloAck_T :: "HelloAck msg_traits" where
  "HelloAck_T = \<lparr>kType = Type_HelloAck, kFlags = Flags_Reliable, Write = HelloAck_Write, Read = HelloAck_Read\<rparr>"

definition Ping_T :: "Ping msg_traits" where
  "Ping_T = \<lparr>kType = Type_Ping, kFlags = Flags_None, Write = Ping_Write, Read = Ping_Read\<rparr>"

definition Pong_T :: "Pong msg_traits" where
  "Pong_T = \<lparr>kType = Type_Pong, kFlags = Flags_None, Write = Pong_Write, Read = Pong_Read\<rparr>"

definition PlayerState_T :: "PlayerState msg_traits" where
  "PlayerState_T = \<lparr>kType = Type_PlayerState, kFlags = Flags_None,
     Write = PlayerState_Write, Read = PlayerState_Read\<rparr>"

definition NotifyPlayerState_T :: "NotifyPlayerState msg_traits" where
  "NotifyPlayerState_T = \<lparr>kType = Type_NotifyPlayerState, kFlags = Flags_None,
     Write = NotifyPlayerState_Write, Read = NotifyPlayerState_Read\<rparr>"

definition NotifyPlayerJoined_T :: "NotifyPlayerJoined msg_traits" where
  "NotifyPlayerJoined_T = \<lparr>kType = Type_NotifyPlayerJoined, kFlags = Flags_Reliable,
     Write = NotifyPlayerJoined_Write, Read = NotifyPlayerJoined_Read\<rparr>"

definition NotifyPlayerLeft_T :: "NotifyPlayerLeft msg_traits" where
  "NotifyPlayerLeft_T = \<lparr>kType = Type_NotifyPlayerLeft, kFlags = Flags_Reliable,
     Write = NotifyPlayerLeft_Write, Read = NotifyPlayerLeft_Read\<rparr>"

section \<open>The contract on a message type\<close>

text \<open>
  body m is what Write appends; ok is the set of messages Read accepts (a string field within
  kMaxStringSize). Reading a body gives the message back; a Read that returns true has consumed
  exactly as many bytes as the body of its result; a Read that returns false leaves the reader
  failed.
\<close>

definition real_type :: "Type \<Rightarrow> bool" where
  "real_type t \<longleftrightarrow> t \<noteq> Type_Invalid \<and> (\<forall>b. t \<noteq> Type_Other b)"

lemma Type_roundtrip: "real_type t \<Longrightarrow> Type_of_u8 (u8_of_Type t) = t"
  by (cases t) (simp_all add: real_type_def Type_of_u8_def)

lemma real_type_bound: "real_type t \<Longrightarrow> \<not> u8_of_Type t > u8_of_Type Type_NotifyPlayerLeft"
  by (cases t) (simp_all add: real_type_def)

lemma u8_bound_real: "\<not> b > u8_of_Type Type_NotifyPlayerLeft \<Longrightarrow> Type_of_u8 b \<noteq> Type_Invalid \<Longrightarrow>
  real_type (Type_of_u8 b) \<and> u8_of_Type (Type_of_u8 b) = b"
proof -
  assume "\<not> b > u8_of_Type Type_NotifyPlayerLeft"
  then have "unat b \<le> 8" by (simp add: word_less_nat_alt not_less)
  then have "unat b \<in> {0,1,2,3,4,5,6,7,8}" by auto
  then have "b \<in> {0,1,2,3,4,5,6,7,8}" by (simp add: word_unat_eq_iff)
  moreover assume "Type_of_u8 b \<noteq> Type_Invalid"
  ultimately show ?thesis by (auto simp: Type_of_u8_def real_type_def)
qed

definition enc_Header :: "Header \<Rightarrow> u8 list" where
  "enc_Header h = enc_U8 (u8_of_Type (hdr_type h)) @ enc_U8 (hdr_flags h) @ enc_U16 (hdr_size h)"

lemma enc_Header_length [simp]: "length (enc_Header h) = 4"
  by (simp add: enc_Header_def)

lemma Header_Write_enc: "Header_Write h b = b @ enc_Header h"
  by (simp add: Header_Write_def enc_Header_def u8_codec.put_enc u16_codec.put_enc)

lemma Header_Read_True:
  "Header_Read (h0, r) = (True, h, r') \<longleftrightarrow>
     real_type (hdr_type h) \<and> h = h0\<lparr>hdr_flags := hdr_flags h, hdr_size := hdr_size h, hdr_type := hdr_type h\<rparr> \<and>
     starts r (enc_Header h) \<and> r' = advance 4 r"
  (is "?L \<longleftrightarrow> ?R")
proof
  assume ?L
  then obtain raw r1 h1 where 1: "Reader_U8 r = (Some raw, r1)"
    and 2: "and_then (into Reader_U8 (\<lambda>v h. h\<lparr>hdr_flags := v\<rparr>))
              (into Reader_U16 (\<lambda>v h. h\<lparr>hdr_size := v\<rparr>)) (h0, r1) = (True, h1, r')"
    and 3: "\<not> raw > u8_of_Type Type_NotifyPlayerLeft" "h = h1\<lparr>hdr_type := Type_of_u8 raw\<rparr>"
      "Type_of_u8 raw \<noteq> Type_Invalid"
    by (auto simp: Header_Read_def Let_def split: prod.splits option.splits bool.splits if_splits)
  from u8_bound_real [OF 3(1,3)] 1 2 3(2) show ?R
    by (auto simp: msg_simps u8_codec.get_iff u16_codec.get_iff enc_Header_def starts_append)
next
  assume R: ?R
  then have s: "starts r (enc_U8 (u8_of_Type (hdr_type h)))"
    "starts (advance 1 r) (enc_U8 (hdr_flags h))" "starts (advance 2 r) (enc_U16 (hdr_size h))"
    by (auto simp: enc_Header_def starts_append numeral_2_eq_2)
  have "hdr_type h \<noteq> Type_Invalid" using R by (simp add: real_type_def)
  with R codec_reads(1) [OF s(1)] codec_reads(1) [OF s(2)] codec_reads(2) [OF s(3)]
    real_type_bound [of "hdr_type h"] Type_roundtrip [of "hdr_type h"]
  show ?L by (simp add: Header_Read_def Let_def and_then_def into_def eval_nat_numeral)
qed

text \<open>What PeekHeader accepts: four bytes, the first of them a known type.\<close>

lemma PeekHeader_True:
  "PeekHeader d h0 = (True, h) \<longleftrightarrow> real_type (hdr_type h) \<and>
     h = h0\<lparr>hdr_flags := hdr_flags h, hdr_size := hdr_size h, hdr_type := hdr_type h\<rparr> \<and>
     (\<exists>rest. d = enc_Header h @ rest)"
proof -
  have "PeekHeader d h0 = (True, h) \<longleftrightarrow> (\<exists>r'. Header_Read (h0, mk_Reader d) = (True, h, r'))"
    by (auto simp: PeekHeader_def split: prod.splits)
  then show ?thesis by (auto simp: Header_Read_True starts_iff)
qed

text \<open>The header Encode writes for a body of n bytes.\<close>

definition header_of :: "'m msg_traits \<Rightarrow> nat \<Rightarrow> Header" where
  "header_of T n = \<lparr>hdr_type = kType T, hdr_flags = kFlags T, hdr_size = word_of_nat n\<rparr>"

lemma header_of_simps [simp]:
  "hdr_type (header_of T n) = kType T" "hdr_flags (header_of T n) = kFlags T"
  "hdr_size (header_of T n) = word_of_nat n"
  by (simp_all add: header_of_def)

lemma patch_size: "([a, b, c, d] @ xs)[2 := x, 3 := y] = [a, b, x, y] @ xs"
  by (simp add: numeral_2_eq_2 numeral_3_eq_3)

locale wire_message =
  fixes T :: "'m msg_traits" and ok :: "'m \<Rightarrow> bool" and body :: "'m \<Rightarrow> u8 list"
  assumes write_body: "Write T m b = b @ body m"
    and type_real: "real_type (kType T)"
    and read_body: "ok m \<Longrightarrow> starts r (body m) \<Longrightarrow> Read T (m0, r) = (True, m, advance (length (body m)) r)"
    and read_True: "Read T (m0, r) = (True, m, r') \<Longrightarrow>
      ok m \<and> \<not> m_failed r \<and> length (body m) \<le> length (Reader_Rest r) \<and> r' = advance (length (body m)) r"
    and read_False: "Read T (m0, r) = (False, m, r') \<Longrightarrow> m_failed r'"
begin

text \<open>The datagram of a message, and when Encode produces it.\<close>

lemma Encode_iff:
  "Encode T m = (if 4 + length (body m) \<le> kMaxDatagram
     then (True, enc_Header (header_of T (length (body m))) @ body m) else (False, []))"
proof -
  let ?n = "length (body m)"
  have hi: "word_of_nat (drop_bit 8 ?n) = (ucast (drop_bit 8 (word_of_nat ?n :: u16)) :: u8)"
    if "?n \<le> 65535"
    using that by (simp add: word_unat_eq_iff unat_of_nat unsigned_drop_bit_eq unsigned_ucast_eq take_bit_eq_mod)
  have lo: "word_of_nat ?n = (ucast (word_of_nat ?n :: u16) :: u8)"
    by (simp add: word_unat_eq_iff unat_of_nat unsigned_ucast_eq take_bit_eq_mod mod_mod_cancel)
  have out: "Write T m (Header_Write \<lparr>hdr_type = kType T, hdr_flags = kFlags T, hdr_size = 0\<rparr> [])
      = [u8_of_Type (kType T), kFlags T, 0, 0] @ body m"
    by (simp add: write_body Header_Write_enc enc_Header_def enc_U8_def enc_U16_def)
  show ?thesis
  proof (cases "4 + ?n \<le> kMaxDatagram")
    case True
    then have "?n \<le> 65535" by (simp add: kMaxDatagram_def)
    then have "([u8_of_Type (kType T), kFlags T, 0, 0] @ body m)
        [2 := word_of_nat ?n, 3 := word_of_nat (drop_bit 8 ?n)] = enc_Header (header_of T ?n) @ body m"
      by (simp add: hi [symmetric] lo [symmetric] patch_size header_of_def enc_Header_def enc_U8_def enc_U16_def)
    with True \<open>?n \<le> 65535\<close> show ?thesis
      by (simp add: Encode_def Let_def out Header_kSize_def del: append_Cons append_Nil)
  next
    case False
    then show ?thesis by (simp add: Encode_def Let_def out)
  qed
qed

lemma Decode_iff:
  "Decode T d m0 = (True, m) \<longleftrightarrow>
     (\<exists>fl rest r'. d = enc_Header \<lparr>hdr_type = kType T, hdr_flags = fl, hdr_size = word_of_nat (length rest)\<rparr> @ rest \<and>
        length rest < 65536 \<and> Read T (m0, advance 4 (mk_Reader d)) = (True, m, r'))"
  (is "?L \<longleftrightarrow> ?R")
proof
  assume ?L
  then obtain h r r' where 1: "Header_Read (Header_default, mk_Reader d) = (True, h, r)"
    and 2: "hdr_type h = kType T" "unat (hdr_size h) = Reader_Remaining r"
    and 3: "Read T (m0, r) = (True, m, r')"
    by (auto simp: Decode_def split: prod.splits if_splits)
  from 1 obtain rest where d: "d = enc_Header h @ rest" and r: "r = advance 4 (mk_Reader d)"
    by (auto simp: Header_Read_True starts_iff)
  with 2(2) have sz: "unat (hdr_size h) = length rest" by (simp add: Remaining_Rest Rest_advance)
  then have "hdr_size h = word_of_nat (length rest)" by (simp flip: sz)
  moreover have "length rest < 65536" using unat_u16_bound [of "hdr_size h"] sz by simp
  ultimately show ?R using d r 2(1) 3
    by (intro exI [of _ "hdr_flags h"] exI [of _ rest] exI [of _ r']) (simp add: enc_Header_def)
next
  assume ?R
  then obtain fl rest r' where
    d: "d = enc_Header \<lparr>hdr_type = kType T, hdr_flags = fl, hdr_size = word_of_nat (length rest)\<rparr> @ rest"
    and n: "length rest < 65536" and rd: "Read T (m0, advance 4 (mk_Reader d)) = (True, m, r')" by auto
  let ?h = "\<lparr>hdr_type = kType T, hdr_flags = fl, hdr_size = word_of_nat (length rest)\<rparr>"
  have "Header_Read (Header_default, mk_Reader d) = (True, ?h, advance 4 (mk_Reader d))"
    by (simp add: Header_Read_True type_real d Header_default_def)
  moreover have "Reader_Remaining (advance 4 (mk_Reader d)) = length rest"
    by (simp add: Remaining_Rest Rest_advance d)
  moreover have "unat (word_of_nat (length rest) :: u16) = length rest"
    using n by (simp add: unat_of_nat)
  moreover have "Reader_Ok r'" using read_True [OF rd] by (simp add: Reader_Ok_def)
  ultimately show ?L using rd by (simp add: Decode_def)
qed

text \<open>Decoding an encoded message gives it back, whatever was in the message decoded into.\<close>

lemma Decode_Encode:
  assumes "ok m" and "Encode T m = (True, d)"
  shows "Decode T d m0 = (True, m)"
proof -
  from assms(2) have n: "4 + length (body m) \<le> kMaxDatagram"
    and d: "d = enc_Header (header_of T (length (body m))) @ body m"
    by (auto simp: Encode_iff split: if_splits)
  have "starts (advance 4 (mk_Reader d)) (body m)"
    using starts_append [of "mk_Reader d" "enc_Header (header_of T (length (body m)))" "body m"]
      starts_mk_Reader [of d "[]"] d by simp
  from read_body [OF assms(1) this] d n show ?thesis
    by (auto simp: Decode_iff header_of_def kMaxDatagram_def intro!: exI [of _ "kFlags T"] exI [of _ "body m"])
qed

text \<open>What a successful Decode says about the datagram.\<close>

lemma Decode_True:
  assumes "Decode T d m0 = (True, m)"
  shows "ok m \<and> 4 + length (body m) \<le> length d \<and> hd d = u8_of_Type (kType T) \<and>
    length d \<le> 65539 \<and> take 2 (drop 2 d) = enc_U16 (word_of_nat (length d - 4))"
proof -
  from assms obtain fl rest r' where
    d: "d = enc_Header \<lparr>hdr_type = kType T, hdr_flags = fl, hdr_size = word_of_nat (length rest)\<rparr> @ rest"
    and n: "length rest < 65536" and rd: "Read T (m0, advance 4 (mk_Reader d)) = (True, m, r')"
    by (auto simp: Decode_iff)
  from read_True [OF rd] have "ok m" "length (body m) \<le> length (Reader_Rest (advance 4 (mk_Reader d)))"
    by auto
  moreover have "Reader_Rest (advance 4 (mk_Reader d)) = rest" by (simp add: Rest_advance d)
  ultimately show ?thesis using n by (simp add: d enc_Header_def enc_U8_def enc_U16_def)
qed

lemma Encode_hd:
  assumes "Encode T m = (True, d)"
  shows "hd d = u8_of_Type (kType T)" and "length d = 4 + length (body m)" and "length d \<le> kMaxDatagram"
    and "take 2 (drop 2 d) = enc_U16 (word_of_nat (length (body m)))"
  using assms by (auto simp: Encode_iff enc_Header_def enc_U8_def enc_U16_def split: if_splits)

text \<open>A datagram cut short or followed by bytes its header does not declare is refused.\<close>

lemma Decode_size_mismatch:
  assumes "take 2 (drop 2 d) = enc_U16 (word_of_nat k)" and "k < 65536" and "length d \<noteq> 4 + k"
  shows "\<not> fst (Decode T d m0)"
proof
  assume "fst (Decode T d m0)"
  then obtain m where "Decode T d m0 = (True, m)" by (metis prod.collapse)
  from Decode_True [OF this] have len: "4 \<le> length d" "length d - 4 < 65536"
    and "take 2 (drop 2 d) = enc_U16 (word_of_nat (length d - 4))" by auto
  with assms(1) have "(word_of_nat k :: u16) = word_of_nat (length d - 4)" by (simp only: enc_U16_inj)
  then have "k = length d - 4" by (rule iffD1 [OF u16_of_nat_inj [OF assms(2) len(2)]])
  with assms(3) len(1) show False by simp
qed

lemma Decode_truncated:
  assumes "Encode T m = (True, d)" and "n < length d"
  shows "\<not> fst (Decode T (take n d) m0)"
proof (cases "4 \<le> n")
  case True
  from Encode_hd [OF assms(1)] have len: "length d = 4 + length (body m)" "length d \<le> kMaxDatagram"
    and sz: "take 2 (drop 2 d) = enc_U16 (word_of_nat (length (body m)))" by auto
  have "take 2 (drop 2 (take n d)) = take 2 (drop 2 d)"
    using True by (simp add: drop_take min_def)
  with sz len assms(2) True show ?thesis
    by (intro Decode_size_mismatch [of _ "length (body m)"]) (simp_all add: kMaxDatagram_def)
next
  case False
  then have "length (take n d) < 4" by simp
  then show ?thesis using Decode_True [of "take n d" m0] by (cases "Decode T (take n d) m0") fastforce
qed

lemma Decode_padded:
  assumes "Encode T m = (True, d)" and "xs \<noteq> []"
  shows "\<not> fst (Decode T (d @ xs) m0)"
proof -
  from Encode_hd [OF assms(1)] have len: "length d = 4 + length (body m)" "length d \<le> kMaxDatagram"
    and sz: "take 2 (drop 2 d) = enc_U16 (word_of_nat (length (body m)))" by auto
  then have "take 2 (drop 2 (d @ xs)) = enc_U16 (word_of_nat (length (body m)))" by simp
  with len assms(2) show ?thesis
    by (intro Decode_size_mismatch [of _ "length (body m)"]) (simp_all add: kMaxDatagram_def)
qed

text \<open>Bytes the header does declare are not refused: nothing checks that Read consumed them.\<close>

lemma Decode_declared_padding:
  assumes "ok m" and "length (body m) + length junk < 65536"
  shows "Decode T (enc_Header (header_of T (length (body m) + length junk)) @ body m @ junk) m0 = (True, m)"
proof -
  let ?d = "enc_Header (header_of T (length (body m) + length junk)) @ body m @ junk"
  have "starts (advance 4 (mk_Reader ?d)) (body m)"
    by (simp add: starts_iff Rest_advance)
  from read_body [OF assms(1) this] assms(2) show ?thesis
    by (auto simp: Decode_iff header_of_def intro!: exI [of _ "kFlags T"] exI [of _ "body m @ junk"])
qed

text \<open>A datagram of another type is refused, and the message is left as it was.\<close>

lemma Decode_other_type:
  assumes "hd d = u8_of_Type t" and "real_type t" and "t \<noteq> kType T"
  shows "\<not> fst (Decode T d m0)"
proof
  assume "fst (Decode T d m0)"
  then obtain m where "Decode T d m0 = (True, m)" by (metis prod.collapse)
  from Decode_True [OF this] assms(1) have "u8_of_Type t = u8_of_Type (kType T)" by simp
  then have "t = kType T" using Type_roundtrip [OF assms(2)] Type_roundtrip [OF type_real] by metis
  with assms(3) show False by simp
qed

text \<open>PeekHeader on an encoded message.\<close>

lemma PeekHeader_Encode:
  assumes "Encode T m = (True, d)"
  shows "PeekHeader d h0 = (True, header_of T (length (body m)))"
  using assms type_real
  by (auto simp: Encode_iff PeekHeader_True header_of_def split: if_splits)

end

text \<open>
  A message type whose Read accepts only the bytes Write produces. HelloAck is not one: any
  nonzero byte reads as accepted.
\<close>

locale exact_message = wire_message T ok body
  for T :: "'m msg_traits" and ok and body +
  assumes read_exact: "Read T (m0, r) = (True, m, r') \<Longrightarrow> starts r (body m)"
begin

lemma Decode_exact:
  assumes "Decode T d m0 = (True, m)"
  shows "take (length (body m)) (drop 4 d) = body m"
proof -
  from assms obtain r' where rd: "Read T (m0, advance 4 (mk_Reader d)) = (True, m, r')"
    by (auto simp: Decode_iff)
  from read_exact [OF this] show ?thesis by (simp add: starts_def Rest_advance)
qed

end

section \<open>The eight messages satisfy the contract\<close>

definition name_ok :: "string \<Rightarrow> bool" where
  "name_ok s \<longleftrightarrow> length s \<le> 256"

lemma str_ok_name [simp]: "str_ok kMaxStringSize s = name_ok s"
  by (simp add: str_ok_def name_ok_def kMaxStringSize_def)

definition body_Vec3 :: "Vec3 \<Rightarrow> u8 list" where
  "body_Vec3 p = enc_U32 (vx p) @ enc_U32 (vy p) @ enc_U32 (vz p)"

definition body_Hello :: "Hello \<Rightarrow> u8 list" where
  "body_Hello m = enc_U32 (hello_version m) @ enc_Str (hello_username m)"

definition body_HelloAck :: "HelloAck \<Rightarrow> u8 list" where
  "body_HelloAck m =
     enc_U8 (if ack_accepted m then 1 else 0) @ enc_U32 (ack_version m) @ enc_Str (ack_reason m)"

definition body_Ping :: "Ping \<Rightarrow> u8 list" where
  "body_Ping m = enc_U64 (ping_sentAt m)"

definition body_Pong :: "Pong \<Rightarrow> u8 list" where
  "body_Pong m = enc_U64 (pong_sentAt m)"

definition body_PlayerState :: "PlayerState \<Rightarrow> u8 list" where
  "body_PlayerState m = enc_U64 (ps_tick m) @ body_Vec3 (ps_position m) @ enc_U32 (ps_rotation m)"

definition body_NotifyPlayerState :: "NotifyPlayerState \<Rightarrow> u8 list" where
  "body_NotifyPlayerState m =
     enc_U32 (nps_playerId m) @ enc_U64 (nps_tick m) @ body_Vec3 (nps_position m) @ enc_U32 (nps_rotation m)"

definition body_NotifyPlayerJoined :: "NotifyPlayerJoined \<Rightarrow> u8 list" where
  "body_NotifyPlayerJoined m = enc_U32 (npj_playerId m) @ enc_Str (npj_username m)"

definition body_NotifyPlayerLeft :: "NotifyPlayerLeft \<Rightarrow> u8 list" where
  "body_NotifyPlayerLeft m = enc_U32 (npl_playerId m)"

lemmas body_defs =
  body_Vec3_def body_Hello_def body_HelloAck_def body_Ping_def body_Pong_def body_PlayerState_def
  body_NotifyPlayerState_def body_NotifyPlayerJoined_def body_NotifyPlayerLeft_def

lemma body_length [simp]:
  "length (body_Vec3 p) = 12" "length (body_Hello a) = 6 + length (hello_username a)"
  "length (body_HelloAck b) = 7 + length (ack_reason b)" "length (body_Ping c) = 8"
  "length (body_Pong d) = 8" "length (body_PlayerState e) = 24" "length (body_NotifyPlayerState f) = 28"
  "length (body_NotifyPlayerJoined g) = 6 + length (npj_username g)" "length (body_NotifyPlayerLeft h) = 4"
  by (simp_all add: body_defs)

lemmas Read_defs =
  Hello_Read_def PlayerState_Read_def Ping_Read_def Pong_Read_def NotifyPlayerState_Read_def
  NotifyPlayerJoined_Read_def NotifyPlayerLeft_Read_def

lemmas Write_defs =
  Vec3_Write_def Hello_Write_def HelloAck_Write_def Ping_Write_def Pong_Write_def PlayerState_Write_def
  NotifyPlayerState_Write_def NotifyPlayerJoined_Write_def NotifyPlayerLeft_Write_def

lemmas traits_defs =
  Hello_T_def HelloAck_T_def Ping_T_def Pong_T_def PlayerState_T_def NotifyPlayerState_T_def
  NotifyPlayerJoined_T_def NotifyPlayerLeft_T_def

text \<open>Reading a position: what it accepts and where it stops.\<close>

lemma Vec3_Read_iff:
  "Vec3_Read (p0, r) = (True, p, r') \<longleftrightarrow> starts r (body_Vec3 p) \<and> r' = advance 12 r"
  by (cases p; cases p0)
    (auto simp: Vec3_Read_def msg_simps codec_iffs body_Vec3_def starts_append)

lemma Vec3_Read_False: "Vec3_Read (p0, r) = (False, p, r') \<Longrightarrow> m_failed r'"
  by (auto simp: Vec3_Read_def msg_simps dest: codec_fails)

text \<open>
  A message whose Read is a chain of fields accepts exactly the encodings of its acceptable
  values; that is all the contract asks of it.
\<close>

lemma exact_messageI:
  assumes w: "\<And>m b. Write T m b = b @ body m"
    and t: "real_type (kType T)"
    and iff: "\<And>m0 r m r'. Read T (m0, r) = (True, m, r') \<longleftrightarrow>
      ok m \<and> starts r (body m) \<and> r' = advance (length (body m)) r"
    and fl: "\<And>m0 r m r'. Read T (m0, r) = (False, m, r') \<Longrightarrow> m_failed r'"
  shows "exact_message T ok body"
  by unfold_locales (auto simp: w t iff starts_length dest: starts_not_failed fl)

interpretation hello: exact_message Hello_T "\<lambda>m. name_ok (hello_username m)" body_Hello
proof (rule exact_messageI)
  show "Read Hello_T (m0, r) = (True, m, r') \<longleftrightarrow>
      name_ok (hello_username m) \<and> starts r (body_Hello m) \<and> r' = advance (length (body_Hello m)) r"
    for m0 r m r'
    by (cases m; cases m0) (auto simp: traits_defs Read_defs msg_simps codec_iffs body_defs starts_append add.commute)
qed (auto simp: traits_defs Write_defs Read_defs body_defs codec_puts real_type_def msg_simps dest: codec_fails)

interpretation ping: exact_message Ping_T "\<lambda>_. True" body_Ping
proof (rule exact_messageI)
  show "Read Ping_T (m0, r) = (True, m, r') \<longleftrightarrow>
      True \<and> starts r (body_Ping m) \<and> r' = advance (length (body_Ping m)) r" for m0 r m r'
    by (cases m; cases m0) (auto simp: traits_defs Read_defs msg_simps codec_iffs body_defs)
qed (auto simp: traits_defs Write_defs Read_defs body_defs codec_puts real_type_def msg_simps dest: codec_fails)

interpretation pong: exact_message Pong_T "\<lambda>_. True" body_Pong
proof (rule exact_messageI)
  show "Read Pong_T (m0, r) = (True, m, r') \<longleftrightarrow>
      True \<and> starts r (body_Pong m) \<and> r' = advance (length (body_Pong m)) r" for m0 r m r'
    by (cases m; cases m0) (auto simp: traits_defs Read_defs msg_simps codec_iffs body_defs)
qed (auto simp: traits_defs Write_defs Read_defs body_defs codec_puts real_type_def msg_simps dest: codec_fails)

interpretation player_state: exact_message PlayerState_T "\<lambda>_. True" body_PlayerState
proof (rule exact_messageI)
  show "Read PlayerState_T (m0, r) = (True, m, r') \<longleftrightarrow>
      True \<and> starts r (body_PlayerState m) \<and> r' = advance (length (body_PlayerState m)) r" for m0 r m r'
    by (cases m; cases m0)
      (auto simp: traits_defs Read_defs msg_simps codec_iffs Vec3_Read_iff body_PlayerState_def starts_append)
qed (auto simp: traits_defs Write_defs Read_defs body_defs codec_puts real_type_def msg_simps
     dest: codec_fails Vec3_Read_False)

interpretation notify_state: exact_message NotifyPlayerState_T "\<lambda>_. True" body_NotifyPlayerState
proof (rule exact_messageI)
  show "Read NotifyPlayerState_T (m0, r) = (True, m, r') \<longleftrightarrow>
      True \<and> starts r (body_NotifyPlayerState m) \<and> r' = advance (length (body_NotifyPlayerState m)) r"
    for m0 r m r'
    by (cases m; cases m0)
      (auto simp: traits_defs Read_defs msg_simps codec_iffs Vec3_Read_iff body_NotifyPlayerState_def starts_append)
qed (auto simp: traits_defs Write_defs Read_defs body_defs codec_puts real_type_def msg_simps
     dest: codec_fails Vec3_Read_False)

interpretation notify_joined: exact_message NotifyPlayerJoined_T "\<lambda>m. name_ok (npj_username m)"
  body_NotifyPlayerJoined
proof (rule exact_messageI)
  show "Read NotifyPlayerJoined_T (m0, r) = (True, m, r') \<longleftrightarrow>
      name_ok (npj_username m) \<and> starts r (body_NotifyPlayerJoined m) \<and>
      r' = advance (length (body_NotifyPlayerJoined m)) r" for m0 r m r'
    by (cases m; cases m0) (auto simp: traits_defs Read_defs msg_simps codec_iffs body_defs starts_append add.commute)
qed (auto simp: traits_defs Write_defs Read_defs body_defs codec_puts real_type_def msg_simps dest: codec_fails)

interpretation notify_left: exact_message NotifyPlayerLeft_T "\<lambda>_. True" body_NotifyPlayerLeft
proof (rule exact_messageI)
  show "Read NotifyPlayerLeft_T (m0, r) = (True, m, r') \<longleftrightarrow>
      True \<and> starts r (body_NotifyPlayerLeft m) \<and> r' = advance (length (body_NotifyPlayerLeft m)) r"
    for m0 r m r'
    by (cases m; cases m0) (auto simp: traits_defs Read_defs msg_simps codec_iffs body_defs)
qed (auto simp: traits_defs Write_defs Read_defs body_defs codec_puts real_type_def msg_simps dest: codec_fails)

text \<open>HelloAck reads any nonzero byte as accepted.\<close>

lemma HelloAck_Read_True:
  "HelloAck_Read (m0, r) = (True, m, r') \<longleftrightarrow>
     (\<exists>raw. ack_accepted m = (raw \<noteq> 0) \<and> name_ok (ack_reason m) \<and>
        starts r (enc_U8 raw @ enc_U32 (ack_version m) @ enc_Str (ack_reason m)) \<and>
        r' = advance (length (body_HelloAck m)) r)"
  (is "?L \<longleftrightarrow> ?R")
proof
  assume ?L
  then obtain raw r1 m1 where 1: "Reader_U8 r = (Some raw, r1)"
    and 2: "and_then (into Reader_U32 (\<lambda>v m. m\<lparr>ack_version := v\<rparr>))
              (into (Reader_Str kMaxStringSize) (\<lambda>v m. m\<lparr>ack_reason := v\<rparr>)) (m0, r1) = (True, m1, r')"
    and 3: "m = m1\<lparr>ack_accepted := (raw \<noteq> 0)\<rparr>"
    by (auto simp: HelloAck_Read_def split: prod.splits option.splits bool.splits)
  then show ?R
    by (intro exI [of _ raw])
      (auto simp: msg_simps codec_iffs starts_append body_HelloAck_def add.commute)
next
  assume ?R
  then obtain raw where acc: "ack_accepted m = (raw \<noteq> 0)" and ok: "str_ok kMaxStringSize (ack_reason m)"
    and r': "r' = advance (length (body_HelloAck m)) r"
    and s: "starts r (enc_U8 raw)" "starts (advance 1 r) (enc_U32 (ack_version m))"
      "starts (advance 5 r) (enc_Str (ack_reason m))"
    by (auto simp: starts_append)
  from codec_reads(1) [OF s(1)] codec_reads(3) [OF s(2)] codec_reads(6) [OF s(3) ok] acc r'
  show ?L
    by (cases m; cases m0) (simp add: HelloAck_Read_def and_then_def into_def add.commute)
qed

interpretation hello_ack: wire_message HelloAck_T "\<lambda>m. name_ok (ack_reason m)" body_HelloAck
proof unfold_locales
  fix m m0 :: HelloAck and r r' :: Reader and b :: buffer
  show "Write HelloAck_T m b = b @ body_HelloAck m"
    by (simp add: traits_defs Write_defs body_defs codec_puts)
  show "real_type (kType HelloAck_T)" by (simp add: traits_defs real_type_def)
  show "name_ok (ack_reason m) \<Longrightarrow> starts r (body_HelloAck m) \<Longrightarrow>
      Read HelloAck_T (m0, r) = (True, m, advance (length (body_HelloAck m)) r)"
    by (simp add: traits_defs HelloAck_Read_True body_HelloAck_def)
      (rule exI [of _ "if ack_accepted m then 1 else 0"], simp)
  show "Read HelloAck_T (m0, r) = (True, m, r') \<Longrightarrow>
      name_ok (ack_reason m) \<and> \<not> m_failed r \<and> length (body_HelloAck m) \<le> length (Reader_Rest r) \<and>
      r' = advance (length (body_HelloAck m)) r"
    by (auto simp: traits_defs HelloAck_Read_True dest!: starts_bounds)
  show "Read HelloAck_T (m0, r) = (False, m, r') \<Longrightarrow> m_failed r'"
    by (auto simp: traits_defs HelloAck_Read_def msg_simps split: prod.splits option.splits bool.splits
        dest: codec_fails)
qed

section \<open>Any message\<close>

text \<open>
  The program decodes by a switch on the type of the header, with one message type per case. message
  is the sum of the eight; Decode_as t is the call of Decode in the case of t, on a message as it is
  declared there.
\<close>

datatype message =
    M_Hello Hello | M_HelloAck HelloAck | M_Ping Ping | M_Pong Pong | M_PlayerState PlayerState
  | M_NotifyPlayerState NotifyPlayerState | M_NotifyPlayerJoined NotifyPlayerJoined
  | M_NotifyPlayerLeft NotifyPlayerLeft

fun type_of :: "message \<Rightarrow> Type" where
  "type_of (M_Hello _) = Type_Hello"
| "type_of (M_HelloAck _) = Type_HelloAck"
| "type_of (M_Ping _) = Type_Ping"
| "type_of (M_Pong _) = Type_Pong"
| "type_of (M_PlayerState _) = Type_PlayerState"
| "type_of (M_NotifyPlayerState _) = Type_NotifyPlayerState"
| "type_of (M_NotifyPlayerJoined _) = Type_NotifyPlayerJoined"
| "type_of (M_NotifyPlayerLeft _) = Type_NotifyPlayerLeft"

fun Encode_message :: "message \<Rightarrow> bool \<times> buffer" where
  "Encode_message (M_Hello m) = Encode Hello_T m"
| "Encode_message (M_HelloAck m) = Encode HelloAck_T m"
| "Encode_message (M_Ping m) = Encode Ping_T m"
| "Encode_message (M_Pong m) = Encode Pong_T m"
| "Encode_message (M_PlayerState m) = Encode PlayerState_T m"
| "Encode_message (M_NotifyPlayerState m) = Encode NotifyPlayerState_T m"
| "Encode_message (M_NotifyPlayerJoined m) = Encode NotifyPlayerJoined_T m"
| "Encode_message (M_NotifyPlayerLeft m) = Encode NotifyPlayerLeft_T m"

definition decoded :: "('m \<Rightarrow> message) \<Rightarrow> bool \<times> 'm \<Rightarrow> message option" where
  "decoded f x = (case x of (ok, m) \<Rightarrow> if ok then Some (f m) else None)"

definition Decode_as :: "Type \<Rightarrow> u8 list \<Rightarrow> message option" where
  "Decode_as t d =
     (case t of
        Type_Hello \<Rightarrow> decoded M_Hello (Decode Hello_T d Hello_default)
      | Type_HelloAck \<Rightarrow> decoded M_HelloAck (Decode HelloAck_T d HelloAck_default)
      | Type_Ping \<Rightarrow> decoded M_Ping (Decode Ping_T d Ping_default)
      | Type_Pong \<Rightarrow> decoded M_Pong (Decode Pong_T d Pong_default)
      | Type_PlayerState \<Rightarrow> decoded M_PlayerState (Decode PlayerState_T d PlayerState_default)
      | Type_NotifyPlayerState \<Rightarrow>
          decoded M_NotifyPlayerState (Decode NotifyPlayerState_T d NotifyPlayerState_default)
      | Type_NotifyPlayerJoined \<Rightarrow>
          decoded M_NotifyPlayerJoined (Decode NotifyPlayerJoined_T d NotifyPlayerJoined_default)
      | Type_NotifyPlayerLeft \<Rightarrow>
          decoded M_NotifyPlayerLeft (Decode NotifyPlayerLeft_T d NotifyPlayerLeft_default)
      | _ \<Rightarrow> None)"

text \<open>The string field of a message, if it has one.\<close>

fun text_of :: "message \<Rightarrow> string" where
  "text_of (M_Hello m) = hello_username m"
| "text_of (M_HelloAck m) = ack_reason m"
| "text_of (M_NotifyPlayerJoined m) = npj_username m"
| "text_of _ = []"

definition message_ok :: "message \<Rightarrow> bool" where
  "message_ok m \<longleftrightarrow> name_ok (text_of m)"

fun body_of :: "message \<Rightarrow> u8 list" where
  "body_of (M_Hello m) = body_Hello m"
| "body_of (M_HelloAck m) = body_HelloAck m"
| "body_of (M_Ping m) = body_Ping m"
| "body_of (M_Pong m) = body_Pong m"
| "body_of (M_PlayerState m) = body_PlayerState m"
| "body_of (M_NotifyPlayerState m) = body_NotifyPlayerState m"
| "body_of (M_NotifyPlayerJoined m) = body_NotifyPlayerJoined m"
| "body_of (M_NotifyPlayerLeft m) = body_NotifyPlayerLeft m"

lemma kTypes [simp]:
  "kType Hello_T = Type_Hello" "kType HelloAck_T = Type_HelloAck" "kType Ping_T = Type_Ping"
  "kType Pong_T = Type_Pong" "kType PlayerState_T = Type_PlayerState"
  "kType NotifyPlayerState_T = Type_NotifyPlayerState" "kType NotifyPlayerJoined_T = Type_NotifyPlayerJoined"
  "kType NotifyPlayerLeft_T = Type_NotifyPlayerLeft"
  by (simp_all add: traits_defs)

lemma kFlags_simps [simp]:
  "kFlags Hello_T = Flags_Reliable" "kFlags HelloAck_T = Flags_Reliable" "kFlags Ping_T = Flags_None"
  "kFlags Pong_T = Flags_None" "kFlags PlayerState_T = Flags_None"
  "kFlags NotifyPlayerState_T = Flags_None" "kFlags NotifyPlayerJoined_T = Flags_Reliable"
  "kFlags NotifyPlayerLeft_T = Flags_Reliable"
  by (simp_all add: traits_defs)

lemma Read_HelloAck: "Read HelloAck_T = HelloAck_Read"
  by (simp add: traits_defs)

lemma type_of_real: "real_type (type_of m)"
  by (cases m) (simp_all add: real_type_def)

lemmas Encode_iffs =
  hello.Encode_iff hello_ack.Encode_iff ping.Encode_iff pong.Encode_iff player_state.Encode_iff
  notify_state.Encode_iff notify_joined.Encode_iff notify_left.Encode_iff

lemmas Decode_Encodes =
  hello.Decode_Encode hello_ack.Decode_Encode ping.Decode_Encode [OF TrueI] pong.Decode_Encode [OF TrueI]
  player_state.Decode_Encode [OF TrueI] notify_state.Decode_Encode [OF TrueI] notify_joined.Decode_Encode
  notify_left.Decode_Encode [OF TrueI]

lemmas Decode_other_types =
  hello.Decode_other_type hello_ack.Decode_other_type ping.Decode_other_type pong.Decode_other_type
  player_state.Decode_other_type notify_state.Decode_other_type notify_joined.Decode_other_type
  notify_left.Decode_other_type

lemmas Decode_truncateds =
  hello.Decode_truncated hello_ack.Decode_truncated ping.Decode_truncated pong.Decode_truncated
  player_state.Decode_truncated notify_state.Decode_truncated notify_joined.Decode_truncated
  notify_left.Decode_truncated

lemmas Decode_paddeds =
  hello.Decode_padded hello_ack.Decode_padded ping.Decode_padded pong.Decode_padded
  player_state.Decode_padded notify_state.Decode_padded notify_joined.Decode_padded
  notify_left.Decode_padded

lemmas Decode_Trues =
  hello.Decode_True hello_ack.Decode_True ping.Decode_True pong.Decode_True
  player_state.Decode_True notify_state.Decode_True notify_joined.Decode_True
  notify_left.Decode_True

lemmas Decode_declared_paddings =
  hello.Decode_declared_padding hello_ack.Decode_declared_padding ping.Decode_declared_padding
  pong.Decode_declared_padding player_state.Decode_declared_padding notify_state.Decode_declared_padding
  notify_joined.Decode_declared_padding notify_left.Decode_declared_padding

lemma Encode_message_hd: "Encode_message m = (True, d) \<Longrightarrow> hd d = u8_of_Type (type_of m)"
  by (cases m) (auto simp: Encode_iffs enc_Header_def enc_U8_def split: if_splits)

lemma decoded_None [simp]: "decoded f x = None \<longleftrightarrow> \<not> fst x"
  by (auto simp: decoded_def split: prod.splits)

lemma decoded_Some: "decoded f x = Some y \<longleftrightarrow> fst x \<and> y = f (snd x)"
  by (auto simp: decoded_def split: prod.splits)

lemma Decode_as_type: "Decode_as t d = Some m \<Longrightarrow> type_of m = t"
  by (cases t) (auto simp: Decode_as_def decoded_Some)

lemma Decode_as_other:
  assumes "hd d = u8_of_Type t'" and "real_type t'" and "t' \<noteq> t"
  shows "Decode_as t d = None"
  using assms(3) by (cases t) (simp_all add: Decode_as_def Decode_other_types [OF assms(1,2)])

lemma Decode_as_Encode:
  "message_ok m \<Longrightarrow> Encode_message m = (True, d) \<Longrightarrow> Decode_as (type_of m) d = Some m"
  by (cases m) (simp_all add: Decode_as_def decoded_def message_ok_def Decode_Encodes)

lemma Decode_as_ok: "Decode_as t d = Some m \<Longrightarrow> message_ok m"
  by (cases t) (auto simp: Decode_as_def decoded_def message_ok_def dest: Decode_Trues
      split: prod.splits if_splits, simp_all add: name_ok_def)

text \<open>The header of a message, and the longest string it can be sent with.\<close>

fun flags_of :: "message \<Rightarrow> u8" where
  "flags_of (M_Ping _) = Flags_None"
| "flags_of (M_Pong _) = Flags_None"
| "flags_of (M_PlayerState _) = Flags_None"
| "flags_of (M_NotifyPlayerState _) = Flags_None"
| "flags_of _ = Flags_Reliable"

definition header_for :: "message \<Rightarrow> Header" where
  "header_for m = \<lparr>hdr_type = type_of m, hdr_flags = flags_of m, hdr_size = word_of_nat (length (body_of m))\<rparr>"

definition text_limit :: "message \<Rightarrow> nat" where
  "text_limit m = (case m of M_HelloAck _ \<Rightarrow> 1189 | _ \<Rightarrow> 1190)"

lemma Encode_message_eq:
  "Encode_message m =
     (if length (text_of m) \<le> text_limit m then (True, enc_Header (header_for m) @ body_of m) else (False, []))"
  by (cases m) (auto simp: Encode_iffs text_limit_def kMaxDatagram_def header_for_def header_of_def)

text \<open>Two encodings of strings behind as many bytes: the lengths agree.\<close>

lemma enc_Str_lengths:
  assumes "xs @ enc_Str s @ as = ys @ enc_Str s' @ bs" and "length xs = length ys"
    and "length s < 65536" and "length s' < 65536"
  shows "length s = length s'"
proof -
  from assms(1,2) have "enc_U16 (word_of_nat (length s)) @ map byte_of_char s @ as =
      enc_U16 (word_of_nat (length s')) @ map byte_of_char s' @ bs"
    by (simp add: enc_Str_def)
  then have "(word_of_nat (length s) :: u16) = word_of_nat (length s')"
    using u16_codec.enc_prefix_unique by blast
  then show ?thesis by (rule iffD1 [OF u16_of_nat_inj [OF assms(3,4)]])
qed

lemma long_text_not_decoded:
  assumes "256 < length (text_of m)" and "Encode_message m = (True, d)"
  shows "Decode_as (type_of m) d = None"
proof (rule ccontr)
  assume "Decode_as (type_of m) d \<noteq> None"
  then obtain m' where m': "Decode_as (type_of m) d = Some m'" by auto
  from assms(2) have d: "d = enc_Header (header_for m) @ body_of m" and lim: "length (text_of m) \<le> text_limit m"
    by (auto simp: Encode_message_eq split: if_splits)
  from lim have small: "length (text_of m) < 65536" by (cases m) (simp_all add: text_limit_def)
  from Decode_as_ok [OF m'] have ok: "length (text_of m') \<le> 256" by (simp add: message_ok_def name_ok_def)
  have "\<exists>xs ys as. xs @ enc_Str (text_of m') @ as = ys @ enc_Str (text_of m) @ [] \<and> length xs = length ys"
  proof (cases m)
    case (M_Hello h)
    with m' obtain h' where h': "m' = M_Hello h'" "Decode Hello_T d Hello_default = (True, h')"
      by (auto simp: Decode_as_def decoded_Some prod_eq_iff)
    from hello.Decode_exact [OF h'(2)] obtain as where "body_Hello h = body_Hello h' @ as"
      by (metis append_take_drop_id append_eq_conv_conj body_of.simps(1) M_Hello d enc_Header_length)
    with M_Hello h' show ?thesis
      by (intro exI [of _ "enc_U32 (hello_version h')"] exI [of _ "enc_U32 (hello_version h)"] exI [of _ as])
        (simp add: body_Hello_def)
  next
    case (M_HelloAck h)
    with m' obtain h' where h': "m' = M_HelloAck h'" "Decode HelloAck_T d HelloAck_default = (True, h')"
      by (auto simp: Decode_as_def decoded_Some prod_eq_iff)
    then obtain r' where "HelloAck_Read (HelloAck_default, advance 4 (mk_Reader d)) = (True, h', r')"
      by (auto simp: hello_ack.Decode_iff Read_HelloAck)
    then obtain raw as where "body_HelloAck h = (enc_U8 raw @ enc_U32 (ack_version h') @ enc_Str (ack_reason h')) @ as"
      by (auto simp: HelloAck_Read_True starts_iff Rest_advance d M_HelloAck)
    with M_HelloAck h' show ?thesis
      by (intro exI [of _ "enc_U8 raw @ enc_U32 (ack_version h')"]
          exI [of _ "enc_U8 (if ack_accepted h then 1 else 0) @ enc_U32 (ack_version h)"] exI [of _ as])
        (simp add: body_HelloAck_def)
  next
    case (M_NotifyPlayerJoined h)
    with m' obtain h' where h': "m' = M_NotifyPlayerJoined h'"
      "Decode NotifyPlayerJoined_T d NotifyPlayerJoined_default = (True, h')"
      by (auto simp: Decode_as_def decoded_Some prod_eq_iff)
    from notify_joined.Decode_exact [OF h'(2)] obtain as
      where "body_NotifyPlayerJoined h = body_NotifyPlayerJoined h' @ as"
      by (metis append_take_drop_id append_eq_conv_conj body_of.simps(7) M_NotifyPlayerJoined d enc_Header_length)
    with M_NotifyPlayerJoined h' show ?thesis
      by (intro exI [of _ "enc_U32 (npj_playerId h')"] exI [of _ "enc_U32 (npj_playerId h)"] exI [of _ as])
        (simp add: body_NotifyPlayerJoined_def)
  qed (use assms(1) in simp_all)
  then obtain xs ys as where "xs @ enc_Str (text_of m') @ as = ys @ enc_Str (text_of m) @ []"
    and "length xs = length ys" by blast
  moreover have "length (text_of m') < 65536" using ok by simp
  ultimately have "length (text_of m') = length (text_of m)" using small by (rule enc_Str_lengths)
  with ok assms(1) show False by simp
qed

text \<open>The two bytes of the size, as a number.\<close>

lemma declared_size:
  assumes "take 2 (drop 2 d) = enc_U16 (word_of_nat n)" and "n < 2 ^ 16"
  shows "unat (d ! 2) + 256 * unat (d ! 3) = n"
proof -
  let ?w = "word_of_nat n :: u16"
  have e: "take 2 (drop 2 d) = [ucast ?w, ucast (drop_bit 8 ?w)]" using assms(1) by (simp add: enc_U16_def)
  have l: "4 \<le> length d" using arg_cong [OF e, of length] by (simp add: min_def split: if_splits)
  have c: "d ! 2 = ucast ?w" "d ! 3 = ucast (drop_bit 8 ?w)"
    using arg_cong [OF e, of "\<lambda>xs. xs ! 0"] arg_cong [OF e, of "\<lambda>xs. xs ! 1"] l by simp_all
  have w: "unat ?w = n" using assms(2) by (simp add: unsigned_of_nat take_bit_eq_mod)
  have "unat (d ! 2) = n mod 256" unfolding c by (simp add: unsigned_ucast_eq w take_bit_eq_mod)
  moreover have "unat (drop_bit 8 ?w) = drop_bit 8 n" using assms(2) by (simp add: unsigned_drop_bit_eq w take_bit_nat_eq_self)
  then have "unat (d ! 3) = n div 256"
    unfolding c using assms(2) by (simp add: unsigned_ucast_eq take_bit_eq_mod) (simp add: drop_bit_eq_div)
  ultimately show ?thesis by simp
qed
section \<open>Properties\<close>

text \<open>
  C1: Every message whose string fits kMaxStringSize, once encoded, decodes to itself at the case of
  its own type, and is refused at the case of every other type.
\<close>

theorem message_roundtrip:
  assumes "message_ok m" and "Encode_message m = (True, d)"
  shows "Decode_as t d = (if t = type_of m then Some m else None)"
  using Decode_as_Encode [OF assms] Decode_as_other [OF Encode_message_hd [OF assms(2)] type_of_real]
  by auto

theorem message_roundtrip_witness:
  "let m = M_NotifyPlayerJoined \<lparr>npj_playerId = 3, npj_username = ''V''\<rparr>;
       d = snd (Encode_message m)
   in Decode_as Type_NotifyPlayerJoined d = Some m \<and> Decode_as Type_Hello d = None"
proof -
  let ?m = "M_NotifyPlayerJoined \<lparr>npj_playerId = 3, npj_username = ''V''\<rparr>"
  have "Encode_message ?m = (True, snd (Encode_message ?m))"
    by (simp add: notify_joined.Encode_iff kMaxDatagram_def)
  from message_roundtrip [OF _ this] show ?thesis
    by (simp add: message_ok_def name_ok_def Let_def)
qed

text \<open>
  C30: A datagram that was cut short, or that carries bytes behind the body its header declares, is
  refused whatever type it is decoded as. This is checked on every prefix of every encoded message.
\<close>

theorem damaged_refused:
  assumes "Encode_message m = (True, d)" and "n < length d" and "junk \<noteq> []"
  shows "Decode_as t (take n d) = None \<and> Decode_as t (d @ junk) = None"
proof
  show "Decode_as t (take n d) = None"
  proof (cases "n = 0")
    case True
    have "Decode_as t [] = None"
      by (cases t) (auto simp: Decode_as_def decoded_def dest: Decode_Trues split: prod.splits)
    with True show ?thesis by simp
  next
    case False
    show ?thesis
    proof (cases "t = type_of m")
      case True
      with assms(1,2) show ?thesis by (cases m) (simp_all add: Decode_as_def Decode_truncateds)
    next
      case False
      from \<open>n \<noteq> 0\<close> assms(2) have "hd (take n d) = hd d" by simp
      with Encode_message_hd [OF assms(1)] type_of_real [of m] False show ?thesis
        by (intro Decode_as_other [of _ "type_of m"]) auto
    qed
  qed
  show "Decode_as t (d @ junk) = None"
  proof (cases "t = type_of m")
    case True
    with assms(1,3) show ?thesis by (cases m) (simp_all add: Decode_as_def Decode_paddeds)
  next
    case False
    from assms(2) have "hd (d @ junk) = hd d" by (cases d) auto
    with Encode_message_hd [OF assms(1)] type_of_real [of m] False show ?thesis
      by (intro Decode_as_other [of _ "type_of m"]) auto
  qed
qed

theorem damaged_refused_witness:
  "Decode_as Type_Ping (take 5 (snd (Encode Ping_T \<lparr>ping_sentAt = 77\<rparr>))) = None \<and>
   Decode_as Type_Ping (snd (Encode Ping_T \<lparr>ping_sentAt = 77\<rparr>) @ [0]) = None"
  using damaged_refused [of "M_Ping \<lparr>ping_sentAt = 77\<rparr>" "snd (Encode Ping_T \<lparr>ping_sentAt = 77\<rparr>)" 5 "[0]" Type_Ping]
  by (simp add: ping.Encode_iff kMaxDatagram_def)

text \<open>
  The exact bytes of every datagram: type, flags, the size of the body in two bytes, then the
  fields of the body little-endian in declaration order, a string behind its 16-bit length. Encode
  fails, and clears the output, exactly when that is over kMaxDatagram, which only a string can
  cause: over 1190 characters, or 1189 in HelloAck. PeekHeader on the datagram gives its header.
\<close>

theorem Encode_layout:
  "Encode_message m =
     (if length (text_of m) \<le> text_limit m then (True, enc_Header (header_for m) @ body_of m) else (False, [])) \<and>
   (length (text_of m) \<le> text_limit m) = (Header_kSize + length (body_of m) \<le> kMaxDatagram) \<and>
   PeekHeader (enc_Header (header_for m) @ body_of m) h0 = (True, header_for m)"
proof (intro conjI)
  show "(length (text_of m) \<le> text_limit m) = (Header_kSize + length (body_of m) \<le> kMaxDatagram)"
    by (cases m) (simp_all add: text_limit_def Header_kSize_def kMaxDatagram_def)
  show "PeekHeader (enc_Header (header_for m) @ body_of m) h0 = (True, header_for m)"
    using type_of_real by (simp add: PeekHeader_True header_for_def)
qed (rule Encode_message_eq)

text \<open>
  C31: Any bytes that decode as some message satisfy: the first byte is its type, the two bytes of the
  size, read as a number, are exactly how many bytes follow the header, the body is at least as long as
  what the message needs, and its string is within kMaxStringSize.
\<close>

theorem Decode_sound:
  assumes "Decode_as t d = Some m"
  shows "type_of m = t \<and> message_ok m \<and> hd d = u8_of_Type t \<and>
    Header_kSize + length (body_of m) \<le> length d \<and>
    unat (d ! 2) + 256 * unat (d ! 3) + Header_kSize = length d"
proof -
  have "hd d = u8_of_Type t \<and> Header_kSize + length (body_of m) \<le> length d \<and> length d - 4 < 2 ^ 16 \<and>
      take 2 (drop 2 d) = enc_U16 (word_of_nat (length d - 4))"
    using assms by (cases t)
      (auto simp: Decode_as_def decoded_def Header_kSize_def dest!: Decode_Trues split: prod.splits if_splits)
  with Decode_as_type [OF assms] Decode_as_ok [OF assms] declared_size [of d "length d - 4"] show ?thesis
    by (simp add: Header_kSize_def)
qed

theorem Decode_sound_witness:
  "let m = M_Pong \<lparr>pong_sentAt = 5\<rparr>; d = snd (Encode_message m)
   in Header_kSize + length (body_of m) \<le> length d \<and> hd d = u8_of_Type Type_Pong \<and>
      unat (d ! 2) + 256 * unat (d ! 3) + Header_kSize = length d"
proof -
  let ?m = "M_Pong \<lparr>pong_sentAt = 5\<rparr>"
  have "Encode_message ?m = (True, snd (Encode_message ?m))" by (simp add: pong.Encode_iff kMaxDatagram_def)
  then have "Decode_as Type_Pong (snd (Encode_message ?m)) = Some ?m"
    using Decode_as_Encode [of ?m] by (simp add: message_ok_def name_ok_def)
  from Decode_sound [OF this] show ?thesis by (simp add: Let_def)
qed

text \<open>
  A string between the two limits is lost: the message is encoded and sent, and refused on
  arrival at every case.
\<close>

theorem long_text_lost:
  assumes "256 < length (text_of m)" and "length (text_of m) \<le> 1189"
  shows "\<exists>d. Encode_message m = (True, d) \<and> (\<forall>t. Decode_as t d = None)"
proof -
  from assms(2) have "length (text_of m) \<le> text_limit m" by (cases m) (simp_all add: text_limit_def)
  then obtain d where d: "Encode_message m = (True, d)" by (simp add: Encode_message_eq)
  have "Decode_as t d = None" for t
    using long_text_not_decoded [OF assms(1) d] Decode_as_other [OF Encode_message_hd [OF d] type_of_real]
    by (cases "t = type_of m") auto
  with d show ?thesis by blast
qed

theorem long_text_lost_witness:
  "\<exists>d. Encode_message (M_Hello \<lparr>hello_version = 2, hello_username = replicate 300 CHR ''a''\<rparr>) = (True, d) \<and>
    (\<forall>t. Decode_as t d = None)"
  by (rule long_text_lost) simp_all

text \<open>
  Bytes behind the fields are tolerated when the header counts them: Decode checks the declared
  size against what arrived, not that Read consumed it. Any message can be followed by any bytes.
\<close>

theorem declared_junk_accepted:
  assumes "message_ok m" and "length (body_of m) + length junk < 65536"
  shows "Decode_as (type_of m)
    (enc_Header ((header_for m)\<lparr>hdr_size := word_of_nat (length (body_of m) + length junk)\<rparr>) @ body_of m @ junk) = Some m"
proof -
  have h: "(header_for m)\<lparr>hdr_size := w\<rparr> = \<lparr>hdr_type = type_of m, hdr_flags = flags_of m, hdr_size = w\<rparr>" for w
    by (simp add: header_for_def)
  from assms show ?thesis
    using hello.Decode_declared_padding hello_ack.Decode_declared_padding
      ping.Decode_declared_padding pong.Decode_declared_padding player_state.Decode_declared_padding
      notify_state.Decode_declared_padding notify_joined.Decode_declared_padding notify_left.Decode_declared_padding
    unfolding h by (cases m) (simp_all add: Decode_as_def decoded_def message_ok_def header_of_def)
qed

theorem declared_junk_accepted_witness:
  "Decode_as Type_NotifyPlayerLeft [8, 1, 7, 0, 5, 0, 0, 0, 0xde, 0xad, 0xbe] =
    Some (M_NotifyPlayerLeft \<lparr>npl_playerId = 5\<rparr>)"
  using declared_junk_accepted [of "M_NotifyPlayerLeft \<lparr>npl_playerId = 5\<rparr>" "[0xde, 0xad, 0xbe]"]
  by (simp add: message_ok_def name_ok_def header_for_def enc_Header_def body_defs enc_U8_def enc_U16_def
      enc_U32_def Flags_Reliable_def drop_bit_Suc)

end
