(* ===== verification/Session.thy ===== *)
theory Session imports
  Net
  Protocol
begin

text \<open>
  src/src/server/Session.hpp and Session.cpp: who is connected. A \<^verbatim>\<open>Session*\<close> into the
  vector is an index; reading through it is nth, writing through it is a list update. Times are
  64-bit and player ids 32-bit words, with the wrap-around of the C++.

  sm_inv is the invariant of every operation; ids_inv adds what holds of the ids while the 32-bit
  counter has not wrapped. The abstract view of the manager is a finite map from endpoints to
  sessions (peers), which every operation implements. The locale latest_wins is the contract of a
  store that keeps the newest snapshot of a stream of unordered, duplicated ones.
\<close>

section \<open>State\<close>

type_synonym PlayerId = u32

definition kInvalidPlayer :: PlayerId where "kInvalidPlayer = 0"

record Session =
  sess_id :: PlayerId
  sess_username :: string
  sess_endpoint :: Endpoint
  lastSeenMs :: u64
  hasState :: bool
  stateTick :: u64
  sess_position :: "f32 \<times> f32 \<times> f32"
  sess_rotation :: f32

definition Session_default :: Session where
  "Session_default =
     \<lparr>sess_id = kInvalidPlayer, sess_username = [], sess_endpoint = \<lparr>address = 0, port = 0\<rparr>,
      lastSeenMs = 0, hasState = False, stateTick = 0, sess_position = (0, 0, 0), sess_rotation = 0\<rparr>"

datatype JoinResult = Accepted | AlreadyJoined | VersionMismatch | NameTaken | Full

fun JoinResult_ToString :: "JoinResult \<Rightarrow> string" where
  "JoinResult_ToString Accepted = ''accepted''"
| "JoinResult_ToString AlreadyJoined = ''already joined''"
| "JoinResult_ToString VersionMismatch = ''protocol version mismatch''"
| "JoinResult_ToString NameTaken = ''name already taken''"
| "JoinResult_ToString Full = ''server full''"

record SessionManager =
  m_maxPlayers :: nat
  m_timeoutMs :: u64
  m_nextId :: PlayerId
  m_sessions :: "Session list"

definition mk_SessionManager :: "nat \<Rightarrow> u64 \<Rightarrow> SessionManager" where
  "mk_SessionManager aMaxPlayers aTimeoutMs =
     \<lparr>m_maxPlayers = aMaxPlayers, m_timeoutMs = aTimeoutMs, m_nextId = 1, m_sessions = []\<rparr>"

definition Count :: "SessionManager \<Rightarrow> nat" where
  "Count m = length (m_sessions m)"

section \<open>Operations\<close>

definition Find_endpoint :: "Endpoint \<Rightarrow> SessionManager \<Rightarrow> nat option" where
  "Find_endpoint aFrom m = find_if (\<lambda>s. Endpoint_eq (sess_endpoint s) aFrom) (m_sessions m)"

definition Find_id :: "PlayerId \<Rightarrow> SessionManager \<Rightarrow> nat option" where
  "Find_id aPlayerId m =
     (if aPlayerId = kInvalidPlayer then None
      else find_if (\<lambda>s. sess_id s = aPlayerId) (m_sessions m))"

definition Join ::
  "Endpoint \<Rightarrow> string \<Rightarrow> u32 \<Rightarrow> u64 \<Rightarrow> SessionManager \<Rightarrow> JoinResult \<times> PlayerId \<times> SessionManager" where
  "Join aFrom aUsername aVersion aNowMs m =
     (if aVersion \<noteq> kVersion then (VersionMismatch, kInvalidPlayer, m)
      else
        (case Find_endpoint aFrom m of
           Some existing \<Rightarrow>
             (AlreadyJoined, sess_id (m_sessions m ! existing),
              m\<lparr>m_sessions := (m_sessions m)[existing := (m_sessions m ! existing)\<lparr>lastSeenMs := aNowMs\<rparr>]\<rparr>)
         | None \<Rightarrow>
             if aUsername = [] \<or> unat kMaxStringSize < length aUsername
             then (NameTaken, kInvalidPlayer, m)
             else if list_ex (\<lambda>s. sess_username s = aUsername) (m_sessions m)
             then (NameTaken, kInvalidPlayer, m)
             else if m_maxPlayers m \<le> length (m_sessions m) then (Full, kInvalidPlayer, m)
             else
               (let session = Session_default\<lparr>sess_id := m_nextId m, sess_username := aUsername,
                      sess_endpoint := aFrom, lastSeenMs := aNowMs\<rparr>
                in (Accepted, sess_id session,
                    m\<lparr>m_nextId := m_nextId m + 1, m_sessions := m_sessions m @ [session]\<rparr>))))"

definition Touch :: "Endpoint \<Rightarrow> u64 \<Rightarrow> SessionManager \<Rightarrow> bool \<times> SessionManager" where
  "Touch aFrom aNowMs m =
     (case Find_endpoint aFrom m of
        None \<Rightarrow> (False, m)
      | Some i \<Rightarrow>
          (True, m\<lparr>m_sessions := (m_sessions m)[i := (m_sessions m ! i)\<lparr>lastSeenMs := aNowMs\<rparr>]\<rparr>))"

definition expired :: "u64 \<Rightarrow> u64 \<Rightarrow> Session \<Rightarrow> bool" where
  "expired timeoutMs aNowMs s \<longleftrightarrow> aNowMs > lastSeenMs s \<and> aNowMs - lastSeenMs s \<ge> timeoutMs"

definition TakeNextTimedOut :: "u64 \<Rightarrow> SessionManager \<Rightarrow> Session option \<times> SessionManager" where
  "TakeNextTimedOut aNowMs m =
     (case find_if (expired (m_timeoutMs m) aNowMs) (m_sessions m) of
        None \<Rightarrow> (None, m)
      | Some i \<Rightarrow> (Some (m_sessions m ! i), m\<lparr>m_sessions := erase i (m_sessions m)\<rparr>))"

definition ApplyState ::
  "Endpoint \<Rightarrow> u64 \<Rightarrow> f32 \<times> f32 \<times> f32 \<Rightarrow> f32 \<Rightarrow> SessionManager \<Rightarrow> bool \<times> SessionManager" where
  "ApplyState aFrom aTick aPosition aRotation m =
     (case Find_endpoint aFrom m of
        None \<Rightarrow> (False, m)
      | Some i \<Rightarrow>
          (let s = m_sessions m ! i
           in if hasState s \<and> aTick \<le> stateTick s then (False, m)
              else (True, m\<lparr>m_sessions := (m_sessions m)[i := s\<lparr>hasState := True, stateTick := aTick,
                      sess_position := aPosition, sess_rotation := aRotation\<rparr>]\<rparr>)))"

definition Remove :: "PlayerId \<Rightarrow> SessionManager \<Rightarrow> bool \<times> SessionManager" where
  "Remove aPlayerId m =
     (case find_if (\<lambda>s. sess_id s = aPlayerId) (m_sessions m) of
        None \<Rightarrow> (False, m)
      | Some i \<Rightarrow> (True, m\<lparr>m_sessions := erase i (m_sessions m)\<rparr>))"

section \<open>The invariant\<close>

definition sm_inv :: "SessionManager \<Rightarrow> bool" where
  "sm_inv m \<longleftrightarrow>
     distinct (map sess_endpoint (m_sessions m)) \<and>
     distinct (map sess_username (m_sessions m)) \<and>
     (\<forall>s \<in> set (m_sessions m). sess_username s \<noteq> [] \<and> name_ok (sess_username s)) \<and>
     length (m_sessions m) \<le> m_maxPlayers m"

definition ids_inv :: "SessionManager \<Rightarrow> bool" where
  "ids_inv m \<longleftrightarrow>
     distinct (map sess_id (m_sessions m)) \<and>
     (\<forall>s \<in> set (m_sessions m). 0 < unat (sess_id s) \<and> unat (sess_id s) < unat (m_nextId m)) \<and>
     0 < unat (m_nextId m)"

text \<open>Every operation leaves these four columns alone, drops a row, or (Join) adds one.\<close>

definition rows :: "SessionManager \<Rightarrow> (PlayerId \<times> string \<times> Endpoint) list" where
  "rows m = map (\<lambda>s. (sess_id s, sess_username s, sess_endpoint s)) (m_sessions m)"

lemma rows_columns:
  "map sess_id (m_sessions m) = map fst (rows m)"
  "map sess_username (m_sessions m) = map (fst \<circ> snd) (rows m)"
  "map sess_endpoint (m_sessions m) = map (snd \<circ> snd) (rows m)"
  by (simp_all add: rows_def)

lemma sm_inv_rows:
  "sm_inv m \<longleftrightarrow> distinct (map (snd \<circ> snd) (rows m)) \<and> distinct (map (fst \<circ> snd) (rows m)) \<and>
     (\<forall>(i, u, e) \<in> set (rows m). u \<noteq> [] \<and> name_ok u) \<and> length (rows m) \<le> m_maxPlayers m"
  unfolding sm_inv_def rows_columns by (auto simp: rows_def)

lemma ids_inv_rows:
  "ids_inv m \<longleftrightarrow> distinct (map fst (rows m)) \<and>
     (\<forall>(i, u, e) \<in> set (rows m). 0 < unat i \<and> unat i < unat (m_nextId m)) \<and> 0 < unat (m_nextId m)"
  unfolding ids_inv_def rows_columns by (auto simp: rows_def)

lemma rows_update:
  "i < length (m_sessions m) \<Longrightarrow> sess_id s' = sess_id (m_sessions m ! i) \<Longrightarrow>
   sess_username s' = sess_username (m_sessions m ! i) \<Longrightarrow>
   sess_endpoint s' = sess_endpoint (m_sessions m ! i) \<Longrightarrow>
   rows (m\<lparr>m_sessions := (m_sessions m)[i := s']\<rparr>) = rows m"
  by (simp add: rows_def map_list_update_same)

lemma Find_endpoint_SomeD:
  "Find_endpoint e m = Some i \<Longrightarrow> i < length (m_sessions m) \<and> sess_endpoint (m_sessions m ! i) = e"
  by (auto simp: Find_endpoint_def dest: find_if_SomeD)

lemma Find_endpoint_None: "Find_endpoint e m = None \<longleftrightarrow> e \<notin> sess_endpoint ` set (m_sessions m)"
  by (auto simp: Find_endpoint_def find_if_None)

lemma Find_id_SomeD:
  "Find_id p m = Some i \<Longrightarrow> i < length (m_sessions m) \<and> sess_id (m_sessions m ! i) = p \<and> p \<noteq> kInvalidPlayer"
  by (auto simp: Find_id_def dest: find_if_SomeD split: if_splits)

text \<open>How each operation changes the rows.\<close>

lemma rows_Touch [sess_simps]: "rows (snd (Touch e t m)) = rows m"
  by (auto simp: Touch_def intro!: rows_update dest: Find_endpoint_SomeD split: option.splits)

lemma rows_ApplyState [sess_simps]: "rows (snd (ApplyState e t p r m)) = rows m"
  by (auto simp: ApplyState_def Let_def intro!: rows_update dest: Find_endpoint_SomeD split: option.splits)

lemma rows_TakeNextTimedOut:
  "TakeNextTimedOut now m = (Some s, m') \<Longrightarrow>
     \<exists>i. i < length (m_sessions m) \<and> s = m_sessions m ! i \<and> m' = m\<lparr>m_sessions := erase i (m_sessions m)\<rparr> \<and>
         expired (m_timeoutMs m) now s"
  by (auto simp: TakeNextTimedOut_def dest: find_if_SomeD split: option.splits)

lemma rows_erase: "rows (m\<lparr>m_sessions := erase i (m_sessions m)\<rparr>) = erase i (rows m)"
  by (simp add: rows_def map_erase)

lemma config_simps [sess_simps]:
  "m_maxPlayers (snd (Touch e t m)) = m_maxPlayers m" "m_nextId (snd (Touch e t m)) = m_nextId m"
  "m_timeoutMs (snd (Touch e t m)) = m_timeoutMs m"
  "m_maxPlayers (snd (ApplyState e k p r m)) = m_maxPlayers m"
  "m_nextId (snd (ApplyState e k p r m)) = m_nextId m"
  "m_timeoutMs (snd (ApplyState e k p r m)) = m_timeoutMs m"
  "m_maxPlayers (snd (TakeNextTimedOut now m)) = m_maxPlayers m"
  "m_nextId (snd (TakeNextTimedOut now m)) = m_nextId m"
  "m_timeoutMs (snd (TakeNextTimedOut now m)) = m_timeoutMs m"
  "m_maxPlayers (snd (Remove q m)) = m_maxPlayers m" "m_nextId (snd (Remove q m)) = m_nextId m"
  "m_timeoutMs (snd (Remove q m)) = m_timeoutMs m"
  by (simp_all add: Touch_def ApplyState_def TakeNextTimedOut_def Remove_def Let_def split: option.splits)

lemma erase_inv: "sm_inv m \<Longrightarrow> i < length (m_sessions m) \<Longrightarrow> sm_inv (m\<lparr>m_sessions := erase i (m_sessions m)\<rparr>)"
  using erase_subset [of i "m_sessions m"]
  by (auto simp: sm_inv_def map_erase distinct_erase)

lemma erase_ids: "ids_inv m \<Longrightarrow> ids_inv (m\<lparr>m_sessions := erase i (m_sessions m)\<rparr>)"
  using erase_subset [of i "m_sessions m"]
  by (auto simp: ids_inv_def map_erase distinct_erase)

lemma Touch_inv: "sm_inv m \<Longrightarrow> sm_inv (snd (Touch e t m))"
  by (simp add: sm_inv_rows sess_simps)

lemma Touch_ids: "ids_inv m \<Longrightarrow> ids_inv (snd (Touch e t m))"
  by (simp add: ids_inv_rows sess_simps)

lemma ApplyState_inv: "sm_inv m \<Longrightarrow> sm_inv (snd (ApplyState e k p r m))"
  by (simp add: sm_inv_rows sess_simps)

lemma ApplyState_ids: "ids_inv m \<Longrightarrow> ids_inv (snd (ApplyState e k p r m))"
  by (simp add: ids_inv_rows sess_simps)

lemma TakeNextTimedOut_inv: "sm_inv m \<Longrightarrow> sm_inv (snd (TakeNextTimedOut now m))"
  by (auto simp: TakeNextTimedOut_def erase_inv find_if_Some_length split: option.splits)

lemma TakeNextTimedOut_ids: "ids_inv m \<Longrightarrow> ids_inv (snd (TakeNextTimedOut now m))"
  by (auto simp: TakeNextTimedOut_def erase_ids split: option.splits)

lemma Remove_inv: "sm_inv m \<Longrightarrow> sm_inv (snd (Remove q m))"
  by (auto simp: Remove_def erase_inv find_if_Some_length split: option.splits)

lemma Remove_ids: "ids_inv m \<Longrightarrow> ids_inv (snd (Remove q m))"
  by (auto simp: Remove_def erase_ids split: option.splits)

text \<open>The outcome of Join, branch by branch.\<close>

lemma Join_cases [case_names version already empty_or_long taken full accepted]:
  obtains
    (version) "v \<noteq> kVersion" "Join e u v t m = (VersionMismatch, kInvalidPlayer, m)"
  | (already) i where "v = kVersion" "Find_endpoint e m = Some i"
      "Join e u v t m = (AlreadyJoined, sess_id (m_sessions m ! i), snd (Touch e t m))"
  | (empty_or_long) "v = kVersion" "Find_endpoint e m = None" "u = [] \<or> \<not> name_ok u"
      "Join e u v t m = (NameTaken, kInvalidPlayer, m)"
  | (taken) "v = kVersion" "Find_endpoint e m = None" "u \<noteq> []" "name_ok u"
      "u \<in> sess_username ` set (m_sessions m)" "Join e u v t m = (NameTaken, kInvalidPlayer, m)"
  | (full) "v = kVersion" "Find_endpoint e m = None" "u \<noteq> []" "name_ok u"
      "u \<notin> sess_username ` set (m_sessions m)" "m_maxPlayers m \<le> Count m"
      "Join e u v t m = (Full, kInvalidPlayer, m)"
  | (accepted) s where "v = kVersion" "Find_endpoint e m = None" "u \<noteq> []" "name_ok u"
      "u \<notin> sess_username ` set (m_sessions m)" "Count m < m_maxPlayers m"
      "sess_id s = m_nextId m" "sess_username s = u" "sess_endpoint s = e" "lastSeenMs s = t"
      "\<not> hasState s"
      "s = Session_default\<lparr>sess_id := m_nextId m, sess_username := u, sess_endpoint := e, lastSeenMs := t\<rparr>"
      "Join e u v t m = (Accepted, m_nextId m, m\<lparr>m_nextId := m_nextId m + 1, m_sessions := m_sessions m @ [s]\<rparr>)"
proof -
  have k: "unat kMaxStringSize < length u \<longleftrightarrow> \<not> name_ok u"
    by (auto simp: kMaxStringSize_def name_ok_def)
  show ?thesis
  proof (cases "v = kVersion")
    case False
    then show ?thesis by (intro version) (simp_all add: Join_def)
  next
    case v: True
    show ?thesis
    proof (cases "Find_endpoint e m")
      case (Some i)
      with v show ?thesis by (intro already) (simp_all add: Join_def Touch_def)
    next
      case N: None
      consider "u = [] \<or> \<not> name_ok u"
        | "u \<noteq> []" "name_ok u" "u \<in> sess_username ` set (m_sessions m)"
        | "u \<noteq> []" "name_ok u" "u \<notin> sess_username ` set (m_sessions m)" "m_maxPlayers m \<le> Count m"
        | "u \<noteq> []" "name_ok u" "u \<notin> sess_username ` set (m_sessions m)" "Count m < m_maxPlayers m"
        by force
      then show ?thesis
      proof cases
        case 1
        with v N k show ?thesis by (intro empty_or_long) (auto simp: Join_def)
      next
        case 2
        with v N k show ?thesis by (intro taken) (auto simp: Join_def list_ex_iff)
      next
        case 3
        with v N k show ?thesis by (intro full) (auto simp: Join_def list_ex_iff Count_def)
      next
        case 4
        with v N k show ?thesis
          by (intro accepted [of "Session_default\<lparr>sess_id := m_nextId m, sess_username := u,
                sess_endpoint := e, lastSeenMs := t\<rparr>"])
            (auto simp: Join_def list_ex_iff Count_def Let_def Session_default_def)
      qed
    qed
  qed
qed

lemma Join_inv: "sm_inv m \<Longrightarrow> sm_inv (snd (snd (Join e u v t m)))"
proof (cases rule: Join_cases [of v e u t m])
  case (accepted s)
  moreover assume "sm_inv m"
  ultimately show ?thesis
    by (auto simp: sm_inv_def Find_endpoint_None Count_def)
qed (simp_all add: Touch_inv)

lemma Join_ids: "ids_inv m \<Longrightarrow> unat (m_nextId m) < 2 ^ 32 - 1 \<Longrightarrow> ids_inv (snd (snd (Join e u v t m)))"
proof (cases rule: Join_cases [of v e u t m])
  case (accepted s)
  assume inv: "ids_inv m" and small: "unat (m_nextId m) < 2 ^ 32 - 1"
  from small have n: "unat (m_nextId m + 1) = unat (m_nextId m) + 1"
    by (simp add: unat_word_ariths)
  from inv have "m_nextId m \<notin> sess_id ` set (m_sessions m)" by (auto simp: ids_inv_def)
  with accepted inv n show ?thesis by (auto simp: ids_inv_def)
qed (simp_all add: Touch_ids)

section \<open>Runs of operations\<close>

datatype session_op =
    Op_Join Endpoint string u32 u64
  | Op_Touch Endpoint u64
  | Op_TakeNextTimedOut u64
  | Op_ApplyState Endpoint u64 "f32 \<times> f32 \<times> f32" f32
  | Op_Remove PlayerId

fun session_step :: "session_op \<Rightarrow> SessionManager \<Rightarrow> SessionManager" where
  "session_step (Op_Join e u v t) m = snd (snd (Join e u v t m))"
| "session_step (Op_Touch e t) m = snd (Touch e t m)"
| "session_step (Op_TakeNextTimedOut t) m = snd (TakeNextTimedOut t m)"
| "session_step (Op_ApplyState e k p r) m = snd (ApplyState e k p r m)"
| "session_step (Op_Remove q) m = snd (Remove q m)"

fun is_Join :: "session_op \<Rightarrow> bool" where
  "is_Join (Op_Join _ _ _ _) = True"
| "is_Join _ = False"

lemma session_step_inv: "sm_inv m \<Longrightarrow> sm_inv (session_step op m)"
  by (cases op) (simp_all add: Join_inv Touch_inv TakeNextTimedOut_inv ApplyState_inv Remove_inv)

lemma session_step_ids:
  "ids_inv m \<Longrightarrow> (is_Join op \<Longrightarrow> unat (m_nextId m) < 2 ^ 32 - 1) \<Longrightarrow> ids_inv (session_step op m)"
  by (cases op) (simp_all add: Join_ids Touch_ids TakeNextTimedOut_ids ApplyState_ids Remove_ids)

lemma session_run_inv: "sm_inv m \<Longrightarrow> sm_inv (fold session_step ops m)"
  by (induction ops arbitrary: m) (simp_all add: session_step_inv)

lemma session_step_nextId:
  "unat (m_nextId (session_step op m)) \<le> unat (m_nextId m) + (if is_Join op then 1 else 0)"
proof (cases op)
  case (Op_Join e u v t)
  show ?thesis
    by (cases rule: Join_cases [of v e u t m])
      (simp_all add: Op_Join sess_simps unat_word_ariths)
qed (simp_all add: sess_simps)

lemma session_run_ids:
  "ids_inv m \<Longrightarrow> unat (m_nextId m) + length (filter is_Join ops) < 2 ^ 32 \<Longrightarrow>
   ids_inv (fold session_step ops m)"
proof (induction ops arbitrary: m)
  case (Cons op ops)
  have "ids_inv (session_step op m)" using Cons.prems by (intro session_step_ids) auto
  then show ?case using Cons session_step_nextId [of op m] by (auto split: if_splits)
qed simp

lemma mk_SessionManager_inv: "sm_inv (mk_SessionManager n t)" "ids_inv (mk_SessionManager n t)"
  by (simp_all add: mk_SessionManager_def sm_inv_def ids_inv_def)

section \<open>The abstract view: a finite map from endpoints to sessions\<close>

definition peers :: "SessionManager \<Rightarrow> Endpoint \<Rightarrow> Session option" where
  "peers m = map_of (map (\<lambda>s. (sess_endpoint s, s)) (m_sessions m))"

record abs_manager =
  am_peers :: "Endpoint \<Rightarrow> Session option"
  am_nextId :: PlayerId
  am_max :: nat
  am_timeout :: u64

definition abs_manager :: "SessionManager \<Rightarrow> abs_manager" where
  "abs_manager m = \<lparr>am_peers = peers m, am_nextId = m_nextId m, am_max = m_maxPlayers m,
     am_timeout = m_timeoutMs m\<rparr>"

text \<open>What the operations promise, without the vector.\<close>

definition abs_Join ::
  "Endpoint \<Rightarrow> string \<Rightarrow> u32 \<Rightarrow> u64 \<Rightarrow> abs_manager \<Rightarrow> JoinResult \<times> PlayerId \<times> abs_manager" where
  "abs_Join e u v t a =
     (if v \<noteq> kVersion then (VersionMismatch, kInvalidPlayer, a)
      else
        (case am_peers a e of
           Some s \<Rightarrow> (AlreadyJoined, sess_id s, a\<lparr>am_peers := (am_peers a)(e \<mapsto> s\<lparr>lastSeenMs := t\<rparr>)\<rparr>)
         | None \<Rightarrow>
             if u = [] \<or> \<not> name_ok u \<or> (\<exists>s \<in> ran (am_peers a). sess_username s = u)
             then (NameTaken, kInvalidPlayer, a)
             else if am_max a \<le> card (dom (am_peers a)) then (Full, kInvalidPlayer, a)
             else (Accepted, am_nextId a,
                   a\<lparr>am_nextId := am_nextId a + 1,
                     am_peers := (am_peers a)(e \<mapsto> Session_default\<lparr>sess_id := am_nextId a,
                       sess_username := u, sess_endpoint := e, lastSeenMs := t\<rparr>)\<rparr>)))"

definition abs_update :: "Endpoint \<Rightarrow> (Session \<Rightarrow> Session option) \<Rightarrow> abs_manager \<Rightarrow> bool \<times> abs_manager" where
  "abs_update e f a =
     (case Option.bind (am_peers a e) f of
        None \<Rightarrow> (False, a)
      | Some s \<Rightarrow> (True, a\<lparr>am_peers := (am_peers a)(e \<mapsto> s)\<rparr>))"

lemma peers_dom: "dom (peers m) = sess_endpoint ` set (m_sessions m)"
  by (auto simp: peers_def dom_map_of_conv_image_fst image_image)

lemma peers_Find: "peers m e = map_option ((!) (m_sessions m)) (Find_endpoint e m)"
proof -
  have "map_of (map (\<lambda>s. (sess_endpoint s, s)) xs) e =
      map_option ((!) xs) (find_if (\<lambda>s. Endpoint_eq (sess_endpoint s) e) xs)" for xs
    by (induction xs) (auto simp: option.map_comp comp_def)
  then show ?thesis by (simp add: peers_def Find_endpoint_def)
qed

lemma peers_nth:
  "sm_inv m \<Longrightarrow> i < length (m_sessions m) \<Longrightarrow> peers m (sess_endpoint (m_sessions m ! i)) = Some (m_sessions m ! i)"
  unfolding peers_def sm_inv_def by (rule map_of_is_SomeI) (auto simp: comp_def)

lemma peers_ran: "sm_inv m \<Longrightarrow> ran (peers m) = set (m_sessions m)"
proof -
  assume inv: "sm_inv m"
  then have d: "distinct (map fst (map (\<lambda>s. (sess_endpoint s, s)) (m_sessions m)))"
    by (simp add: sm_inv_def comp_def)
  show ?thesis unfolding peers_def using ran_distinct [OF d] by (simp add: image_image)
qed

lemma peers_card: "sm_inv m \<Longrightarrow> card (dom (peers m)) = Count m"
  by (simp add: peers_dom Count_def sm_inv_def distinct_card flip: set_map)

lemma peers_update:
  assumes inv: "sm_inv m" and i: "i < length (m_sessions m)"
    and e: "sess_endpoint s' = sess_endpoint (m_sessions m ! i)"
  shows "peers (m\<lparr>m_sessions := (m_sessions m)[i := s']\<rparr>) = (peers m)(sess_endpoint s' \<mapsto> s')"
proof -
  have "map_of (map (\<lambda>s. (sess_endpoint s, s)) (xs[i := s'])) =
      (map_of (map (\<lambda>s. (sess_endpoint s, s)) xs))(sess_endpoint s' \<mapsto> s')"
    if "distinct (map sess_endpoint xs)" "i < length xs" "sess_endpoint s' = sess_endpoint (xs ! i)" for xs
    using that
  proof (induction xs arbitrary: i)
    case (Cons x xs)
    show ?case
    proof (cases i)
      case (Suc j)
      with Cons.prems have "xs ! j \<in> set xs" by simp
      with Cons.prems Suc have "sess_endpoint x \<noteq> sess_endpoint s'" by auto
      with Cons Suc show ?thesis by (auto simp: fun_eq_iff)
    qed (use Cons.prems in auto)
  qed simp
  with assms show ?thesis by (simp add: peers_def sm_inv_def)
qed

lemma peers_erase:
  assumes inv: "sm_inv m" and i: "i < length (m_sessions m)"
  shows "peers (m\<lparr>m_sessions := erase i (m_sessions m)\<rparr>) = (peers m)(sess_endpoint (m_sessions m ! i) := None)"
proof -
  have gen: "map_of (map (\<lambda>s. (sess_endpoint s, s)) (erase i xs)) =
      (map_of (map (\<lambda>s. (sess_endpoint s, s)) xs))(sess_endpoint (xs ! i) := None)"
    if "distinct (map sess_endpoint xs)" "i < length xs" for xs
    using that
  proof (induction xs arbitrary: i)
    case (Cons x xs)
    show ?case
    proof (cases i)
      case 0
      have "map_of (map (\<lambda>s. (sess_endpoint s, s)) xs) (sess_endpoint x) = None"
        using Cons.prems(1) by (auto simp: map_of_eq_None_iff image_image)
      with 0 show ?thesis by (auto simp: erase_def fun_eq_iff)
    next
      case (Suc j)
      with Cons.prems have "sess_endpoint x \<noteq> sess_endpoint (xs ! j)" by auto
      with Cons Suc show ?thesis by (auto simp: fun_eq_iff erase_def)
    qed
  qed simp
  show ?thesis using gen [of "m_sessions m"] assms by (simp add: peers_def sm_inv_def)
qed

lemma peers_snoc:
  "Find_endpoint (sess_endpoint s) m = None \<Longrightarrow>
   peers (m\<lparr>m_nextId := n, m_sessions := m_sessions m @ [s]\<rparr>) = (peers m)(sess_endpoint s \<mapsto> s)"
proof -
  assume "Find_endpoint (sess_endpoint s) m = None"
  then have "peers m (sess_endpoint s) = None" by (simp add: peers_Find)
  then show ?thesis by (auto simp: peers_def fun_eq_iff map_add_def split: option.splits)
qed

text \<open>Join, Touch and ApplyState implement their abstract counterparts.\<close>

lemma Join_refines:
  assumes inv: "sm_inv m"
  shows "abs_Join e u v t (abs_manager m) =
    (fst (Join e u v t m), fst (snd (Join e u v t m)), abs_manager (snd (snd (Join e u v t m))))"
proof (cases rule: Join_cases [of v e u t m])
  case (already i)
  from Find_endpoint_SomeD [OF already(2)]
  have i: "i < length (m_sessions m)" "sess_endpoint (m_sessions m ! i) = e" by auto
  have "peers (snd (Touch e t m)) = (peers m)(e \<mapsto> (m_sessions m ! i)\<lparr>lastSeenMs := t\<rparr>)"
    using already(2) peers_update [OF inv i(1), of "(m_sessions m ! i)\<lparr>lastSeenMs := t\<rparr>"] i(2)
    by (simp add: Touch_def)
  with already show ?thesis
    by (simp add: abs_Join_def abs_manager_def peers_Find sess_simps)
next
  case (accepted s)
  with accepted show ?thesis
    using peers_snoc [of s m] peers_ran [OF inv] peers_card [OF inv]
    by (auto simp: abs_Join_def abs_manager_def peers_Find)
qed (use peers_ran [OF inv] peers_card [OF inv] in
     \<open>auto simp: abs_Join_def abs_manager_def peers_Find\<close>)

lemma Touch_refines:
  assumes inv: "sm_inv m"
  shows "abs_update e (\<lambda>s. Some (s\<lparr>lastSeenMs := t\<rparr>)) (abs_manager m) =
    (fst (Touch e t m), abs_manager (snd (Touch e t m)))"
proof (cases "Find_endpoint e m")
  case (Some i)
  from Find_endpoint_SomeD [OF Some]
    peers_update [OF inv, of i "(m_sessions m ! i)\<lparr>lastSeenMs := t\<rparr>"] Some
  show ?thesis by (simp add: abs_update_def abs_manager_def peers_Find Touch_def)
qed (simp add: abs_update_def abs_manager_def peers_Find Touch_def)

lemma ApplyState_refines:
  assumes inv: "sm_inv m"
  shows "abs_update e (\<lambda>s. if hasState s \<and> k \<le> stateTick s then None
      else Some (s\<lparr>hasState := True, stateTick := k, sess_position := p, sess_rotation := r\<rparr>)) (abs_manager m) =
    (fst (ApplyState e k p r m), abs_manager (snd (ApplyState e k p r m)))"
proof (cases "Find_endpoint e m")
  case (Some i)
  from Find_endpoint_SomeD [OF Some]
    peers_update [OF inv, of i "(m_sessions m ! i)\<lparr>hasState := True, stateTick := k,
      sess_position := p, sess_rotation := r\<rparr>"] Some
  show ?thesis by (simp add: abs_update_def abs_manager_def peers_Find ApplyState_def Let_def)
qed (simp add: abs_update_def abs_manager_def peers_Find ApplyState_def)

lemma TakeNextTimedOut_refines:
  assumes inv: "sm_inv m" and t: "TakeNextTimedOut now m = (Some s, m')"
  shows "peers m (sess_endpoint s) = Some s" "expired (m_timeoutMs m) now s"
    "peers m' = (peers m)(sess_endpoint s := None)" "Count m' = Count m - 1" "0 < Count m"
proof -
  from rows_TakeNextTimedOut [OF t] obtain i where i: "i < length (m_sessions m)" "s = m_sessions m ! i"
    "m' = m\<lparr>m_sessions := erase i (m_sessions m)\<rparr>" and ex: "expired (m_timeoutMs m) now s" by auto
  from ex show "expired (m_timeoutMs m) now s" .
  from i peers_nth [OF inv i(1)] show "peers m (sess_endpoint s) = Some s" by simp
  from i peers_erase [OF inv i(1)] show "peers m' = (peers m)(sess_endpoint s := None)" by simp
  from i show "Count m' = Count m - 1" by (simp add: Count_def)
  from i show "0 < Count m" by (auto simp: Count_def)
qed

lemma TakeNextTimedOut_None:
  "fst (TakeNextTimedOut now m) = None \<longleftrightarrow> (\<forall>s \<in> set (m_sessions m). \<not> expired (m_timeoutMs m) now s)"
  by (auto simp: TakeNextTimedOut_def find_if_None split: option.splits)
    (metis find_if_None option.distinct(1))

lemma TakeNextTimedOut_None_same: "TakeNextTimedOut now m = (None, m') \<Longrightarrow> m' = m"
  by (auto simp: TakeNextTimedOut_def split: option.splits)

lemma Remove_refines:
  assumes inv: "sm_inv m" and r: "Remove q m = (True, m')"
  shows "\<exists>s \<in> set (m_sessions m). sess_id s = q \<and> peers m' = (peers m)(sess_endpoint s := None)"
proof -
  from r obtain i where i: "find_if (\<lambda>s. sess_id s = q) (m_sessions m) = Some i"
    "m' = m\<lparr>m_sessions := erase i (m_sessions m)\<rparr>" by (auto simp: Remove_def split: option.splits)
  from find_if_SomeD [OF i(1)] have "i < length (m_sessions m)" "sess_id (m_sessions m ! i) = q" by auto
  with i(2) peers_erase [OF inv] show ?thesis by (intro bexI [of _ "m_sessions m ! i"]) auto
qed

section \<open>The contract of a store that keeps the newest snapshot\<close>

text \<open>
  cur is what the store holds, tagged with its tick; put offers a snapshot and says whether it was
  taken; live is the condition under which the store exists; good the ticks the contract is for.
  Every place that receives snapshots over UDP keeps to it: the session, the client's table of
  remote players.
\<close>

locale latest_wins =
  fixes put :: "u64 \<Rightarrow> 'p \<Rightarrow> 's \<Rightarrow> bool \<times> 's"
    and cur :: "'s \<Rightarrow> (u64 \<times> 'p) option"
    and live :: "'s \<Rightarrow> bool"
    and good :: "u64 \<Rightarrow> bool"
  assumes put_new: "live s \<Longrightarrow> good t \<Longrightarrow> (\<And>k q. cur s = Some (k, q) \<Longrightarrow> k < t) \<Longrightarrow>
      fst (put t p s) \<and> cur (snd (put t p s)) = Some (t, p) \<and> live (snd (put t p s))"
    and put_old: "live s \<Longrightarrow> good t \<Longrightarrow> cur s = Some (k, q) \<Longrightarrow> t \<le> k \<Longrightarrow>
      \<not> fst (put t p s) \<and> cur (snd (put t p s)) = cur s \<and> live (snd (put t p s))"
begin

definition deliver :: "(u64 \<times> 'p) list \<Rightarrow> 's \<Rightarrow> 's" where
  "deliver xs s = fold (\<lambda>(t, p) s. snd (put t p s)) xs s"

lemma put_live: "live s \<Longrightarrow> good t \<Longrightarrow> live (snd (put t p s))"
  using put_new [of s t p] put_old [of s t] by (cases "cur s") (auto, metis linorder_not_le)

lemma put_cur:
  assumes "live s" and "good t"
  shows "cur (snd (put t p s)) =
    (case cur s of None \<Rightarrow> Some (t, p) | Some (k, q) \<Rightarrow> if k < t then Some (t, p) else Some (k, q))"
  using put_new [OF assms, of p] put_old [OF assms] by (cases "cur s") (auto simp: not_less)

lemma put_fst:
  assumes "live s" and "good t"
  shows "fst (put t p s) \<longleftrightarrow> (case cur s of None \<Rightarrow> True | Some (k, q) \<Rightarrow> k < t)"
proof (cases "cur s")
  case None
  then show ?thesis using put_new [OF assms, of p] by simp
next
  case (Some a)
  obtain k q where a: "a = (k, q)" by fastforce
  show ?thesis
  proof (cases "k < t")
    case True
    then show ?thesis using put_new [OF assms, of p] Some a by simp
  next
    case False
    then show ?thesis using put_old [OF assms, of k q p] Some a by simp
  qed
qed

text \<open>The held tick never decreases.\<close>

lemma put_mono:
  "live s \<Longrightarrow> good t \<Longrightarrow> cur s = Some (k, q) \<Longrightarrow>
   \<exists>k' q'. cur (snd (put t p s)) = Some (k', q') \<and> k \<le> k'"
  by (auto simp: put_cur)

lemma deliver_cur:
  assumes "live s" and "\<forall>(t, p) \<in> set xs. good t"
  shows "case cur (deliver xs s) of
      None \<Rightarrow> cur s = None \<and> xs = []
    | Some (k, q) \<Rightarrow> (k, q) \<in> set xs \<union> set_option (cur s) \<and> (\<forall>(t, p) \<in> set xs \<union> set_option (cur s). t \<le> k)"
  using assms
proof (induction xs arbitrary: s)
  case Nil
  then show ?case by (cases "cur s") (auto simp: deliver_def)
next
  case (Cons x xs)
  obtain t p where x: "x = (t, p)" by fastforce
  let ?s = "snd (put t p s)"
  have l: "live ?s" and c: "cur ?s = (case cur s of None \<Rightarrow> Some (t, p)
      | Some (k, q) \<Rightarrow> if k < t then Some (t, p) else Some (k, q))"
    using Cons.prems x put_live put_cur by auto
  have d: "deliver (x # xs) s = deliver xs ?s" by (simp add: deliver_def x)
  have IH: "case cur (deliver xs ?s) of None \<Rightarrow> cur ?s = None \<and> xs = []
    | Some (k, q) \<Rightarrow> (k, q) \<in> set xs \<union> set_option (cur ?s) \<and> (\<forall>(t, p) \<in> set xs \<union> set_option (cur ?s). t \<le> k)"
    using Cons.prems by (intro Cons.IH [OF l]) auto
  have some: "cur ?s \<noteq> None" and sub: "set_option (cur ?s) \<subseteq> insert (t, p) (set_option (cur s))"
    and le: "\<And>u. u \<in> insert (t, p) (set_option (cur s)) \<Longrightarrow> \<exists>w \<in> set_option (cur ?s). fst u \<le> fst w"
    using c by (auto split: option.splits if_splits)
  from IH some obtain k q where k: "cur (deliver xs ?s) = Some (k, q)"
    "(k, q) \<in> set xs \<union> set_option (cur ?s)" "\<forall>(t, p) \<in> set xs \<union> set_option (cur ?s). t \<le> k"
    by (auto split: option.splits)
  have "\<forall>(t', p') \<in> set (x # xs) \<union> set_option (cur s). t' \<le> k"
  proof clarify
    fix t' p' assume "(t', p') \<in> set (x # xs) \<union> set_option (cur s)"
    then consider "(t', p') \<in> set xs" | "(t', p') \<in> insert (t, p) (set_option (cur s))" using x by auto
    then show "t' \<le> k"
    proof cases
      case 2
      from le [OF this] k(3) show ?thesis by fastforce
    qed (use k(3) in auto)
  qed
  moreover have "(k, q) \<in> set (x # xs) \<union> set_option (cur s)" using k(2) sub x by auto
  ultimately show ?case unfolding d using k(1) by simp
qed

text \<open>
  Reordering and duplication on the way do not matter: two deliveries of the same snapshots leave
  the same one in the store.
\<close>

lemma deliver_order_irrelevant:
  assumes "live s" and "live s'" and "cur s = None" and "cur s' = None" and "set xs = set ys"
    and g: "\<forall>(t, p) \<in> set xs. good t"
    and f: "\<forall>(t, p) \<in> set xs. \<forall>(t', p') \<in> set xs. t = t' \<longrightarrow> p = p'"
  shows "cur (deliver xs s) = cur (deliver ys s')"
proof -
  have 1: "case cur (deliver xs s) of None \<Rightarrow> xs = [] | Some (k, q) \<Rightarrow> (k, q) \<in> set xs \<and> (\<forall>(t, p) \<in> set xs. t \<le> k)"
    using deliver_cur [of s xs] assms by (auto split: option.splits)
  have 2: "case cur (deliver ys s') of None \<Rightarrow> ys = [] | Some (k, q) \<Rightarrow> (k, q) \<in> set xs \<and> (\<forall>(t, p) \<in> set xs. t \<le> k)"
    using deliver_cur [of s' ys] assms by (auto split: option.splits)
  show ?thesis
  proof (cases "cur (deliver xs s)")
    case None
    with 1 2 assms(5) show ?thesis by (auto split: option.splits)
  next
    case (Some a)
    obtain k q where a: "a = (k, q)" by fastforce
    from 1 Some a have k: "(k, q) \<in> set xs" "\<forall>(t, p) \<in> set xs. t \<le> k" by auto
    with assms(5) have "ys \<noteq> []" by auto
    with 2 obtain k' q' where k': "cur (deliver ys s') = Some (k', q')" "(k', q') \<in> set xs"
      "\<forall>(t, p) \<in> set xs. t \<le> k'" by (auto split: option.splits)
    from k k' have "k = k'" by (intro antisym) auto
    moreover from this f k(1) k'(2) have "q = q'" by fastforce
    ultimately show ?thesis using Some a k'(1) by simp
  qed
qed

end

definition session_snapshot :: "Endpoint \<Rightarrow> SessionManager \<Rightarrow> (u64 \<times> (f32 \<times> f32 \<times> f32) \<times> f32) option" where
  "session_snapshot e m =
     (case Find_endpoint e m of
        None \<Rightarrow> None
      | Some i \<Rightarrow>
          (let s = m_sessions m ! i
           in if hasState s then Some (stateTick s, sess_position s, sess_rotation s) else None))"

lemma Find_endpoint_update:
  assumes "Find_endpoint e m = Some i" and "sess_endpoint s' = e"
  shows "Find_endpoint e (m\<lparr>m_sessions := (m_sessions m)[i := s']\<rparr>) = Some i"
proof -
  have "find_if P xs = Some i \<Longrightarrow> P s' \<Longrightarrow> find_if P (xs[i := s']) = Some i"
    for P :: "Session \<Rightarrow> bool" and xs
    by (induction xs arbitrary: i) (auto split: if_splits nat.splits)
  with assms show ?thesis by (simp add: Find_endpoint_def)
qed

interpretation server_latest: latest_wins "\<lambda>t p. ApplyState e t (fst p) (snd p)" "session_snapshot e"
  "\<lambda>m. Find_endpoint e m \<noteq> None" "\<lambda>_. True" for e
proof unfold_locales
  fix m :: SessionManager and t k :: u64 and p q :: "(f32 \<times> f32 \<times> f32) \<times> f32"
  assume l: "Find_endpoint e m \<noteq> None"
  then obtain i where i: "Find_endpoint e m = Some i" by auto
  note i' = Find_endpoint_SomeD [OF i]
  let ?s = "(m_sessions m ! i)\<lparr>hasState := True, stateTick := t, sess_position := fst p, sess_rotation := snd p\<rparr>"
  {
    assume "\<And>k q. session_snapshot e m = Some (k, q) \<Longrightarrow> k < t"
    then have "\<not> (hasState (m_sessions m ! i) \<and> t \<le> stateTick (m_sessions m ! i))"
      using i by (auto simp: session_snapshot_def Let_def not_le)
    with i i' Find_endpoint_update [OF i, of ?s]
    show "fst (ApplyState e t (fst p) (snd p) m) \<and>
        session_snapshot e (snd (ApplyState e t (fst p) (snd p) m)) = Some (t, p) \<and>
        Find_endpoint e (snd (ApplyState e t (fst p) (snd p) m)) \<noteq> None"
      by (auto simp: ApplyState_def Let_def session_snapshot_def)
  next
    assume "session_snapshot e m = Some (k, q)" and "t \<le> k"
    with i l show "\<not> fst (ApplyState e t (fst p) (snd p) m) \<and>
        session_snapshot e (snd (ApplyState e t (fst p) (snd p) m)) = session_snapshot e m \<and>
        Find_endpoint e (snd (ApplyState e t (fst p) (snd p) m)) \<noteq> None"
      by (auto simp: ApplyState_def Let_def session_snapshot_def split: if_splits)
  }
qed

section \<open>The simulation, and the wrap of the id counter\<close>

text \<open>One operation on the abstract manager. Which timed-out peer goes first is left open.\<close>

fun abs_step :: "session_op \<Rightarrow> abs_manager \<Rightarrow> abs_manager \<Rightarrow> bool" where
  "abs_step (Op_Join e u v t) a a' = (a' = snd (snd (abs_Join e u v t a)))"
| "abs_step (Op_Touch e t) a a' = (a' = snd (abs_update e (\<lambda>s. Some (s\<lparr>lastSeenMs := t\<rparr>)) a))"
| "abs_step (Op_ApplyState e k p r) a a' =
     (a' = snd (abs_update e (\<lambda>s. if hasState s \<and> k \<le> stateTick s then None
        else Some (s\<lparr>hasState := True, stateTick := k, sess_position := p, sess_rotation := r\<rparr>)) a))"
| "abs_step (Op_TakeNextTimedOut now) a a' =
     (if \<forall>s \<in> ran (am_peers a). \<not> expired (am_timeout a) now s then a' = a
      else \<exists>s \<in> ran (am_peers a). expired (am_timeout a) now s \<and>
             a' = a\<lparr>am_peers := (am_peers a)(sess_endpoint s := None)\<rparr>)"
| "abs_step (Op_Remove q) a a' =
     (if \<forall>s \<in> ran (am_peers a). sess_id s \<noteq> q then a' = a
      else \<exists>s \<in> ran (am_peers a). sess_id s = q \<and>
             a' = a\<lparr>am_peers := (am_peers a)(sess_endpoint s := None)\<rparr>)"

lemma abs_erase:
  "sm_inv m \<Longrightarrow> i < length (m_sessions m) \<Longrightarrow>
   abs_manager (m\<lparr>m_sessions := erase i (m_sessions m)\<rparr>) =
     (abs_manager m)\<lparr>am_peers := (peers m)(sess_endpoint (m_sessions m ! i) := None)\<rparr>"
  by (simp add: abs_manager_def peers_erase)

lemma session_step_simulates: "sm_inv m \<Longrightarrow> abs_step op (abs_manager m) (abs_manager (session_step op m))"
proof -
  assume inv: "sm_inv m"
  note ran = peers_ran [OF inv]
  have am: "am_peers (abs_manager m) = peers m" "am_timeout (abs_manager m) = m_timeoutMs m"
    by (simp_all add: abs_manager_def)
  show ?thesis
  proof (cases op)
    case (Op_Join e u v t)
    then show ?thesis by (simp add: Join_refines [OF inv])
  next
    case (Op_Touch e t)
    then show ?thesis by (simp add: Touch_refines [OF inv])
  next
    case (Op_ApplyState e k p r)
    then show ?thesis by (simp add: ApplyState_refines [OF inv])
  next
    case (Op_TakeNextTimedOut now)
    show ?thesis
    proof (cases "find_if (expired (m_timeoutMs m) now) (m_sessions m)")
      case None
      then have "\<forall>s \<in> set (m_sessions m). \<not> expired (m_timeoutMs m) now s" by (simp add: find_if_None)
      with None show ?thesis by (simp add: Op_TakeNextTimedOut am ran TakeNextTimedOut_def)
    next
      case (Some i)
      from find_if_SomeD [OF Some] have i: "i < length (m_sessions m)" "expired (m_timeoutMs m) now (m_sessions m ! i)"
        by auto
      then have "m_sessions m ! i \<in> set (m_sessions m)" by simp
      with i Some abs_erase [OF inv i(1)] show ?thesis
        by (auto simp: Op_TakeNextTimedOut am ran TakeNextTimedOut_def)
    qed
  next
    case (Op_Remove q)
    show ?thesis
    proof (cases "find_if (\<lambda>s. sess_id s = q) (m_sessions m)")
      case None
      then have "\<forall>s \<in> set (m_sessions m). sess_id s \<noteq> q" by (simp add: find_if_None)
      with None show ?thesis by (simp add: Op_Remove am ran Remove_def)
    next
      case (Some i)
      from find_if_SomeD [OF Some] have i: "i < length (m_sessions m)" "sess_id (m_sessions m ! i) = q" by auto
      then have "m_sessions m ! i \<in> set (m_sessions m)" by simp
      with i Some abs_erase [OF inv i(1)] show ?thesis
        by (auto simp: Op_Remove am ran Remove_def)
    qed
  qed
qed

lemma find_if_distinct:
  "distinct (map sess_id xs) \<Longrightarrow> i < length xs \<Longrightarrow> find_if (\<lambda>s. sess_id s = sess_id (xs ! i)) xs = Some i"
proof (induction xs arbitrary: i)
  case (Cons x xs)
  show ?case
  proof (cases i)
    case (Suc j)
    with Cons.prems have "sess_id (xs ! j) \<in> sess_id ` set xs" by simp
    with Cons.prems have "sess_id x \<noteq> sess_id (xs ! j)" by (metis distinct.simps(2) list.set_map list.simps(9))
    with Cons Suc show ?thesis by simp
  qed simp
qed simp

section \<open>The seat of a player\<close>

lemma session_run_nextId:
  "unat (m_nextId (fold session_step ops m)) \<le> unat (m_nextId m) + length (filter is_Join ops)"
proof (induction ops arbitrary: m)
  case (Cons op ops)
  from Cons.IH [of "session_step op m"] session_step_nextId [of op m] show ?case by (simp split: if_splits)
qed simp

text \<open>A row is an old one, or the one that a join has just added.\<close>

lemma session_step_rows:
  "r \<in> set (rows (session_step op m)) \<Longrightarrow>
     r \<in> set (rows m) \<or> is_Join op \<and> fst r = m_nextId m \<and> m_nextId (session_step op m) = m_nextId m + 1"
proof (cases op)
  case (Op_Join e u v t)
  assume "r \<in> set (rows (session_step op m))"
  with Op_Join show ?thesis
    by (cases rule: Join_cases [of v e u t m]) (auto simp: rows_Touch, auto simp: rows_def)
next
  case (Op_TakeNextTimedOut now)
  assume "r \<in> set (rows (session_step op m))"
  then show ?thesis using erase_subset [of _ "rows m"]
    by (auto simp: Op_TakeNextTimedOut TakeNextTimedOut_def rows_erase split: option.splits)
next
  case (Op_Remove q)
  assume "r \<in> set (rows (session_step op m))"
  then show ?thesis using erase_subset [of _ "rows m"]
    by (auto simp: Op_Remove Remove_def rows_erase split: option.splits)
qed (simp_all add: sess_simps)

lemma session_step_nextId_mono:
  "(is_Join op \<Longrightarrow> unat (m_nextId m) < 2 ^ 32 - 1) \<Longrightarrow> unat (m_nextId m) \<le> unat (m_nextId (session_step op m))"
proof (cases op)
  case (Op_Join e u v t)
  assume "is_Join op \<Longrightarrow> unat (m_nextId m) < 2 ^ 32 - 1"
  then have "unat (m_nextId m + 1) = unat (m_nextId m) + 1" by (simp add: Op_Join unat_word_ariths)
  then show ?thesis by (cases rule: Join_cases [of v e u t m]) (simp_all add: Op_Join sess_simps)
qed (simp_all add: sess_simps)

text \<open>The id p was given out, and a session that has it is the one of u at e.\<close>

definition seat :: "PlayerId \<Rightarrow> string \<Rightarrow> Endpoint \<Rightarrow> SessionManager \<Rightarrow> bool" where
  "seat p u e m \<longleftrightarrow> unat p < unat (m_nextId m) \<and> (\<forall>r \<in> set (rows m). fst r = p \<longrightarrow> r = (p, u, e))"

lemma session_step_seat:
  assumes "seat p u e m" and "is_Join op \<Longrightarrow> unat (m_nextId m) < 2 ^ 32 - 1"
  shows "seat p u e (session_step op m)"
  using assms(1) session_step_nextId_mono [of op m, OF assms(2)] session_step_rows [of _ op m]
  by (fastforce simp: seat_def)

lemma session_run_seat:
  "seat p u e m \<Longrightarrow> unat (m_nextId m) + length (filter is_Join ops) < 2 ^ 32 \<Longrightarrow> seat p u e (fold session_step ops m)"
proof (induction ops arbitrary: m)
  case (Cons op ops)
  have "seat p u e (session_step op m)" by (rule session_step_seat) (use Cons.prems in simp_all)
  with Cons.IH [of "session_step op m"] Cons.prems session_step_nextId [of op m] show ?case by (simp split: if_splits)
qed simp

lemma ids_rows: "p \<in> sess_id ` set (m_sessions m) \<longleftrightarrow> p \<in> fst ` set (rows m)"
  by (simp add: rows_def image_image)

lemma session_run_gone:
  "unat p < unat (m_nextId m) \<Longrightarrow> p \<notin> sess_id ` set (m_sessions m) \<Longrightarrow>
   unat (m_nextId m) + length (filter is_Join ops) < 2 ^ 32 \<Longrightarrow> p \<notin> sess_id ` set (m_sessions (fold session_step ops m))"
proof (induction ops arbitrary: m)
  case (Cons op ops)
  have n: "is_Join op \<Longrightarrow> unat (m_nextId m) < 2 ^ 32 - 1" using Cons.prems(3) by simp
  have "p \<notin> sess_id ` set (m_sessions (session_step op m))"
    using session_step_rows [of _ op m] Cons.prems(1,2) unfolding ids_rows by fastforce
  with Cons.IH [of "session_step op m"] Cons.prems session_step_nextId_mono [of op m, OF n] session_step_nextId [of op m]
  show ?case by (simp split: if_splits)
qed simp

lemma Join_seat:
  assumes "Join e u v t m = (Accepted, p, m1)" and "ids_inv m" and "unat (m_nextId m) < 2 ^ 32 - 1"
  shows "seat p u e m1"
proof (cases rule: Join_cases [of v e u t m])
  case (accepted s)
  from assms(3) have n: "unat (m_nextId m + 1) = unat (m_nextId m) + 1" by (simp add: unat_word_ariths)
  from assms(2) have "fst r \<noteq> m_nextId m" if "r \<in> set (rows m)" for r using that by (auto simp: ids_inv_rows)
  moreover from accepted assms(1) have "rows m1 = rows m @ [(p, u, e)]" "p = m_nextId m" "m_nextId m1 = m_nextId m + 1"
    by (auto simp: rows_def)
  ultimately show ?thesis using n by (auto simp: seat_def)
qed (use assms(1) in simp_all)

lemma seat_Join:
  assumes "seat p u e m" and "sm_inv m" and "p \<in> sess_id ` set (m_sessions m)"
  shows "fst (Join e u' kVersion t' m) = AlreadyJoined \<and> fst (snd (Join e u' kVersion t' m)) = p"
    and "e' \<notin> sess_endpoint ` set (m_sessions m) \<Longrightarrow> fst (Join e' u kVersion t' m) = NameTaken"
proof -
  from assms(3) obtain s where s: "s \<in> set (m_sessions m)" "sess_id s = p" by auto
  then have "(sess_id s, sess_username s, sess_endpoint s) \<in> set (rows m)" by (auto simp: rows_def)
  with assms(1) s(2) have u: "sess_username s = u" "sess_endpoint s = e" by (auto simp: seat_def)
  show "fst (Join e u' kVersion t' m) = AlreadyJoined \<and> fst (snd (Join e u' kVersion t' m)) = p"
  proof (cases "Find_endpoint e m")
    case None
    with s u show ?thesis by (auto simp: Find_endpoint_None)
  next
    case (Some i)
    from Find_endpoint_SomeD [OF Some] have i: "i < length (m_sessions m)" "sess_endpoint (m_sessions m ! i) = e" by auto
    from s(1) obtain j where j: "j < length (m_sessions m)" "s = m_sessions m ! j" by (auto simp: in_set_conv_nth)
    have "i = j" using assms(2) i j u(2) by (auto simp: sm_inv_def distinct_conv_nth)
    with Some j s(2) show ?thesis by (simp add: Join_def)
  qed
  show "fst (Join e' u kVersion t' m) = NameTaken" if "e' \<notin> sess_endpoint ` set (m_sessions m)"
  proof -
    have "Find_endpoint e' m = None" using that by (simp add: Find_endpoint_None)
    then show ?thesis using s(1) u(1) by (cases rule: Join_cases [of kVersion e' u t' m]) auto
  qed
qed

text \<open>A player who joins and is removed, again and again.\<close>

fun churn :: "nat \<Rightarrow> session_op list" where
  "churn 0 = []"
| "churn (Suc k) =
     churn k @ [Op_Join \<lparr>address = 1, port = 1\<rparr> ''v'' kVersion 0, Op_Remove (word_of_nat (Suc k))]"

lemma churn_run:
  "0 < n \<Longrightarrow> fold session_step (churn k) (mk_SessionManager n t) =
     (mk_SessionManager n t)\<lparr>m_nextId := word_of_nat (Suc k)\<rparr>"
  by (induction k)
    (simp_all add: mk_SessionManager_def Join_def Find_endpoint_def kMaxStringSize_def Let_def Remove_def
      Session_default_def erase_def)

section \<open>Properties\<close>



text \<open>
  After any sequence of operations on a fresh manager: no two sessions share an endpoint or a
  name, every name is between 1 and 256 characters, and there are at most maxPlayers sessions.
\<close>

theorem manager_invariant:
  "let m = fold session_step ops (mk_SessionManager n t)
   in distinct (map sess_endpoint (m_sessions m)) \<and> distinct (map sess_username (m_sessions m)) \<and>
      list_all (\<lambda>s. sess_username s \<noteq> [] \<and> length (sess_username s) \<le> 256) (m_sessions m) \<and> Count m \<le> n"
proof -
  let ?m = "fold session_step ops (mk_SessionManager n t)"
  have "sm_inv ?m" by (rule session_run_inv [OF mk_SessionManager_inv(1)])
  moreover have "m_maxPlayers (session_step op m) = m_maxPlayers m" for op m
    by (cases op) (simp_all add: sess_simps Join_def Let_def split: option.splits)
  then have "m_maxPlayers (fold session_step ops m) = m_maxPlayers m" for m
    by (induction ops arbitrary: m) simp_all
  then have "m_maxPlayers ?m = n" by (simp add: mk_SessionManager_def)
  ultimately show ?thesis
    by (simp add: sm_inv_def Let_def list_all_iff name_ok_def Count_def)
qed

text \<open>
  While fewer than 2^32 - 1 joins were attempted, the ids of the sessions are distinct and never
  kInvalidPlayer, and the lookup by id finds the session that has it.
\<close>

theorem ids_unique:
  assumes "length (filter is_Join ops) < 2 ^ 32 - 1"
  shows "let m = fold session_step ops (mk_SessionManager n t)
    in distinct (map sess_id (m_sessions m)) \<and> kInvalidPlayer \<notin> sess_id ` set (m_sessions m) \<and>
       list_all (\<lambda>i. Find_id (sess_id (m_sessions m ! i)) m = Some i) [0..<Count m]"
proof -
  let ?m = "fold session_step ops (mk_SessionManager n t)"
  have "ids_inv ?m" using assms
    by (intro session_run_ids [OF mk_SessionManager_inv(2)]) (simp add: mk_SessionManager_def)
  then have d: "distinct (map sess_id (m_sessions ?m))" and z: "kInvalidPlayer \<notin> sess_id ` set (m_sessions ?m)"
    by (auto simp: ids_inv_def kInvalidPlayer_def)
  have "Find_id (sess_id (m_sessions ?m ! i)) ?m = Some i" if "i < Count ?m" for i
  proof -
    from that have i: "i < length (m_sessions ?m)" by (simp add: Count_def)
    then have "sess_id (m_sessions ?m ! i) \<noteq> kInvalidPlayer" using z nth_mem [OF i] by (metis image_eqI)
    with find_if_distinct [OF d i] show ?thesis by (simp add: Find_id_def)
  qed
  with d z show ?thesis by (simp add: Let_def list_all_iff)
qed

theorem ids_unique_witness:
  "let m = fold session_step [Op_Join \<lparr>address = 1, port = 1\<rparr> ''a'' kVersion 0,
       Op_Join \<lparr>address = 1, port = 2\<rparr> ''b'' kVersion 0] (mk_SessionManager 4 10)
   in kInvalidPlayer \<notin> sess_id ` set (m_sessions m)"
  using ids_unique [of "[Op_Join \<lparr>address = 1, port = 1\<rparr> ''a'' kVersion 0,
    Op_Join \<lparr>address = 1, port = 2\<rparr> ''b'' kVersion 0]" 4 10] by (simp add: Let_def)

text \<open>
  C34: The id counter is 32 bits and wraps without a check. In a run of fewer than 2^32 - 1 joins nobody
  is accepted with the id kInvalidPlayer, and after exactly 2^32 - 1 somebody is: his session is in the
  table, found by its endpoint and by no id.
\<close>

theorem id_wraps:
  "(\<forall>ops n tmo e u v t p m'. length (filter is_Join ops) < 2 ^ 32 - 1 \<longrightarrow>
      Join e u v t (fold session_step ops (mk_SessionManager n tmo)) = (Accepted, p, m') \<longrightarrow> p \<noteq> kInvalidPlayer) \<and>
   (\<exists>ops m'. length (filter is_Join ops) = 2 ^ 32 - 1 \<and>
      Join \<lparr>address = 2, port = 2\<rparr> ''w'' kVersion 0 (fold session_step ops (mk_SessionManager 32 10000)) =
        (Accepted, kInvalidPlayer, m') \<and>
      Count m' = 1 \<and> Find_endpoint \<lparr>address = 2, port = 2\<rparr> m' = Some 0 \<and> (\<forall>p. Find_id p m' = None))"
proof (intro conjI allI impI)
  fix ops n tmo e u v t p m'
  assume l: "length (filter is_Join ops) < 2 ^ 32 - 1"
    and j: "Join e u v t (fold session_step ops (mk_SessionManager n tmo)) = (Accepted, p, m')"
  have "ids_inv (fold session_step ops (mk_SessionManager n tmo))"
    by (rule session_run_ids [OF mk_SessionManager_inv(2)]) (use l in \<open>simp add: mk_SessionManager_def\<close>)
  with j show "p \<noteq> kInvalidPlayer"
    by (cases rule: Join_cases [of v e u t "fold session_step ops (mk_SessionManager n tmo)"])
      (auto simp: ids_inv_def kInvalidPlayer_def)
next
  have "Suc (2 ^ 32 - 1) = 2 ^ 32" by simp
  then have run: "fold session_step (churn (2 ^ 32 - 1)) (mk_SessionManager 32 10000) =
      (mk_SessionManager 32 10000)\<lparr>m_nextId := 0\<rparr>"
    by (subst churn_run) simp_all
  have "length (filter is_Join (churn k)) = k" for k by (induction k) simp_all
  with run show "\<exists>ops m'. length (filter is_Join ops) = 2 ^ 32 - 1 \<and>
      Join \<lparr>address = 2, port = 2\<rparr> ''w'' kVersion 0 (fold session_step ops (mk_SessionManager 32 10000)) =
        (Accepted, kInvalidPlayer, m') \<and>
      Count m' = 1 \<and> Find_endpoint \<lparr>address = 2, port = 2\<rparr> m' = Some 0 \<and> (\<forall>p. Find_id p m' = None)"
    by (intro exI [of _ "churn (2 ^ 32 - 1)"])
      (simp add: mk_SessionManager_def Join_def Find_endpoint_def kMaxStringSize_def Count_def
        Find_id_def kInvalidPlayer_def Session_default_def)
qed

theorem id_wraps_witness:
  "fst (snd (Join \<lparr>address = 1, port = 1\<rparr> ''a'' kVersion 0 (fold session_step [] (mk_SessionManager 4 10)))) \<noteq> kInvalidPlayer"
  by (rule id_wraps [THEN conjunct1, rule_format, of "[]" "\<lparr>address = 1, port = 1\<rparr>" "''a''" kVersion 0 4 10 _
      "snd (snd (Join \<lparr>address = 1, port = 1\<rparr> ''a'' kVersion 0 (mk_SessionManager 4 10)))"])
    (simp_all add: Join_def mk_SessionManager_def Find_endpoint_def kMaxStringSize_def Session_default_def)

text \<open>
  A repeated hello is idempotent: after an endpoint was accepted, any further hello of it with the
  right version, whatever name it carries, answers AlreadyJoined with the same id, and changes nothing
  but the time the session was last seen.
\<close>

theorem hello_idempotent:
  assumes "Join e u v t m = (Accepted, p, m')"
  shows "\<exists>m''. Join e u' kVersion t' m' = (AlreadyJoined, p, m'') \<and> rows m'' = rows m' \<and>
    m_nextId m'' = m_nextId m' \<and> map stateTick (m_sessions m'') = map stateTick (m_sessions m')"
proof (cases rule: Join_cases [of v e u t m])
  case (accepted s)
  with assms have m': "m' = m\<lparr>m_nextId := m_nextId m + 1, m_sessions := m_sessions m @ [s]\<rparr>" and p: "p = m_nextId m"
    by simp_all
  have "find_if P xs = None \<Longrightarrow> P s \<Longrightarrow> find_if P (xs @ [s]) = Some (length xs)" for P xs
    by (induction xs) (auto split: if_splits)
  with accepted have f: "Find_endpoint e m' = Some (length (m_sessions m))"
    by (simp add: Find_endpoint_def m')
  have "map stateTick ((m_sessions m')[i := (m_sessions m' ! i)\<lparr>lastSeenMs := t'\<rparr>]) = map stateTick (m_sessions m')" for i
    by (cases "i < length (m_sessions m')") (simp_all add: map_list_update_same list_update_beyond)
  then have st: "map stateTick (m_sessions (snd (Touch e t' m'))) = map stateTick (m_sessions m')"
    by (simp add: Touch_def f)
  have "Join e u' kVersion t' m' = (AlreadyJoined, p, snd (Touch e t' m'))"
    using f accepted(7) by (simp add: Join_def Touch_def m' p)
  with st show ?thesis by (simp add: sess_simps)
qed (use assms in simp_all)

theorem hello_idempotent_witness:
  "\<exists>m''. Join \<lparr>address = 1, port = 1\<rparr> ''other'' kVersion 9
     (snd (snd (Join \<lparr>address = 1, port = 1\<rparr> ''a'' kVersion 0 (mk_SessionManager 2 10)))) = (AlreadyJoined, 1, m'')"
  using hello_idempotent [of "\<lparr>address = 1, port = 1\<rparr>" "''a''" kVersion 0 "mk_SessionManager 2 10" 1
      "snd (snd (Join \<lparr>address = 1, port = 1\<rparr> ''a'' kVersion 0 (mk_SessionManager 2 10)))" "''other''" 9]
  by (auto simp: Join_def mk_SessionManager_def Find_endpoint_def kMaxStringSize_def Let_def Session_default_def)

text \<open>
  C14: The vector of sessions implements a finite map from endpoints to sessions: from every reachable
  state, every operation is a step of the abstract manager, in which a join inserts, Touch and
  ApplyState update one entry, and the timeout and Remove delete one entry that qualifies, if any.
\<close>

theorem manager_refines_map:
  "let m = fold session_step ops (mk_SessionManager n t)
   in abs_step op (abs_manager m) (abs_manager (session_step op m))"
  unfolding Let_def by (rule session_step_simulates [OF session_run_inv [OF mk_SessionManager_inv(1)]])

text \<open>
  State updates may be reordered and duplicated by the network: two deliveries of the same set of
  updates (each tick carrying one state) to a session that had none leave the same snapshot, the one
  with the largest tick.
\<close>

theorem server_latest_wins:
  assumes "session_snapshot e m = None" and "Find_endpoint e m \<noteq> None"
    and "set xs = set ys" and "inj_on fst (set xs)"
  shows "let after = (\<lambda>zs. session_snapshot e (fold (\<lambda>(t, p) m. snd (ApplyState e t (fst p) (snd p) m)) zs m))
    in after xs = after ys \<and>
       (case after xs of None \<Rightarrow> xs = [] | Some (k, p) \<Rightarrow> (k, p) \<in> set xs \<and> k = Max (fst ` set xs))"
proof -
  have f: "\<forall>(t, p) \<in> set xs. \<forall>(t', p') \<in> set xs. t = t' \<longrightarrow> p = p'"
    using assms(4) unfolding inj_on_def by fastforce
  have o: "session_snapshot e (server_latest.deliver e xs m) = session_snapshot e (server_latest.deliver e ys m)"
    using server_latest.deliver_order_irrelevant [of e m m xs ys] assms f by auto
  have c: "case session_snapshot e (server_latest.deliver e xs m) of None \<Rightarrow> xs = []
      | Some (k, p) \<Rightarrow> (k, p) \<in> set xs \<and> (\<forall>(t, p) \<in> set xs. t \<le> k)"
    using server_latest.deliver_cur [of e m xs] assms by (auto split: option.splits)
  have "k = Max (fst ` set xs)" if "(k, p) \<in> set xs" "\<forall>(t, p) \<in> set xs. t \<le> k" for k p
  proof (rule Max_eqI [symmetric])
    show "k \<in> fst ` set xs" using that(1) by force
  qed (use that(2) in auto)
  with o c show ?thesis
    unfolding Let_def server_latest.deliver_def by (auto split: option.splits)
qed

theorem server_latest_wins_witness:
  "let m = snd (snd (Join \<lparr>address = 1, port = 1\<rparr> ''a'' kVersion 0 (mk_SessionManager 2 10)));
       after = (\<lambda>zs. session_snapshot \<lparr>address = 1, port = 1\<rparr>
         (fold (\<lambda>(t, p) m. snd (ApplyState \<lparr>address = 1, port = 1\<rparr> t (fst p) (snd p) m)) zs m))
   in after [(5, (0, 0, 0), 0), (3, (1, 1, 1), 1)] = after [(3, (1, 1, 1), 1), (5, (0, 0, 0), 0), (3, (1, 1, 1), 1)]"
  using server_latest_wins [of "\<lparr>address = 1, port = 1\<rparr>"
      "snd (snd (Join \<lparr>address = 1, port = 1\<rparr> ''a'' kVersion 0 (mk_SessionManager 2 10)))"
      "[(5, (0, 0, 0), 0), (3, (1, 1, 1), 1)]" "[(3, (1, 1, 1), 1), (5, (0, 0, 0), 0), (3, (1, 1, 1), 1)]"]
  by (auto simp: Let_def Join_def mk_SessionManager_def Find_endpoint_def kMaxStringSize_def Session_default_def
      session_snapshot_def)

end
