(* ===== verification/Task_Queue.thy ===== *)
theory Task_Queue imports
  Prelude
  "HOL-Library.Multiset"
begin

text \<open>
  src/src/common/TaskQueue.hpp: the queue that carries work from the network thread to the game
  tick.

  A task is a token of any type; what its body does is the argument exec of the drain: it maps the
  state the bodies share to the new state and the list of tasks the body pushed. A push of an
  empty std::function is \<^const>\<open>None\<close>. Drain is split as the code splits it: the slice taken
  under the lock, then the bodies, run outside it. The locale work_queue is the contract of every
  swap-out queue of the program; the step relation tq_step interleaves any number of threads that
  push and drain.
\<close>

section \<open>The operations\<close>

type_synonym 't queue = "'t list"

definition Push :: "'t option \<Rightarrow> 't queue \<Rightarrow> 't queue" where
  "Push aTask q = (case aTask of None \<Rightarrow> q | Some t \<Rightarrow> q @ [t])"

text \<open>The critical section of Drain: the tasks to run, and what stays queued.\<close>

definition Drain_take :: "nat \<Rightarrow> 't queue \<Rightarrow> 't list \<times> 't queue" where
  "Drain_take aBudget q =
     (if q = [] then ([], q)
      else if aBudget = 0 \<or> length q \<le> aBudget then (q, [])
      else (take aBudget q, drop aBudget q))"

text \<open>The bodies, in order; a body may push.\<close>

fun run_tasks :: "('t \<Rightarrow> 's \<Rightarrow> 's \<times> 't option list) \<Rightarrow> 't list \<Rightarrow> 's \<Rightarrow> 't queue \<Rightarrow> 's \<times> 't queue" where
  "run_tasks exec [] s q = (s, q)"
| "run_tasks exec (t # ts) s q =
     (case exec t s of (s', pushed) \<Rightarrow> run_tasks exec ts s' (fold Push pushed q))"

definition Drain :: "('t \<Rightarrow> 's \<Rightarrow> 's \<times> 't option list) \<Rightarrow> nat \<Rightarrow> 's \<Rightarrow> 't queue \<Rightarrow> nat \<times> 's \<times> 't queue" where
  "Drain exec aBudget s q =
     (case Drain_take aBudget q of (running, q') \<Rightarrow>
        (case run_tasks exec running s q' of (s', q'') \<Rightarrow> (length running, s', q'')))"

definition Pending :: "'t queue \<Rightarrow> nat" where
  "Pending q = length q"

definition Clear :: "'t queue \<Rightarrow> 't queue" where
  "Clear q = []"

section \<open>The contract of a swap-out queue\<close>

text \<open>
  A producer pushes one item at the end; a consumer takes a prefix, everything when it asks with
  budget 0. The same contract holds of the event queue of the client and the kick queue of the
  script host.
\<close>

datatype 't queue_op = Op_push 't | Op_take nat

fun pushes :: "'t queue_op list \<Rightarrow> 't list" where
  "pushes [] = []"
| "pushes (Op_push t # ops) = t # pushes ops"
| "pushes (Op_take n # ops) = pushes ops"

fun queue_run ::
  "('t \<Rightarrow> 'q \<Rightarrow> 'q) \<Rightarrow> (nat \<Rightarrow> 'q \<Rightarrow> 't list \<times> 'q) \<Rightarrow> 't queue_op list \<Rightarrow> 'q \<Rightarrow> 't list \<times> 'q" where
  "queue_run push tk [] q = ([], q)"
| "queue_run push tk (Op_push t # ops) q = queue_run push tk ops (push t q)"
| "queue_run push tk (Op_take n # ops) q =
     (case tk n q of (xs, q') \<Rightarrow> (case queue_run push tk ops q' of (ys, q'') \<Rightarrow> (xs @ ys, q'')))"

locale work_queue =
  fixes push :: "'t \<Rightarrow> 'q \<Rightarrow> 'q"
    and tk :: "nat \<Rightarrow> 'q \<Rightarrow> 't list \<times> 'q"
    and contents :: "'q \<Rightarrow> 't list"
  assumes contents_push: "contents (push t q) = contents q @ [t]"
    and take_prefix: "tk n q = (xs, q') \<Longrightarrow> contents q = xs @ contents q'"
    and take_all: "tk 0 q = (xs, q') \<Longrightarrow> contents q' = []"
begin

text \<open>Whatever the interleaving of pushes and takes, what came out and what is left is what went in.\<close>

lemma run_fifo:
  "queue_run push tk ops q = (out, q') \<Longrightarrow> out @ contents q' = contents q @ pushes ops"
proof (induction ops arbitrary: q out)
  case (Cons op ops)
  show ?case
  proof (cases op)
    case (Op_push t)
    then show ?thesis using Cons.IH [of "push t q" out] Cons.prems by (simp add: contents_push)
  next
    case (Op_take n)
    obtain xs q1 where t: "tk n q = (xs, q1)" by fastforce
    with Op_take Cons.prems obtain ys where
      ys: "queue_run push tk ops q1 = (ys, q')" "out = xs @ ys"
      by (auto split: prod.splits)
    from Cons.IH [OF ys(1)] take_prefix [OF t] ys(2) Op_take show ?thesis by simp
  qed
qed simp

text \<open>A final take of everything leaves nothing behind.\<close>

lemma run_drained:
  assumes "queue_run push tk (ops @ [Op_take 0]) q = (out, q')"
  shows "out = contents q @ pushes ops" and "contents q' = []"
proof -
  have app: "queue_run push tk (ops @ [Op_take 0]) q = (out, q') \<Longrightarrow> \<exists>q1 xs. tk 0 q1 = (xs, q')"
    for q out
  proof (induction ops arbitrary: q out)
    case (Cons op ops)
    then show ?case by (cases op) (fastforce split: prod.splits)+
  qed (auto split: prod.splits)
  from app [OF assms] show e: "contents q' = []" using take_all by blast
  have "pushes (ops @ [Op_take 0]) = pushes ops"
    by (induction ops rule: pushes.induct) simp_all
  with run_fifo [OF assms] e show "out = contents q @ pushes ops" by simp
qed

end

lemma Drain_take_prefix: "Drain_take n q = (xs, q') \<Longrightarrow> q = xs @ q'"
  by (auto simp: Drain_take_def split: if_splits)

lemma Drain_take_budget: "Drain_take n q = (xs, q') \<Longrightarrow> 0 < n \<Longrightarrow> length xs = min n (length q)"
  by (auto simp: Drain_take_def split: if_splits)

lemma Drain_take_zero: "Drain_take 0 q = (q, [])"
  by (simp add: Drain_take_def)

interpretation task_queue: work_queue "\<lambda>t. Push (Some t)" Drain_take "\<lambda>q. q"
  by unfold_locales (auto simp: Push_def Drain_take_prefix Drain_take_zero)

section \<open>Draining, sequentially\<close>

text \<open>The tasks pushed by the bodies that ran.\<close>

fun spawned :: "('t \<Rightarrow> 's \<Rightarrow> 's \<times> 't option list) \<Rightarrow> 't list \<Rightarrow> 's \<Rightarrow> 't list" where
  "spawned exec [] s = []"
| "spawned exec (t # ts) s =
     (case exec t s of (s', pushed) \<Rightarrow> List.map_filter id pushed @ spawned exec ts s')"

fun effect :: "('t \<Rightarrow> 's \<Rightarrow> 's \<times> 't option list) \<Rightarrow> 't list \<Rightarrow> 's \<Rightarrow> 's" where
  "effect exec [] s = s"
| "effect exec (t # ts) s = effect exec ts (fst (exec t s))"

lemma fold_Push: "fold Push ts q = q @ List.map_filter id ts"
  by (induction ts arbitrary: q) (auto simp: Push_def map_filter_simps split: option.splits)

lemma run_tasks_eq: "run_tasks exec ts s q = (effect exec ts s, q @ spawned exec ts s)"
  by (induction ts arbitrary: s q) (simp_all add: fold_Push split: prod.splits)

section \<open>Draining from several threads\<close>

text \<open>
  Each thread has the batch it is running; a push and the critical section of a drain are atomic
  (the mutex), the bodies run one at a time outside the lock. pushed and ran record what was ever
  pushed and what was ever run.
\<close>

record 't tq_sys =
  pending :: "'t list"
  batches :: "'t list list"
  pushed :: "'t list"
  ran :: "'t list"

inductive tq_step :: "'t tq_sys \<Rightarrow> 't tq_sys \<Rightarrow> bool" where
  step_push: "tq_step s (s\<lparr>pending := Push (Some t) (pending s), pushed := pushed s @ [t]\<rparr>)"
| step_take: "i < length (batches s) \<Longrightarrow> batches s ! i = [] \<Longrightarrow> Drain_take n (pending s) = (xs, q) \<Longrightarrow>
    tq_step s (s\<lparr>pending := q, batches := (batches s)[i := xs]\<rparr>)"
| step_run: "i < length (batches s) \<Longrightarrow> batches s ! i = t # ts \<Longrightarrow>
    tq_step s (s\<lparr>batches := (batches s)[i := ts], ran := ran s @ [t]\<rparr>)"

inductive_cases tq_stepE: "tq_step s s'"

definition tq_init :: "nat \<Rightarrow> 't tq_sys" where
  "tq_init n = \<lparr>pending = [], batches = replicate n [], pushed = [], ran = []\<rparr>"

inductive tq_reach :: "nat \<Rightarrow> 't tq_sys \<Rightarrow> bool" for n where
  reach_init: "tq_reach n (tq_init n)"
| reach_step: "tq_reach n s \<Longrightarrow> tq_step s s' \<Longrightarrow> tq_reach n s'"

text \<open>Every pushed task is queued, in one batch, or has run: with its multiplicity.\<close>

definition tq_inv :: "'t tq_sys \<Rightarrow> bool" where
  "tq_inv s \<longleftrightarrow> mset (pushed s) = mset (pending s) + mset (concat (batches s)) + mset (ran s)"

lemma mset_concat_update:
  "i < length xss \<Longrightarrow> mset (concat (xss[i := ys])) + mset (xss ! i) = mset (concat xss) + mset ys"
proof (induction xss arbitrary: i)
  case (Cons xs xss)
  then show ?case by (cases i) (auto simp: ac_simps)
qed simp

lemma tq_step_inv: "tq_step s s' \<Longrightarrow> tq_inv s \<Longrightarrow> tq_inv s'"
proof (induction rule: tq_step.induct)
  case (step_push s t)
  then show ?case by (simp add: tq_inv_def Push_def)
next
  case (step_take i s n xs q)
  then show ?case
    using mset_concat_update [OF step_take(1), of xs] Drain_take_prefix [OF step_take(3)]
    by (simp add: tq_inv_def ac_simps)
next
  case (step_run i s t ts)
  have "mset (concat ((batches s)[i := ts])) + {#t#} + mset ts = mset (concat (batches s)) + mset ts"
    using mset_concat_update [OF step_run(1), of ts] step_run(2) by simp
  then show ?case using step_run(3) by (simp add: tq_inv_def ac_simps)
qed

lemma tq_reach_inv: "tq_reach n s \<Longrightarrow> tq_inv s"
proof (induction rule: tq_reach.induct)
  case reach_init
  have "concat (replicate n []) = []" by (induction n) simp_all
  then show ?case by (simp add: tq_inv_def tq_init_def)
qed (rule tq_step_inv)

text \<open>With a single draining thread the order is the order of the pushes.\<close>

definition tq_ordered :: "'t tq_sys \<Rightarrow> bool" where
  "tq_ordered s \<longleftrightarrow> (\<exists>xs. batches s = [xs] \<and> pushed s = ran s @ xs @ pending s)"

lemma tq_step_ordered: "tq_step s s' \<Longrightarrow> tq_ordered s \<Longrightarrow> tq_ordered s'"
  by (induction rule: tq_step.induct)
    (auto simp: tq_ordered_def Push_def dest!: Drain_take_prefix)

lemma tq_reach_ordered: "tq_reach (Suc 0) s \<Longrightarrow> tq_ordered s"
proof (induction rule: tq_reach.induct)
  case reach_init
  then show ?case by (simp add: tq_ordered_def tq_init_def)
qed (rule tq_step_ordered)

section \<open>Draining again and again\<close>

text \<open>One drain per tick, each with the same budget.\<close>

fun drains :: "('t \<Rightarrow> 's \<Rightarrow> 's \<times> 't option list) \<Rightarrow> nat \<Rightarrow> nat \<Rightarrow> 's \<Rightarrow> 't queue \<Rightarrow> 's \<times> 't queue" where
  "drains exec b 0 s q = (s, q)"
| "drains exec b (Suc k) s q = (case Drain exec b s q of (n, s', q') \<Rightarrow> drains exec b k s' q')"

definition batch :: "nat \<Rightarrow> 't queue \<Rightarrow> 't list" where
  "batch b q = (if b = 0 then q else take b q)"

definition leftover :: "nat \<Rightarrow> 't queue \<Rightarrow> 't queue" where
  "leftover b q = (if b = 0 then [] else drop b q)"

lemma Drain_take_eq: "Drain_take b q = (batch b q, leftover b q)"
  by (auto simp: Drain_take_def batch_def leftover_def)

lemma Drain_eq:
  "Drain exec b s q = (length (batch b q), effect exec (batch b q) s, leftover b q @ spawned exec (batch b q) s)"
  by (simp add: Drain_def Drain_take_eq run_tasks_eq)

lemma effect_append: "effect exec (xs @ ys) s = effect exec ys (effect exec xs s)"
  by (induction xs arbitrary: s) simp_all

lemma spawned_none: "(\<And>t s. snd (exec t s) = []) \<Longrightarrow> spawned exec ts s = []"
  by (induction ts arbitrary: s) (simp_all add: case_prod_beta map_filter_simps)

lemma drains_eq:
  assumes "\<And>t s. snd (exec t s) = []" and "0 < b"
  shows "drains exec b k s q = (effect exec (take (k * b) q) s, drop (k * b) q)"
  using assms(2)
proof (induction k arbitrary: s q)
  case (Suc k)
  have "take (b + k * b) q = take b q @ take (k * b) (drop b q)" by (rule take_add)
  then show ?case using Suc
    by (simp add: Drain_eq batch_def leftover_def spawned_none [OF assms(1)] effect_append add.commute)
qed simp

section \<open>Properties\<close>

text \<open>
  C5: However pushes from any thread and drains by any number of threads interleave, no task is lost
  or run twice: the tasks ever pushed are, with their multiplicities, those still queued, those in
  the batch of some drain, and those that have run.
\<close>

theorem exactly_once:
  assumes "tq_reach n s"
  shows "mset (pushed s) = mset (pending s) + mset (concat (batches s)) + mset (ran s)"
  using tq_reach_inv [OF assms] by (simp add: tq_inv_def)

theorem exactly_once_witness:
  "\<exists>s. tq_reach 2 s \<and> ran s = [7::nat] \<and> batches s = [[], []] \<and> mset (pushed s) = mset (pending s) + {#7#}"
proof -
  let ?s1 = "(tq_init 2)\<lparr>pending := Push (Some 7) (pending (tq_init 2)), pushed := pushed (tq_init 2) @ [7::nat]\<rparr>"
  let ?s2 = "?s1\<lparr>pending := [], batches := (batches ?s1)[0 := [7]]\<rparr>"
  let ?s3 = "?s2\<lparr>batches := (batches ?s2)[0 := []], ran := ran ?s2 @ [7]\<rparr>"
  have "tq_reach 2 ?s1" by (rule reach_step [OF reach_init step_push])
  then have "tq_reach 2 ?s2"
    by (rule reach_step [OF _ step_take [where n = 0]]) (simp_all add: tq_init_def Push_def Drain_take_def)
  then have 3: "tq_reach 2 ?s3"
    by (rule reach_step [OF _ step_run]) (simp_all add: tq_init_def)
  from exactly_once [OF this] 3 show ?thesis
    by (intro exI [of _ ?s3]) (simp add: tq_init_def numeral_2_eq_2)
qed

text \<open>
  With one thread draining, which is how the game tick uses it, tasks run in the order in which
  they were pushed, by whichever threads: what ran, the batch being run and the queue are, in this
  order, exactly what was pushed.
\<close>

theorem tick_is_fifo:
  assumes "tq_reach 1 s"
  shows "\<exists>running. batches s = [running] \<and> pushed s = ran s @ running @ pending s"
  using tq_reach_ordered [of s] assms by (simp add: tq_ordered_def)

theorem tick_is_fifo_witness:
  "\<exists>running. batches (tq_init 1 :: nat tq_sys) = [running] \<and> [] = [] @ running @ []"
  using tick_is_fifo [of "tq_init 1 :: nat tq_sys"] reach_init [of 1] by (simp add: tq_init_def)

text \<open>
  Drain runs the oldest tasks, all of them with budget 0 and at most the budget otherwise, in
  order, and returns how many. What it did not run keeps its place, and whatever the bodies push
  stands behind it: it runs in a later drain, never in this one.
\<close>

theorem Drain_spec:
  "Drain exec b s q =
     (let running = (if b = 0 then q else take b q)
      in (length running, effect exec running s, (if b = 0 then [] else drop b q) @ spawned exec running s))"
  by (simp add: Drain_eq batch_def leftover_def Let_def)

text \<open>
  A budget delays work and never starves it: when the bodies push nothing more, k drains with a
  positive budget b have run exactly the first k * b tasks, so a queue of n tasks is empty after
  n div b + 1 ticks.
\<close>

theorem budget_no_starvation:
  assumes "\<And>t s. snd (exec t s) = []" and "0 < b"
  shows "drains exec b k s q = (effect exec (take (k * b) q) s, drop (k * b) q) \<and>
    drains exec b (length q div b + 1) s q = (effect exec q s, [])"
proof -
  have "length q \<le> (length q div b + 1) * b"
    using assms(2) by (metis add.commute mult.commute plus_1_eq_Suc dividend_less_times_div less_imp_le mult_Suc_right)
  then show ?thesis unfolding drains_eq [OF assms] by simp
qed

theorem budget_no_starvation_witness:
  "drains (\<lambda>t s. (s @ [t], [])) 2 2 [] [1, 2, 3::nat] = ([1, 2, 3], [])"
  using budget_no_starvation [of "\<lambda>t s. (s @ [t], [])" 2 2 "[]" "[1, 2, 3::nat]"] by simp

end
