(* ===== verification/Ieee_Float.thy ===== *)
theory Ieee_Float imports
  Prelude
begin

text \<open>
  The floating point arithmetic that the client uses: float and double are IEEE 754 binary32 and
  binary64, the arithmetic rounds to nearest, ties to even. A float is its bit pattern. An operation
  decodes its arguments to exact values, computes the exact result as a fraction times a power of two,
  and rounds it once. All of it is on natural numbers and integers, so it can be evaluated. One NaN is
  produced, the quiet one without payload.
\<close>

section \<open>Formats and exact values\<close>

type_synonym f64 = "64 word"

text \<open>prec counts the hidden bit; ebits is the width of the exponent field.\<close>

record fmt =
  prec :: nat
  ebits :: nat

definition binary32 :: fmt where "binary32 = \<lparr>prec = 24, ebits = 8\<rparr>"
definition binary64 :: fmt where "binary64 = \<lparr>prec = 53, ebits = 11\<rparr>"

text \<open>The exponent of the last bit of the subnormal numbers: -149 and -1074.\<close>

definition lsb_min :: "fmt \<Rightarrow> int" where
  "lsb_min f = 3 - 2 ^ (ebits f - 1) - int (prec f)"

text \<open>XFrac s n d e is n / d * 2^e with the sign s; zero keeps its sign.\<close>

datatype exact = XNaN | XInf bool | XFrac bool nat nat int

definition decode :: "fmt \<Rightarrow> nat \<Rightarrow> exact" where
  "decode f b =
     (let p = prec f - 1; s = odd (b div 2 ^ (p + ebits f)); ex = (b div 2 ^ p) mod 2 ^ ebits f; m = b mod 2 ^ p
      in if ex = 2 ^ ebits f - 1 then (if m = 0 then XInf s else XNaN)
         else if ex = 0 then XFrac s m 1 (lsb_min f)
         else XFrac s (m + 2 ^ p) 1 (lsb_min f + int ex - 1))"

section \<open>Rounding\<close>

fun bitlen :: "nat \<Rightarrow> nat" where
  "bitlen n = (if n = 0 then 0 else Suc (bitlen (n div 2)))"

declare bitlen.simps [simp del]

text \<open>n / d * 2^e in units of 2^e', as a fraction.\<close>

definition scale :: "nat \<Rightarrow> nat \<Rightarrow> int \<Rightarrow> int \<Rightarrow> nat \<times> nat" where
  "scale n d e e' = (if e' \<le> e then (n * 2 ^ nat (e - e'), d) else (n, d * 2 ^ nat (e' - e)))"

text \<open>The unit in which the rounded result is an integer of at most prec bits.\<close>

definition unit_exp :: "fmt \<Rightarrow> nat \<Rightarrow> nat \<Rightarrow> int \<Rightarrow> int" where
  "unit_exp f n d e =
     (let e0 = max (lsb_min f) (e + int (bitlen n) - int (bitlen d) - int (prec f));
          (a, b) = scale n d e e0
      in if a div b < 2 ^ prec f then e0 else e0 + 1)"

definition div_even :: "nat \<Rightarrow> nat \<Rightarrow> nat" where
  "div_even a b =
     (let q = a div b; r = a mod b
      in if 2 * r > b \<or> (2 * r = b \<and> odd q) then q + 1 else q)"

text \<open>The magnitude bits of a rounded fraction, and the whole pattern with the sign.\<close>

definition round_mag :: "fmt \<Rightarrow> nat \<Rightarrow> nat \<Rightarrow> int \<Rightarrow> nat" where
  "round_mag f n d e =
     (let e' = unit_exp f n d e; (a, b) = scale n d e e';
          bits = nat (e' - lsb_min f) * 2 ^ (prec f - 1) + div_even a b;
          inf = (2 ^ ebits f - 1) * 2 ^ (prec f - 1)
      in if n = 0 then 0 else min bits inf)"

definition sign_bit :: "fmt \<Rightarrow> bool \<Rightarrow> nat" where
  "sign_bit f s = (if s then 2 ^ (prec f - 1 + ebits f) else 0)"

definition round_exact :: "fmt \<Rightarrow> exact \<Rightarrow> nat" where
  "round_exact f x =
     (case x of
        XNaN \<Rightarrow> (2 ^ ebits f - 1) * 2 ^ (prec f - 1) + 2 ^ (prec f - 2)
      | XInf s \<Rightarrow> sign_bit f s + (2 ^ ebits f - 1) * 2 ^ (prec f - 1)
      | XFrac s n d e \<Rightarrow> sign_bit f s + round_mag f n d e)"

section \<open>Exact arithmetic\<close>

definition x_neg :: "exact \<Rightarrow> exact" where
  "x_neg x = (case x of XNaN \<Rightarrow> XNaN | XInf s \<Rightarrow> XInf (\<not> s) | XFrac s n d e \<Rightarrow> XFrac (\<not> s) n d e)"

definition signed :: "bool \<Rightarrow> nat \<Rightarrow> int" where
  "signed s n = (if s then - int n else int n)"

text \<open>Sums, quotients and remainders are taken of decoded floats, whose denominator is 1.\<close>

definition x_add :: "exact \<Rightarrow> exact \<Rightarrow> exact" where
  "x_add x y =
     (case (x, y) of
        (XFrac s n _ e, XFrac s' n' _ e') \<Rightarrow>
          (let e0 = min e e'; v = signed s n * 2 ^ nat (e - e0) + signed s' n' * 2 ^ nat (e' - e0)
           in XFrac (if v = 0 then s \<and> s' else v < 0) (nat \<bar>v\<bar>) 1 e0)
      | (XNaN, _) \<Rightarrow> XNaN
      | (_, XNaN) \<Rightarrow> XNaN
      | (XInf s, XInf s') \<Rightarrow> if s = s' then XInf s else XNaN
      | (XInf s, _) \<Rightarrow> XInf s
      | (_, XInf s) \<Rightarrow> XInf s)"

definition x_mul :: "exact \<Rightarrow> exact \<Rightarrow> exact" where
  "x_mul x y =
     (case (x, y) of
        (XFrac s n _ e, XFrac s' n' _ e') \<Rightarrow> XFrac (s \<noteq> s') (n * n') 1 (e + e')
      | (XNaN, _) \<Rightarrow> XNaN
      | (_, XNaN) \<Rightarrow> XNaN
      | (XInf s, XInf s') \<Rightarrow> XInf (s \<noteq> s')
      | (XInf s, XFrac s' n _ _) \<Rightarrow> if n = 0 then XNaN else XInf (s \<noteq> s')
      | (XFrac s n _ _, XInf s') \<Rightarrow> if n = 0 then XNaN else XInf (s \<noteq> s'))"

definition x_div :: "exact \<Rightarrow> exact \<Rightarrow> exact" where
  "x_div x y =
     (case (x, y) of
        (XFrac s n _ e, XFrac s' n' _ e') \<Rightarrow>
          if n' = 0 then (if n = 0 then XNaN else XInf (s \<noteq> s'))
          else XFrac (s \<noteq> s') n n' (e - e')
      | (XNaN, _) \<Rightarrow> XNaN
      | (_, XNaN) \<Rightarrow> XNaN
      | (XInf _, XInf _) \<Rightarrow> XNaN
      | (XInf s, XFrac s' _ _ _) \<Rightarrow> XInf (s \<noteq> s')
      | (XFrac s _ _ _, XInf s') \<Rightarrow> XFrac (s \<noteq> s') 0 1 0)"

text \<open>fmod: the remainder of the division truncated towards zero, exact, with the sign of x.\<close>

definition x_fmod :: "exact \<Rightarrow> exact \<Rightarrow> exact" where
  "x_fmod x y =
     (case (x, y) of
        (XFrac s n _ e, XFrac _ n' _ e') \<Rightarrow>
          if n' = 0 then XNaN
          else (let e0 = min e e'
                in XFrac s ((n * 2 ^ nat (e - e0)) mod (n' * 2 ^ nat (e' - e0))) 1 e0)
      | (XFrac s n d e, XInf _) \<Rightarrow> XFrac s n d e
      | _ \<Rightarrow> XNaN)"

definition x_is_zero :: "exact \<Rightarrow> bool" where
  "x_is_zero x = (case x of XFrac _ n _ _ \<Rightarrow> n = 0 | _ \<Rightarrow> False)"

section \<open>The operations on bit patterns\<close>

definition lift2 :: "fmt \<Rightarrow> (exact \<Rightarrow> exact \<Rightarrow> exact) \<Rightarrow> nat \<Rightarrow> nat \<Rightarrow> nat" where
  "lift2 f g a b = round_exact f (g (decode f a) (decode f b))"

definition f32_op :: "(exact \<Rightarrow> exact \<Rightarrow> exact) \<Rightarrow> f32 \<Rightarrow> f32 \<Rightarrow> f32" where
  "f32_op g a b = word_of_nat (lift2 binary32 g (unat a) (unat b))"

definition f32_add :: "f32 \<Rightarrow> f32 \<Rightarrow> f32" where "f32_add = f32_op x_add"
definition f32_sub :: "f32 \<Rightarrow> f32 \<Rightarrow> f32" where "f32_sub = f32_op (\<lambda>x y. x_add x (x_neg y))"
definition f32_mul :: "f32 \<Rightarrow> f32 \<Rightarrow> f32" where "f32_mul = f32_op x_mul"
definition f32_div :: "f32 \<Rightarrow> f32 \<Rightarrow> f32" where "f32_div = f32_op x_div"
definition f32_fmod :: "f32 \<Rightarrow> f32 \<Rightarrow> f32" where "f32_fmod = f32_op x_fmod"

definition f32_is_zero :: "f32 \<Rightarrow> bool" where
  "f32_is_zero a = x_is_zero (decode binary32 (unat a))"

text \<open>static_cast of an unsigned 64-bit integer.\<close>

definition f32_of_u64 :: "u64 \<Rightarrow> f32" where
  "f32_of_u64 n = word_of_nat (round_exact binary32 (XFrac False (unat n) 1 0))"

definition f64_of_u64 :: "u64 \<Rightarrow> f64" where
  "f64_of_u64 n = word_of_nat (round_exact binary64 (XFrac False (unat n) 1 0))"

definition f64_div :: "f64 \<Rightarrow> f64 \<Rightarrow> f64" where
  "f64_div a b = word_of_nat (lift2 binary64 x_div (unat a) (unat b))"

end
