(* ===== verification/Net_Client.thy ===== *)
theory Net_Client imports
  Session
  Task_Queue
  Ieee_Float
  "HOL-Library.AList"
begin

text \<open>
  src/src/client/NetClient.hpp and NetClient.cpp: the client's end of the connection.

  The state is the object: the socket and the server's endpoint, the connection state, the counters,
  the table of remote snapshots, the queue of join and leave events, and, beside them, the task queue it
  pushes to and the datagrams it handed to the socket. A turn of the loop of Run is a function of the
  times it reads from the clock and of what RecvFrom returned; the loop is a run over a list of these,
  and what the locals of Run hold is part of its state. The clock and the socket calls are inputs. The
  table m_remote is an association list without duplicate keys: the order in which an unordered_map is
  iterated is left to the argument order of CopyRemoteSnapshots. Log lines are not modelled.
\<close>

section \<open>State\<close>

definition kPollMs :: u32 where "kPollMs = 50"
definition kHelloRetryMs :: u32 where "kHelloRetryMs = 500"
definition kMaxHelloAttempts :: u32 where "kMaxHelloAttempts = 10"
definition kPingIntervalMs :: u32 where "kPingIntervalMs = 1000"
definition kServerTimeoutMs :: u64 where "kServerTimeoutMs = 8000"

datatype NetState = Disconnected | Connecting | Connected | Refused

fun NetState_ToString :: "NetState \<Rightarrow> string" where
  "NetState_ToString Disconnected = ''disconnected''"
| "NetState_ToString Connecting = ''connecting''"
| "NetState_ToString Connected = ''connected''"
| "NetState_ToString Refused = ''refused''"

record RemoteSnapshot =
  snap_tick :: u64
  snap_x :: f32
  snap_y :: f32
  snap_z :: f32
  snap_rotation :: f32

definition RemoteSnapshot_default :: RemoteSnapshot where
  "RemoteSnapshot_default = \<lparr>snap_tick = 0, snap_x = 0, snap_y = 0, snap_z = 0, snap_rotation = 0\<rparr>"

record RemoteEvent =
  ev_joined :: bool
  ev_playerId :: u32
  ev_username :: string

text \<open>
  The bodies that anything in the plugin pushes to its one task queue: the lambda with which the client
  counts a pong on the game thread, and the one of WorldSystem::PostTasksFromThread.
\<close>

datatype net_task = Task_countPong | Task_checkDrainThread

record NetClient =
  m_tasks :: "net_task queue"
  m_startup :: Startup
  m_socket :: UdpSocket
  m_server :: Endpoint
  m_username :: string
  m_state :: NetState
  m_sent :: u64
  m_received :: u64
  m_malformed :: u64
  m_helloAttempts :: u64
  m_lastRttMs :: f64
  m_appliedOnGameThread :: u64
  m_statesSent :: u64
  m_statesReceived :: u64
  m_statesOutOfOrder :: u64
  m_stateTick :: u64
  m_remote :: "(u32 \<times> RemoteSnapshot) list"
  m_events :: "RemoteEvent list"
  m_lastError :: string
  nc_out :: "(Endpoint \<times> u8 list) list"

record NetStats =
  ns_state :: NetState
  ns_sent :: u64
  ns_received :: u64
  ns_malformed :: u64
  ns_helloAttempts :: u64
  ns_lastRttMs :: f64
  ns_appliedOnGameThread :: u64
  ns_statesSent :: u64
  ns_statesReceived :: u64
  ns_statesOutOfOrder :: u64
  ns_remoteCount :: nat
  ns_lastError :: string

definition mk_NetClient :: "Startup \<Rightarrow> net_task queue \<Rightarrow> NetClient" where
  "mk_NetClient startup tasks =
     \<lparr>m_tasks = tasks, m_startup = startup, m_socket = UdpSocket_default,
      m_server = \<lparr>address = 0, port = 0\<rparr>, m_username = [], m_state = Disconnected, m_sent = 0,
      m_received = 0, m_malformed = 0, m_helloAttempts = 0, m_lastRttMs = 0, m_appliedOnGameThread = 0,
      m_statesSent = 0, m_statesReceived = 0, m_statesOutOfOrder = 0, m_stateTick = 0, m_remote = [],
      m_events = [], m_lastError = [], nc_out = []\<rparr>"

definition SetError :: "string \<Rightarrow> NetClient \<Rightarrow> NetClient" where
  "SetError aMessage c = c\<lparr>m_lastError := aMessage\<rparr>"

section \<open>Sending\<close>

text \<open>m_socket.SendTo(m_server, out), with sendto() as the parameter os.\<close>

type_synonym os_sendto = "u64 \<Rightarrow> Endpoint \<Rightarrow> u8 list \<Rightarrow> int"

definition client_send :: "os_sendto \<Rightarrow> u8 list \<Rightarrow> NetClient \<Rightarrow> bool \<times> NetClient" where
  "client_send os out c =
     (case UdpSocket_SendTo os (m_server c) out (m_socket c) of
        (ok, None) \<Rightarrow> (ok, c)
      | (ok, Some d) \<Rightarrow> (ok, c\<lparr>nc_out := nc_out c @ [d]\<rparr>))"

definition SendHello :: "os_sendto \<Rightarrow> NetClient \<Rightarrow> bool \<times> NetClient" where
  "SendHello os c =
     (let hello = Hello_default\<lparr>hello_username := m_username c\<rparr>
      in case Encode Hello_T hello of
           (False, out) \<Rightarrow> (False, SetError ''could not encode hello'' c)
         | (True, out) \<Rightarrow>
             client_send os out (c\<lparr>m_helloAttempts := m_helloAttempts c + 1, m_sent := m_sent c + 1\<rparr>))"

definition SendPing :: "os_sendto \<Rightarrow> u64 \<Rightarrow> NetClient \<Rightarrow> bool \<times> NetClient" where
  "SendPing os nowMicros c =
     (let ping = Ping_default\<lparr>ping_sentAt := nowMicros\<rparr>
      in case Encode Ping_T ping of
           (False, out) \<Rightarrow> (False, c)
         | (True, out) \<Rightarrow> client_send os out (c\<lparr>m_sent := m_sent c + 1\<rparr>))"

definition SendState :: "os_sendto \<Rightarrow> f32 \<Rightarrow> f32 \<Rightarrow> f32 \<Rightarrow> f32 \<Rightarrow> NetClient \<Rightarrow> bool \<times> NetClient" where
  "SendState os aX aY aZ aRotation c =
     (if m_state c \<noteq> Connected then (False, c)
      else
        (let state = \<lparr>ps_tick = m_stateTick c + 1, ps_position = \<lparr>vx = aX, vy = aY, vz = aZ\<rparr>, ps_rotation = aRotation\<rparr>;
             c1 = c\<lparr>m_stateTick := m_stateTick c + 1\<rparr>
         in case Encode PlayerState_T state of
              (False, out) \<Rightarrow> (False, c1)
            | (True, out) \<Rightarrow>
                client_send os out (c1\<lparr>m_sent := m_sent c1 + 1, m_statesSent := m_statesSent c1 + 1\<rparr>)))"

section \<open>Receiving\<close>

definition malformed :: "NetClient \<Rightarrow> NetClient" where
  "malformed c = c\<lparr>m_malformed := m_malformed c + 1\<rparr>"

definition HandleHelloAck :: "u8 list \<Rightarrow> NetClient \<Rightarrow> NetClient" where
  "HandleHelloAck aData c =
     (case Decode HelloAck_T aData HelloAck_default of
        (ok, ack) \<Rightarrow>
          if \<not> ok then malformed c
          else if ack_accepted ack then c\<lparr>m_state := Connected\<rparr>
          else (SetError (if ack_reason ack = [] then ''refused'' else ack_reason ack) c)\<lparr>m_state := Refused\<rparr>)"

definition HandleJoined :: "u8 list \<Rightarrow> NetClient \<Rightarrow> NetClient" where
  "HandleJoined aData c =
     (case Decode NotifyPlayerJoined_T aData NotifyPlayerJoined_default of
        (ok, joined) \<Rightarrow>
          if \<not> ok then malformed c
          else c\<lparr>m_events := m_events c @
                  [\<lparr>ev_joined = True, ev_playerId = npj_playerId joined, ev_username = npj_username joined\<rparr>]\<rparr>)"

definition HandleLeft :: "u8 list \<Rightarrow> NetClient \<Rightarrow> NetClient" where
  "HandleLeft aData c =
     (case Decode NotifyPlayerLeft_T aData NotifyPlayerLeft_default of
        (ok, left) \<Rightarrow>
          if \<not> ok then malformed c
          else c\<lparr>m_remote := AList.delete (npl_playerId left) (m_remote c),
                 m_events := m_events c @ [\<lparr>ev_joined = False, ev_playerId = npl_playerId left, ev_username = []\<rparr>]\<rparr>)"

text \<open>
  \<^verbatim>\<open>auto& snapshot = m_remote[notify.playerId]\<close> makes a default entry when there is none;
  the result says whether the snapshot was taken.
\<close>

definition put_snapshot :: "u32 \<Rightarrow> RemoteSnapshot \<Rightarrow> (u32 \<times> RemoteSnapshot) list \<Rightarrow> bool \<times> (u32 \<times> RemoteSnapshot) list" where
  "put_snapshot playerId new remote =
     (let snapshot = (case map_of remote playerId of None \<Rightarrow> RemoteSnapshot_default | Some s \<Rightarrow> s);
          remote1 = AList.update playerId snapshot remote
      in if snap_tick snapshot \<noteq> 0 \<and> snap_tick new \<le> snap_tick snapshot then (False, remote1)
         else (True, AList.update playerId new remote1))"

definition HandleState :: "u8 list \<Rightarrow> NetClient \<Rightarrow> NetClient" where
  "HandleState aData c =
     (case Decode NotifyPlayerState_T aData NotifyPlayerState_default of
        (ok, notify) \<Rightarrow>
          if \<not> ok then malformed c
          else
            (let c1 = c\<lparr>m_statesReceived := m_statesReceived c + 1\<rparr>;
                 new = \<lparr>snap_tick = nps_tick notify, snap_x = vx (nps_position notify), snap_y = vy (nps_position notify),
                        snap_z = vz (nps_position notify), snap_rotation = nps_rotation notify\<rparr>
             in case put_snapshot (nps_playerId notify) new (m_remote c1) of
                  (False, remote) \<Rightarrow> c1\<lparr>m_remote := remote, m_statesOutOfOrder := m_statesOutOfOrder c1 + 1\<rparr>
                | (True, remote) \<Rightarrow> c1\<lparr>m_remote := remote\<rparr>))"

definition HandlePong :: "u64 \<Rightarrow> u8 list \<Rightarrow> NetClient \<Rightarrow> NetClient" where
  "HandlePong nowMicros aData c =
     (case Decode Pong_T aData Pong_default of
        (ok, pong) \<Rightarrow>
          if \<not> ok then malformed c
          else c\<lparr>m_lastRttMs := f64_div (f64_of_u64 (nowMicros - pong_sentAt pong)) 0x408F400000000000,
                 m_tasks := Push (Some Task_countPong) (m_tasks c)\<rparr>)"

definition HandleDatagram :: "u64 \<Rightarrow> u8 list \<Rightarrow> NetClient \<Rightarrow> NetClient" where
  "HandleDatagram nowMicros aData c =
     (case PeekHeader aData Header_default of
        (ok, header) \<Rightarrow>
          if \<not> ok then malformed c
          else
            (case hdr_type header of
               Type_HelloAck \<Rightarrow> HandleHelloAck aData c
             | Type_NotifyPlayerJoined \<Rightarrow> HandleJoined aData c
             | Type_NotifyPlayerLeft \<Rightarrow> HandleLeft aData c
             | Type_NotifyPlayerState \<Rightarrow> HandleState aData c
             | Type_Pong \<Rightarrow> HandlePong nowMicros aData c
             | _ \<Rightarrow> malformed c))"

section \<open>The network thread\<close>

record run_locals =
  lastHelloAt :: u64
  lastPingAt :: u64
  lastServerAt :: u64

definition run_start :: "u64 \<Rightarrow> run_locals" where
  "run_start nowMs = \<lparr>lastHelloAt = 0, lastPingAt = 0, lastServerAt = nowMs\<rparr>"

text \<open>The timers at the top of a turn. False means that Run returns.\<close>

definition run_timers :: "os_sendto \<Rightarrow> u64 \<Rightarrow> u64 \<Rightarrow> NetClient \<times> run_locals \<Rightarrow> bool \<times> NetClient \<times> run_locals" where
  "run_timers os now nowMicros x =
     (case x of (c, l) \<Rightarrow>
        (case m_state c of
           Connecting \<Rightarrow>
             if now - lastHelloAt l \<ge> ucast kHelloRetryMs then
               (if m_helloAttempts c \<ge> ucast kMaxHelloAttempts
                then (False, (SetError ''no answer from server'' c)\<lparr>m_state := Disconnected\<rparr>, l)
                else (True, snd (SendHello os c), l\<lparr>lastHelloAt := now\<rparr>))
             else (True, c, l)
         | Connected \<Rightarrow>
             (let (c1, l1) = (if now - lastPingAt l \<ge> ucast kPingIntervalMs
                              then (snd (SendPing os nowMicros c), l\<lparr>lastPingAt := now\<rparr>) else (c, l))
              in if now - lastServerAt l1 \<ge> kServerTimeoutMs
                 then (False, (SetError ''server stopped answering'' c1)\<lparr>m_state := Disconnected\<rparr>, l1)
                 else (True, c1, l1))
         | _ \<Rightarrow> (False, c, l)))"

text \<open>What is done with what RecvFrom returned: the bytes of the buffer up to the received size.\<close>

definition run_receive :: "u64 \<Rightarrow> u64 \<Rightarrow> (Received \<times> u8 list) option \<Rightarrow> NetClient \<times> run_locals \<Rightarrow> NetClient \<times> run_locals" where
  "run_receive now nowMicros received x =
     (case x of (c, l) \<Rightarrow>
        (case received of
           None \<Rightarrow> (c, l)
         | Some (r, buffer) \<Rightarrow>
             if \<not> Endpoint_eq (rcv_from r) (m_server c) then (c, l)
             else (HandleDatagram nowMicros (take (rcv_size r) buffer) (c\<lparr>m_received := m_received c + 1\<rparr>),
                   l\<lparr>lastServerAt := now\<rparr>)))"

text \<open>
  One turn: the clock in milliseconds and, for a ping and for a pong, in microseconds, and the
  result of RecvFrom.
\<close>

record turn =
  t_now :: u64
  t_pingMicros :: u64
  t_pongMicros :: u64
  t_received :: "(Received \<times> u8 list) option"

definition run_turn :: "os_sendto \<Rightarrow> turn \<Rightarrow> NetClient \<times> run_locals \<Rightarrow> bool \<times> NetClient \<times> run_locals" where
  "run_turn os t x =
     (case run_timers os (t_now t) (t_pingMicros t) x of
        (False, x1) \<Rightarrow> (False, x1)
      | (True, x1) \<Rightarrow> (True, run_receive (t_now t) (t_pongMicros t) (t_received t) x1))"

text \<open>The loop, while no stop is requested: False when Run has returned by itself.\<close>

fun Run :: "os_sendto \<Rightarrow> turn list \<Rightarrow> NetClient \<times> run_locals \<Rightarrow> bool \<times> NetClient \<times> run_locals" where
  "Run os [] x = (True, x)"
| "Run os (t # ts) x = (case run_turn os t x of (False, x1) \<Rightarrow> (False, x1) | (True, x1) \<Rightarrow> Run os ts x1)"

section \<open>The operations of the game thread\<close>

text \<open>
  Disconnect stops and joins the thread first; what the thread did until then has happened when the
  rest of it runs.
\<close>

definition NetClient_Disconnect :: "NetClient \<Rightarrow> NetClient" where
  "NetClient_Disconnect c = c\<lparr>m_socket := UdpSocket_Close (m_socket c), m_state := Disconnected\<rparr>"

text \<open>socket() is a parameter. The thread starts with the locals run_start when Connect returns true.\<close>

definition NetClient_Connect :: "u64 option \<Rightarrow> u16 \<Rightarrow> string \<Rightarrow> NetClient \<Rightarrow> bool \<times> NetClient" where
  "NetClient_Connect os_socket aPort aUsername c =
     (let c0 = NetClient_Disconnect c
      in if \<not> m_ok (m_startup c0) then (False, SetError ''winsock init failed'' c0)
         else
           (case UdpSocket_Open os_socket (m_socket c0) of
              (False, s) \<Rightarrow> (False, SetError ''could not open socket'' (c0\<lparr>m_socket := s\<rparr>))
            | (True, s) \<Rightarrow>
                (let c1 = c0\<lparr>m_socket := s, m_server := Loopback aPort, m_username := aUsername,
                       m_sent := 0, m_received := 0, m_malformed := 0, m_helloAttempts := 0, m_lastRttMs := 0,
                       m_appliedOnGameThread := 0, m_statesSent := 0, m_statesReceived := 0,
                       m_statesOutOfOrder := 0, m_stateTick := 0, m_remote := [], m_events := []\<rparr>
                 in (True, (SetError [] c1)\<lparr>m_state := Connecting\<rparr>))))"

definition TakeEvents :: "NetClient \<Rightarrow> RemoteEvent list \<times> NetClient" where
  "TakeEvents c = (m_events c, c\<lparr>m_events := []\<rparr>)"

text \<open>The argument order is the order in which the table is iterated.\<close>

definition CopyRemoteSnapshots ::
  "((u32 \<times> RemoteSnapshot) list \<Rightarrow> (u32 \<times> RemoteSnapshot) list) \<Rightarrow> NetClient \<Rightarrow> (u32 \<times> RemoteSnapshot) list" where
  "CopyRemoteSnapshots order c = order (m_remote c)"

definition GetStats :: "NetClient \<Rightarrow> NetStats" where
  "GetStats c =
     \<lparr>ns_state = m_state c, ns_sent = m_sent c, ns_received = m_received c, ns_malformed = m_malformed c,
      ns_helloAttempts = m_helloAttempts c, ns_lastRttMs = m_lastRttMs c,
      ns_appliedOnGameThread = m_appliedOnGameThread c, ns_statesSent = m_statesSent c,
      ns_statesReceived = m_statesReceived c, ns_statesOutOfOrder = m_statesOutOfOrder c,
      ns_remoteCount = length (m_remote c), ns_lastError = m_lastError c\<rparr>"

section \<open>From bytes to messages\<close>

text \<open>
  What a datagram says, if anything: the type of its header decides as what it is decoded. The
  handlers of the client implement this effect of a message.
\<close>

definition parse :: "u8 list \<Rightarrow> message option" where
  "parse d =
     (case PeekHeader d Header_default of
        (ok, header) \<Rightarrow> if ok then Decode_as (hdr_type header) d else None)"

definition on_ack :: "HelloAck \<Rightarrow> NetClient \<Rightarrow> NetClient" where
  "on_ack ack c =
     (if ack_accepted ack then c\<lparr>m_state := Connected\<rparr>
      else c\<lparr>m_lastError := (if ack_reason ack = [] then ''refused'' else ack_reason ack), m_state := Refused\<rparr>)"

definition on_event :: "RemoteEvent \<Rightarrow> NetClient \<Rightarrow> NetClient" where
  "on_event e c =
     (if ev_joined e then c\<lparr>m_events := m_events c @ [e]\<rparr>
      else c\<lparr>m_remote := AList.delete (ev_playerId e) (m_remote c), m_events := m_events c @ [e]\<rparr>)"

definition mk_snapshot :: "u64 \<Rightarrow> (f32 \<times> f32 \<times> f32) \<times> f32 \<Rightarrow> RemoteSnapshot" where
  "mk_snapshot t p = (case p of ((x, y, z), r) \<Rightarrow>
     \<lparr>snap_tick = t, snap_x = x, snap_y = y, snap_z = z, snap_rotation = r\<rparr>)"

definition on_state :: "NotifyPlayerState \<Rightarrow> NetClient \<Rightarrow> NetClient" where
  "on_state n c =
     (case put_snapshot (nps_playerId n)
             (mk_snapshot (nps_tick n) ((vx (nps_position n), vy (nps_position n), vz (nps_position n)), nps_rotation n))
             (m_remote c) of
        (taken, remote) \<Rightarrow> c\<lparr>m_remote := remote, m_statesReceived := m_statesReceived c + 1,
          m_statesOutOfOrder := m_statesOutOfOrder c + (if taken then 0 else 1)\<rparr>)"

fun client_effect :: "u64 \<Rightarrow> message \<Rightarrow> NetClient \<Rightarrow> NetClient" where
  "client_effect us (M_HelloAck a) c = on_ack a c"
| "client_effect us (M_NotifyPlayerJoined j) c =
     on_event \<lparr>ev_joined = True, ev_playerId = npj_playerId j, ev_username = npj_username j\<rparr> c"
| "client_effect us (M_NotifyPlayerLeft l) c =
     on_event \<lparr>ev_joined = False, ev_playerId = npl_playerId l, ev_username = []\<rparr> c"
| "client_effect us (M_NotifyPlayerState n) c = on_state n c"
| "client_effect us (M_Pong p) c =
     c\<lparr>m_lastRttMs := f64_div (f64_of_u64 (us - pong_sentAt p)) 0x408F400000000000,
       m_tasks := m_tasks c @ [Task_countPong]\<rparr>"
| "client_effect us _ c = malformed c"

lemma Handle_effects:
  "HandleHelloAck d c = (case Decode_as Type_HelloAck d of None \<Rightarrow> malformed c | Some m \<Rightarrow> client_effect us m c)"
  "HandleJoined d c = (case Decode_as Type_NotifyPlayerJoined d of None \<Rightarrow> malformed c | Some m \<Rightarrow> client_effect us m c)"
  "HandleLeft d c = (case Decode_as Type_NotifyPlayerLeft d of None \<Rightarrow> malformed c | Some m \<Rightarrow> client_effect us m c)"
  "HandleState d c = (case Decode_as Type_NotifyPlayerState d of None \<Rightarrow> malformed c | Some m \<Rightarrow> client_effect us m c)"
  "HandlePong us d c = (case Decode_as Type_Pong d of None \<Rightarrow> malformed c | Some m \<Rightarrow> client_effect us m c)"
  by (auto simp: HandleHelloAck_def HandleJoined_def HandleLeft_def HandleState_def HandlePong_def Decode_as_def
      decoded_def on_ack_def on_event_def on_state_def mk_snapshot_def SetError_def Push_def Let_def
      split: prod.splits bool.splits)

lemma Decode_as_others:
  "Decode_as Type_Invalid d = None" "Decode_as (Type_Other b) d = None"
  by (simp_all add: Decode_as_def)

lemma HandleDatagram_effect:
  "HandleDatagram us d c = (case parse d of None \<Rightarrow> malformed c | Some m \<Rightarrow> client_effect us m c)"
proof -
  obtain ok h where p: "PeekHeader d Header_default = (ok, h)" by fastforce
  have "Decode_as t d = Some m \<Longrightarrow> t \<in> {Type_Hello, Type_Ping, Type_PlayerState} \<Longrightarrow> client_effect us m c = malformed c" for t m
    using Decode_as_type [of t d m] by (cases m) auto
  then show ?thesis
    by (cases "hdr_type h")
      (auto simp: HandleDatagram_def parse_def p Handle_effects(1-4) [of _ _ us] Handle_effects(5) Decode_as_others
        split: option.splits)
qed

lemma parse_Encode: "message_ok m \<Longrightarrow> Encode_message m = (True, d) \<Longrightarrow> parse d = Some m"
proof -
  assume ok: "message_ok m" and e: "Encode_message m = (True, d)"
  then have "d = enc_Header (header_for m) @ body_of m" by (simp add: Encode_message_eq split: if_splits)
  then have "PeekHeader d Header_default = (True, header_for m)"
    using type_of_real [of m] by (simp add: PeekHeader_True header_for_def Header_default_def)
  with Decode_as_Encode [OF ok e] show ?thesis by (simp add: parse_def header_for_def)
qed

section \<open>The table of snapshots\<close>

lemma put_snapshot_taken:
  "fst (put_snapshot p new r) \<longleftrightarrow>
     (case map_of r p of None \<Rightarrow> True | Some s \<Rightarrow> snap_tick s = 0 \<or> snap_tick s < snap_tick new)"
  by (auto simp: put_snapshot_def Let_def RemoteSnapshot_default_def not_le split: option.splits)

lemma put_snapshot_map:
  "map_of (snd (put_snapshot p new r)) =
     (if fst (put_snapshot p new r) then (map_of r)(p \<mapsto> new) else map_of r)"
  by (auto simp: put_snapshot_def Let_def RemoteSnapshot_default_def update_conv' fun_eq_iff split: option.splits)

lemma put_snapshot_distinct:
  "distinct (map fst r) \<Longrightarrow> distinct (map fst (snd (put_snapshot p new r)))"
  by (auto simp: put_snapshot_def Let_def intro!: distinct_update)

text \<open>The snapshot of one player, once one with a tick other than 0 has come.\<close>

definition client_snapshot :: "u32 \<Rightarrow> (u32 \<times> RemoteSnapshot) list \<Rightarrow> (u64 \<times> (f32 \<times> f32 \<times> f32) \<times> f32) option" where
  "client_snapshot p r =
     (case map_of r p of
        None \<Rightarrow> None
      | Some s \<Rightarrow> if snap_tick s = 0 then None
                  else Some (snap_tick s, (snap_x s, snap_y s, snap_z s), snap_rotation s))"

interpretation client_latest: latest_wins "\<lambda>t q. put_snapshot p (mk_snapshot t q)" "client_snapshot p"
  "\<lambda>r. True" "\<lambda>t. t \<noteq> 0" for p
proof unfold_locales
  fix r :: "(u32 \<times> RemoteSnapshot) list" and t k :: u64 and q q' :: "(f32 \<times> f32 \<times> f32) \<times> f32"
  assume t: "t \<noteq> 0"
  {
    assume new: "\<And>k q. client_snapshot p r = Some (k, q) \<Longrightarrow> k < t"
    have "snap_tick s < t" if "map_of r p = Some s" "snap_tick s \<noteq> 0" for s
      using new [of "snap_tick s"] that by (simp add: client_snapshot_def)
    with t show "fst (put_snapshot p (mk_snapshot t q) r) \<and>
        client_snapshot p (snd (put_snapshot p (mk_snapshot t q) r)) = Some (t, q) \<and> True"
      by (auto simp: put_snapshot_taken put_snapshot_map client_snapshot_def mk_snapshot_def
          split: option.splits prod.splits)
  next
    assume "client_snapshot p r = Some (k, q')" and "t \<le> k"
    then show "\<not> fst (put_snapshot p (mk_snapshot t q) r) \<and>
        client_snapshot p (snd (put_snapshot p (mk_snapshot t q) r)) = client_snapshot p r \<and> True"
      by (auto simp: put_snapshot_taken put_snapshot_map client_snapshot_def mk_snapshot_def not_less
          split: option.splits if_splits prod.splits)
  }
qed

text \<open>The event queue is a swap-out queue.\<close>

interpretation event_queue: work_queue "\<lambda>e c. c\<lparr>m_events := m_events c @ [e]\<rparr>" "\<lambda>_. TakeEvents" m_events
  by unfold_locales (auto simp: TakeEvents_def)

end
