(* ===== verification/Text_Format.thy ===== *)
theory Text_Format imports
  Net
  Ieee_Float
begin

text \<open>
  The texts that the script functions of the client return: what std::format makes of the integers,
  strings and floats the code gives it. A float with a precision is its exact value, rounded once to
  that many decimals, ties to even.
\<close>

section \<open>Arguments\<close>

definition show_u32 :: "u32 \<Rightarrow> string" where "show_u32 n = dec_digits (unat n)"

definition show_u64 :: "u64 \<Rightarrow> string" where "show_u64 n = dec_digits (unat n)"

definition show_i32 :: "32 word \<Rightarrow> string" where
  "show_i32 n = (if sint n < 0 then CHR ''-'' # dec_digits (nat (- sint n)) else dec_digits (nat (sint n)))"

text \<open>A C string ends at its first NUL.\<close>

definition c_str :: "string \<Rightarrow> string" where
  "c_str s = takeWhile (\<lambda>c. c \<noteq> CHR 0x00) s"

definition quote :: "string \<Rightarrow> string" where "quote s = CHR 0x27 # s @ [CHR 0x27]"

text \<open>Decimals of a number, filled up with zeros on the left.\<close>

definition padded :: "nat \<Rightarrow> nat \<Rightarrow> string" where
  "padded k n = (let s = dec_digits n in replicate (k - length s) CHR ''0'' @ s)"

definition show_fixed :: "fmt \<Rightarrow> nat \<Rightarrow> nat \<Rightarrow> string" where
  "show_fixed f k bits =
     (let neg = (if odd (bits div 2 ^ (prec f - 1 + ebits f)) then ''-'' else [])
      in case decode f bits of
           XNaN \<Rightarrow> neg @ ''nan''
         | XInf s \<Rightarrow> neg @ ''inf''
         | XFrac s n d e \<Rightarrow>
             (let (a, b) = scale n d e 0; q = div_even (a * 10 ^ k) b
              in neg @ dec_digits (q div 10 ^ k) @ CHR ''.'' # padded k (q mod 10 ^ k)))"

definition show_f32 :: "nat \<Rightarrow> f32 \<Rightarrow> string" where "show_f32 k x = show_fixed binary32 k (unat x)"

definition show_f64 :: "nat \<Rightarrow> f64 \<Rightarrow> string" where "show_f64 k x = show_fixed binary64 k (unat x)"

text \<open>The separators of a path in the game's archives are backslashes.\<close>

fun game_path :: "string list \<Rightarrow> string" where
  "game_path [] = []"
| "game_path [p] = p"
| "game_path (p # ps) = p @ CHR 0x5C # game_path ps"

end
