(* ===== verification/World_System.thy ===== *)
theory World_System imports
  Net_Client
  Text_Format
begin

text \<open>
  src/src/client/WorldSystem.hpp and WorldSystem.cpp: the game system of the client.

  The state is the game system's own (the bodies of the remote players, the registry of what was
  spawned from the console, switches and counters) beside the NetClient of the plugin, which holds the
  task queue, and the state of the game, of an arbitrary type. Every call into the game goes through the
  record engine: what the call returns and what it does to the game. The clock, the thread ids and the
  time a tick took are arguments. Unordered maps are association lists without duplicate keys; where the
  order of iteration shows, it is an argument. Log lines are not modelled; the texts that the script
  functions return are.

  Each function is one step, so two of them do not overlap. For RunTick, which the engine calls on
  several threads at once, Tick_Threads interleaves its parts. The table m_bodies has no lock, although
  SetBodyKind, GetRemoteStats and DumpRemoteComponents touch it from the script thread while
  PumpRemotePlayers works on it in a tick: what such a race does is undefined in C++, and here they only
  come one after the other.
\<close>

section \<open>The game\<close>

record Vector4 =
  vec_X :: f32
  vec_Y :: f32
  vec_Z :: f32
  vec_W :: f32

record Vector3 =
  v3_X :: f32
  v3_Y :: f32
  v3_Z :: f32

record Quaternion =
  quat_i :: f32
  quat_j :: f32
  quat_k :: f32
  quat_r :: f32

record EulerAngles =
  eul_Roll :: f32
  eul_Pitch :: f32
  eul_Yaw :: f32

text \<open>An EntityID is a hash; 0 is the one that is not defined.\<close>

type_synonym EntityID = u64
type_synonym handle = u64

definition IsDefined :: "EntityID \<Rightarrow> bool" where "IsDefined i \<longleftrightarrow> i \<noteq> 0"

text \<open>The properties of Codeware's DynamicEntitySpec that are written; the two paths before hashing.\<close>

record DynamicEntitySpec =
  spec_position :: Vector4
  spec_persistState :: bool
  spec_persistSpawn :: bool
  spec_templatePath :: "string option"
  spec_recordID :: "string option"

text \<open>What is written to a moveComponent: its position, the orientation and the speed.\<close>

record mover_fields =
  mov_position :: Vector4
  mov_orientation :: Quaternion
  mov_speed :: Vector3

record 'e engine =
  en_PlayerSystem :: "'e \<Rightarrow> bool"
  en_LocalPlayer :: "'e \<Rightarrow> handle option"
  en_WorldPosition :: "handle \<Rightarrow> 'e \<Rightarrow> Vector4"
  en_MakeSpec :: "'e \<Rightarrow> DynamicEntitySpec option"
  en_property :: "string \<Rightarrow> bool"
  en_EntitySystem :: "'e \<Rightarrow> bool"
  en_CreateEntity :: "DynamicEntitySpec \<Rightarrow> 'e \<Rightarrow> bool \<times> EntityID \<times> 'e"
  en_GetEntity :: "EntityID \<Rightarrow> 'e \<Rightarrow> handle option"
  en_DeleteEntity :: "EntityID \<Rightarrow> 'e \<Rightarrow> bool \<times> bool \<times> 'e"
  en_SetWorldTransform :: "handle \<Rightarrow> Vector4 \<Rightarrow> Quaternion \<Rightarrow> 'e \<Rightarrow> bool \<times> 'e"
  en_FindMover :: "handle \<Rightarrow> 'e \<Rightarrow> handle option"
  en_WriteMover :: "handle \<Rightarrow> mover_fields \<Rightarrow> 'e \<Rightarrow> 'e"
  en_TeleportationFacility :: "'e \<Rightarrow> bool"
  en_Teleport :: "handle \<Rightarrow> Vector4 \<Rightarrow> EulerAngles \<Rightarrow> 'e \<Rightarrow> bool \<times> 'e"
  en_GetComponents :: "handle \<Rightarrow> 'e \<Rightarrow> nat option"
  en_sin :: "f32 \<Rightarrow> f32"
  en_cos :: "f32 \<Rightarrow> f32"

section \<open>The state\<close>

record Sample =
  smp_localMs :: u64
  smp_x :: f32
  smp_y :: f32
  smp_z :: f32
  smp_rotation :: f32

record RemoteBody =
  body_entityId :: EntityID
  body_spawnRequested :: bool
  body_lastTick :: u64
  body_samples :: "Sample list"

definition RemoteBody_default :: RemoteBody where
  "RemoteBody_default = \<lparr>body_entityId = 0, body_spawnRequested = False, body_lastTick = 0, body_samples = []\<rparr>"

text \<open>ws_self says whether the game has made the system (GetGameSystem is not null).\<close>

record 'e world =
  ws_engine :: 'e
  ws_net :: NetClient
  ws_self :: bool
  m_bodies :: "(u32 \<times> RemoteBody) list"
  m_snapshotBuffer :: "(u32 \<times> RemoteSnapshot) list"
  m_lastStateSentMs :: u64
  m_moveMode :: u32
  m_bodyKind :: u32
  m_bodyTemplate :: string
  m_moverWrites :: u64
  m_transformWrites :: u64
  m_moverMissing :: u64
  m_interpolate :: bool
  m_starvedFrames :: u64
  m_frameBeginTicks :: u64
  m_multiplayerTicks :: u64
  m_tasksRun :: u64
  m_maxTickMicros :: u64
  m_lastDeltaTime :: f32
  m_tickThreadId :: u64
  m_drainThreadId :: u64
  m_producerThreadId :: u64
  m_tickThreadChanges :: u64
  m_taskRanOffDrainThread :: bool
  m_worldAttached :: bool
  m_spawned :: "EntityID list"

definition mk_WorldSystem :: "'e \<Rightarrow> NetClient \<Rightarrow> 'e world" where
  "mk_WorldSystem e net =
     \<lparr>ws_engine = e, ws_net = net, ws_self = True, m_bodies = [], m_snapshotBuffer = [], m_lastStateSentMs = 0,
      m_moveMode = 1, m_bodyKind = 0,
      m_bodyTemplate = game_path [''base'', ''characters'', ''base_entities'', ''man_base'', ''man_base.ent''],
      m_moverWrites = 0, m_transformWrites = 0, m_moverMissing = 0, m_interpolate = True, m_starvedFrames = 0,
      m_frameBeginTicks = 0, m_multiplayerTicks = 0, m_tasksRun = 0, m_maxTickMicros = 0, m_lastDeltaTime = 0,
      m_tickThreadId = 0, m_drainThreadId = 0, m_producerThreadId = 0, m_tickThreadChanges = 0,
      m_taskRanOffDrainThread = False, m_worldAttached = False, m_spawned = []\<rparr>"

section \<open>Lifecycle and the registry of spawned entities\<close>

definition OnWorldAttached :: "'e world \<Rightarrow> 'e world" where
  "OnWorldAttached w = w\<lparr>m_worldAttached := True\<rparr>"

definition OnWorldDetached :: "'e world \<Rightarrow> 'e world" where
  "OnWorldDetached w = w\<lparr>m_worldAttached := False, m_spawned := []\<rparr>"

definition TrackSpawned :: "EntityID \<Rightarrow> 'e world \<Rightarrow> 'e world" where
  "TrackSpawned aEntityID w = (if \<not> ws_self w then w else w\<lparr>m_spawned := m_spawned w @ [aEntityID]\<rparr>)"

text \<open>The size is cast to 32 bits.\<close>

definition GetSpawnedCount :: "'e world \<Rightarrow> u32" where
  "GetSpawnedCount w = (if \<not> ws_self w then 0 else of_nat (length (m_spawned w)))"

definition despawn_one :: "'e engine \<Rightarrow> EntityID \<Rightarrow> u32 \<times> 'e \<Rightarrow> u32 \<times> 'e" where
  "despawn_one E entityID x =
     (case x of (removed, e) \<Rightarrow>
        (case en_DeleteEntity E entityID e of
           (called, deleted, e') \<Rightarrow> (if called \<and> deleted then removed + 1 else removed, e')))"

definition DespawnAll :: "'e engine \<Rightarrow> 'e world \<Rightarrow> u32 \<times> 'e world" where
  "DespawnAll E w =
     (if \<not> ws_self w then (0, w)
      else
        (let pending = m_spawned w; w1 = w\<lparr>m_spawned := []\<rparr>
         in if \<not> en_EntitySystem E (ws_engine w1) then (0, w1)
            else (case fold (despawn_one E) pending (0, ws_engine w1) of
                    (removed, e) \<Rightarrow> (removed, w1\<lparr>ws_engine := e\<rparr>))))"

definition IsWorldReady :: "'e world \<Rightarrow> bool" where
  "IsWorldReady w \<longleftrightarrow> ws_self w \<and> m_worldAttached w"

section \<open>The player\<close>

definition GetLocalPlayer :: "'e engine \<Rightarrow> 'e \<Rightarrow> handle option" where
  "GetLocalPlayer E e = (if \<not> en_PlayerSystem E e then None else en_LocalPlayer E e)"

definition GetPlayerPosition :: "'e engine \<Rightarrow> 'e \<Rightarrow> Vector4" where
  "GetPlayerPosition E e =
     (case GetLocalPlayer E e of
        None \<Rightarrow> \<lparr>vec_X = 0, vec_Y = 0, vec_Z = 0, vec_W = 0\<rparr>
      | Some player \<Rightarrow> en_WorldPosition E player e)"

definition GetPlayerPositionText :: "'e engine \<Rightarrow> 'e \<Rightarrow> string" where
  "GetPlayerPositionText E e =
     (let p = GetPlayerPosition E e
      in show_f32 2 (vec_X p) @ '', '' @ show_f32 2 (vec_Y p) @ '', '' @ show_f32 2 (vec_Z p))"

section \<open>Spawning from the console\<close>

definition MakeSpecAtPlayer :: "'e engine \<Rightarrow> 'e \<Rightarrow> DynamicEntitySpec option" where
  "MakeSpecAtPlayer E e =
     (case en_MakeSpec E e of
        None \<Rightarrow> None
      | Some spec \<Rightarrow>
          if \<not> (en_property E ''position'' \<and> en_property E ''persistState'' \<and> en_property E ''persistSpawn'') then None
          else Some (spec\<lparr>spec_position := GetPlayerPosition E e, spec_persistState := False, spec_persistSpawn := False\<rparr>))"

definition SubmitSpec :: "'e engine \<Rightarrow> DynamicEntitySpec \<Rightarrow> 'e \<Rightarrow> bool \<times> EntityID \<times> 'e" where
  "SubmitSpec E aSpec e =
     (if \<not> en_EntitySystem E e then (False, 0, e)
      else
        (case en_CreateEntity E aSpec e of
           (called, aEntityID, e') \<Rightarrow>
             if \<not> called then (False, aEntityID, e')
             else if \<not> IsDefined aEntityID then (False, aEntityID, e')
             else (True, aEntityID, e')))"

definition prop_template :: string where
  "prop_template = game_path [''base'', ''gameplay'', ''devices'', ''ladder'', ''appearances'', ''10m_gen_default.ent'']"

definition SpawnProp :: "'e engine \<Rightarrow> 'e world \<Rightarrow> string \<times> 'e world" where
  "SpawnProp E w =
     (case MakeSpecAtPlayer E (ws_engine w) of
        None \<Rightarrow> (''spec failed'', w)
      | Some spec \<Rightarrow>
          if \<not> en_property E ''templatePath'' then (''no templatePath'', w)
          else
            (case SubmitSpec E (spec\<lparr>spec_templatePath := Some prop_template\<rparr>) (ws_engine w) of
               (ok, entityID, e) \<Rightarrow>
                 (let w1 = w\<lparr>ws_engine := e\<rparr>
                  in if \<not> ok then (''CreateEntity failed'', w1)
                     else (''spawn requested, id '' @ show_u64 entityID, TrackSpawned entityID w1))))"

definition default_record :: string where
  "default_record = ''Character.spr_animals_bouncer1_ranged1_omaha_mb''"

definition SpawnNpc :: "'e engine \<Rightarrow> string \<Rightarrow> 'e world \<Rightarrow> string \<times> 'e world" where
  "SpawnNpc E aRecord w =
     (let rec = (if length aRecord > 0 then aRecord else default_record)
      in case MakeSpecAtPlayer E (ws_engine w) of
           None \<Rightarrow> (''spec failed'', w)
         | Some spec \<Rightarrow>
             if \<not> en_property E ''recordID'' then (''no recordID'', w)
             else
               (case SubmitSpec E (spec\<lparr>spec_recordID := Some rec\<rparr>) (ws_engine w) of
                  (ok, entityID, e) \<Rightarrow>
                    (let w1 = w\<lparr>ws_engine := e\<rparr>
                     in if \<not> ok then (''spawn refused, unknown record '' @ quote rec @ ''?'', w1)
                        else (''spawn requested, record '' @ rec @ '', id '' @ show_u64 entityID,
                              TrackSpawned entityID w1))))"

section \<open>Writing a position to a body\<close>

definition kStateSendIntervalMs :: u64 where "kStateSendIntervalMs = 66"
definition kInterpolationDelayMs :: u64 where "kInterpolationDelayMs = 100"
definition kMaxSamples :: nat where "kMaxSamples = 8"

text \<open>The constants are 540, 360 and 180.\<close>

definition LerpAngleDegrees :: "f32 \<Rightarrow> f32 \<Rightarrow> f32 \<Rightarrow> f32" where
  "LerpAngleDegrees aFrom aTo aT =
     (let delta = f32_sub (f32_fmod (f32_add (f32_sub aTo aFrom) 0x44070000) 0x43B40000) 0x43340000
      in f32_add aFrom (f32_mul delta aT))"

text \<open>The constants are pi / 180 and 0.5, as floats.\<close>

definition YawToQuaternion :: "'e engine \<Rightarrow> f32 \<Rightarrow> Quaternion" where
  "YawToQuaternion E aDegrees =
     (let radians = f32_mul aDegrees 0x3C8EFA35; half = f32_mul radians 0x3F000000
      in \<lparr>quat_i = 0, quat_j = 0, quat_k = en_sin E half, quat_r = en_cos E half\<rparr>)"

text \<open>1.0f.\<close>

definition f32_one :: f32 where "f32_one = 0x3F800000"

definition snapshot_position :: "RemoteSnapshot \<Rightarrow> Vector4" where
  "snapshot_position s = \<lparr>vec_X = snap_x s, vec_Y = snap_y s, vec_Z = snap_z s, vec_W = f32_one\<rparr>"

definition WriteTransform :: "'e engine \<Rightarrow> handle \<Rightarrow> RemoteSnapshot \<Rightarrow> 'e \<Rightarrow> bool \<times> 'e" where
  "WriteTransform E aEntity aSnapshot e =
     en_SetWorldTransform E aEntity (snapshot_position aSnapshot) (YawToQuaternion E (snap_rotation aSnapshot)) e"

definition WriteMover :: "'e engine \<Rightarrow> handle \<Rightarrow> RemoteSnapshot \<Rightarrow> Vector3 \<Rightarrow> 'e \<Rightarrow> bool \<times> 'e" where
  "WriteMover E aEntity aSnapshot aVelocity e =
     (case en_FindMover E aEntity e of
        None \<Rightarrow> (False, e)
      | Some mover \<Rightarrow>
          (True, en_WriteMover E mover
             \<lparr>mov_position = snapshot_position aSnapshot, mov_orientation = YawToQuaternion E (snap_rotation aSnapshot),
              mov_speed = aVelocity\<rparr> e))"

definition WriteTeleport :: "'e engine \<Rightarrow> handle \<Rightarrow> RemoteSnapshot \<Rightarrow> 'e \<Rightarrow> bool \<times> 'e" where
  "WriteTeleport E aEntity aSnapshot e =
     (if \<not> en_TeleportationFacility E e then (False, e)
      else en_Teleport E aEntity (snapshot_position aSnapshot)
             \<lparr>eul_Roll = 0, eul_Pitch = 0, eul_Yaw = snap_rotation aSnapshot\<rparr> e)"

definition DestroyBodyEntity :: "'e engine \<Rightarrow> EntityID \<Rightarrow> 'e \<Rightarrow> bool \<times> 'e" where
  "DestroyBodyEntity E aEntityId e =
     (if \<not> IsDefined aEntityId then (False, e)
      else if \<not> en_EntitySystem E e then (False, e)
      else (case en_DeleteEntity E aEntityId e of (called, deleted, e') \<Rightarrow> (called \<and> deleted, e')))"

section \<open>The pump of the remote players\<close>

text \<open>A join makes an entry, if there is none; a leave destroys the body and erases it.\<close>

definition pump_event :: "'e engine \<Rightarrow> RemoteEvent \<Rightarrow> 'e world \<Rightarrow> 'e world" where
  "pump_event E event w =
     (if ev_joined event then
        (case map_of (m_bodies w) (ev_playerId event) of
           Some _ \<Rightarrow> w
         | None \<Rightarrow> w\<lparr>m_bodies := AList.update (ev_playerId event) RemoteBody_default (m_bodies w)\<rparr>)
      else
        (case map_of (m_bodies w) (ev_playerId event) of
           None \<Rightarrow> w
         | Some body \<Rightarrow>
             w\<lparr>ws_engine := snd (DestroyBodyEntity E (body_entityId body) (ws_engine w)),
               m_bodies := AList.delete (ev_playerId event) (m_bodies w)\<rparr>))"

text \<open>The first snapshot of a body: spawnRequested is set whether or not the request succeeds.\<close>

definition body_spec :: "'e engine \<Rightarrow> RemoteSnapshot \<Rightarrow> 'e world \<Rightarrow> DynamicEntitySpec option" where
  "body_spec E snapshot w =
     (case en_MakeSpec E (ws_engine w) of
        None \<Rightarrow> None
      | Some spec \<Rightarrow>
          if \<not> (en_property E ''position'' \<and> en_property E ''persistState'' \<and> en_property E ''persistSpawn'') then None
          else if m_bodyKind w = 1 then
            (if \<not> en_property E ''templatePath'' then None
             else Some (spec\<lparr>spec_templatePath := Some (m_bodyTemplate w), spec_position := snapshot_position snapshot,
                             spec_persistState := False, spec_persistSpawn := False\<rparr>))
          else
            (if \<not> en_property E ''recordID'' then None
             else Some (spec\<lparr>spec_recordID := Some default_record, spec_position := snapshot_position snapshot,
                             spec_persistState := False, spec_persistSpawn := False\<rparr>)))"

definition request_body :: "'e engine \<Rightarrow> u32 \<Rightarrow> RemoteSnapshot \<Rightarrow> RemoteBody \<Rightarrow> 'e world \<Rightarrow> 'e world" where
  "request_body E playerId snapshot body w =
     (let body1 = body\<lparr>body_spawnRequested := True\<rparr>;
          w1 = w\<lparr>m_bodies := AList.update playerId body1 (m_bodies w)\<rparr>
      in case body_spec E snapshot w1 of
           None \<Rightarrow> w1
         | Some spec \<Rightarrow>
             (case en_CreateEntity E spec (ws_engine w1) of
                (called, entityId, e) \<Rightarrow>
                  if called \<and> IsDefined entityId
                  then w1\<lparr>ws_engine := e,
                          m_bodies := AList.update playerId (body1\<lparr>body_entityId := entityId\<rparr>) (m_bodies w1)\<rparr>
                  else w1\<lparr>ws_engine := e\<rparr>))"

text \<open>A new snapshot joins the history of its body, of which the last kMaxSamples are kept.\<close>

definition add_sample :: "u64 \<Rightarrow> RemoteSnapshot \<Rightarrow> RemoteBody \<Rightarrow> RemoteBody" where
  "add_sample aNowMs snapshot body =
     (if snap_tick snapshot > body_lastTick body then
        (let samples = body_samples body @ [\<lparr>smp_localMs = aNowMs, smp_x = snap_x snapshot, smp_y = snap_y snapshot,
               smp_z = snap_z snapshot, smp_rotation = snap_rotation snapshot\<rparr>]
         in body\<lparr>body_lastTick := snap_tick snapshot,
                 body_samples := (if length samples > kMaxSamples then drop 1 samples else samples)\<rparr>)
      else body)"

text \<open>The last sample that is not after renderMs, and the first one after it.\<close>

fun surrounding :: "u64 \<Rightarrow> Sample option \<Rightarrow> Sample list \<Rightarrow> Sample option \<times> Sample option" where
  "surrounding renderMs before [] = (before, None)"
| "surrounding renderMs before (sample # samples) =
     (if smp_localMs sample \<le> renderMs then surrounding renderMs (Some sample) samples else (before, Some sample))"

definition interpolation_t :: "u64 \<Rightarrow> Sample \<Rightarrow> Sample \<Rightarrow> f32" where
  "interpolation_t renderMs before after =
     f32_div (f32_of_u64 (renderMs - smp_localMs before)) (f32_of_u64 (smp_localMs after - smp_localMs before))"

definition lerp :: "f32 \<Rightarrow> f32 \<Rightarrow> f32 \<Rightarrow> f32" where
  "lerp before after t = f32_add before (f32_mul (f32_sub after before) t)"

definition render_time :: "u64 \<Rightarrow> u64" where
  "render_time aNowMs = (if aNowMs > kInterpolationDelayMs then aNowMs - kInterpolationDelayMs else 0)"

text \<open>Whether the frame is starved, the target and the velocity; samples is not empty.\<close>

definition interpolate :: "u64 \<Rightarrow> Sample list \<Rightarrow> RemoteSnapshot \<Rightarrow> bool \<times> RemoteSnapshot \<times> Vector3" where
  "interpolate aNowMs samples snapshot =
     (let renderMs = render_time aNowMs; newest = List.last samples;
          hold = (True, snapshot\<lparr>snap_x := smp_x newest, snap_y := smp_y newest, snap_z := smp_z newest,
                    snap_rotation := smp_rotation newest\<rparr>, \<lparr>v3_X = 0, v3_Y = 0, v3_Z = 0\<rparr>)
      in case surrounding renderMs None samples of
           (Some before, Some after) \<Rightarrow>
             if smp_localMs after > smp_localMs before then
               (let t = interpolation_t renderMs before after;
                    seconds = f32_div (f32_of_u64 (smp_localMs after - smp_localMs before)) 0x447A0000
                in (False,
                    snapshot\<lparr>snap_x := lerp (smp_x before) (smp_x after) t, snap_y := lerp (smp_y before) (smp_y after) t,
                      snap_z := lerp (smp_z before) (smp_z after) t,
                      snap_rotation := LerpAngleDegrees (smp_rotation before) (smp_rotation after) t\<rparr>,
                    \<lparr>v3_X = f32_div (f32_sub (smp_x after) (smp_x before)) seconds,
                     v3_Y = f32_div (f32_sub (smp_y after) (smp_y before)) seconds,
                     v3_Z = f32_div (f32_sub (smp_z after) (smp_z before)) seconds\<rparr>))
             else hold
         | _ \<Rightarrow> hold)"

text \<open>The writes of the current mode, in the order of the code.\<close>

definition apply_target :: "'e engine \<Rightarrow> handle \<Rightarrow> RemoteSnapshot \<Rightarrow> Vector3 \<Rightarrow> 'e world \<Rightarrow> 'e world" where
  "apply_target E entity target velocity w =
     (let mode = m_moveMode w;
          w1 = (if mode = 0 \<or> mode = 2 then
                  (case WriteTransform E entity target (ws_engine w) of
                     (ok, e) \<Rightarrow> w\<lparr>ws_engine := e, m_transformWrites := m_transformWrites w + (if ok then 1 else 0)\<rparr>)
                else w);
          w2 = (if mode = 1 \<or> mode = 2 then
                  (case WriteMover E entity target velocity (ws_engine w1) of
                     (ok, e) \<Rightarrow> if ok then w1\<lparr>ws_engine := e, m_moverWrites := m_moverWrites w1 + 1\<rparr>
                                else w1\<lparr>ws_engine := e, m_moverMissing := m_moverMissing w1 + 1\<rparr>)
                else w1)
      in if mode = 3 then
           (case WriteTeleport E entity target (ws_engine w2) of
              (ok, e) \<Rightarrow> if ok then w2\<lparr>ws_engine := e, m_transformWrites := m_transformWrites w2 + 1\<rparr>
                         else w2\<lparr>ws_engine := e, m_moverMissing := m_moverMissing w2 + 1\<rparr>)
         else w2)"

definition move_body :: "'e engine \<Rightarrow> u64 \<Rightarrow> u32 \<Rightarrow> RemoteSnapshot \<Rightarrow> RemoteBody \<Rightarrow> handle \<Rightarrow> 'e world \<Rightarrow> 'e world" where
  "move_body E aNowMs playerId snapshot body entity w =
     (let body1 = add_sample aNowMs snapshot body;
          w1 = w\<lparr>m_bodies := AList.update playerId body1 (m_bodies w)\<rparr>
      in if body_samples body1 = [] then w1
         else if \<not> m_interpolate w1 then apply_target E entity snapshot \<lparr>v3_X = 0, v3_Y = 0, v3_Z = 0\<rparr> w1
         else
           (case interpolate aNowMs (body_samples body1) snapshot of
              (starved, target, velocity) \<Rightarrow>
                apply_target E entity target velocity
                  (w1\<lparr>m_starvedFrames := m_starvedFrames w1 + (if starved then 1 else 0)\<rparr>)))"

definition pump_snapshot :: "'e engine \<Rightarrow> u64 \<Rightarrow> bool \<Rightarrow> u32 \<times> RemoteSnapshot \<Rightarrow> 'e world \<Rightarrow> 'e world" where
  "pump_snapshot E aNowMs haveSystem item w =
     (case item of (playerId, snapshot) \<Rightarrow>
        (case map_of (m_bodies w) playerId of
           None \<Rightarrow> w
         | Some body \<Rightarrow>
             if \<not> haveSystem then w
             else if \<not> body_spawnRequested body then request_body E playerId snapshot body w
             else if \<not> IsDefined (body_entityId body) then w
             else
               (case en_GetEntity E (body_entityId body) (ws_engine w) of
                  None \<Rightarrow> w
                | Some entity \<Rightarrow> move_body E aNowMs playerId snapshot body entity w)))"

definition PumpRemotePlayers ::
  "'e engine \<Rightarrow> ((u32 \<times> RemoteSnapshot) list \<Rightarrow> (u32 \<times> RemoteSnapshot) list) \<Rightarrow> u64 \<Rightarrow> 'e world \<Rightarrow> 'e world" where
  "PumpRemotePlayers E order aNowMs w =
     (case TakeEvents (ws_net w) of
        (events, net) \<Rightarrow>
          (let w1 = fold (pump_event E) events (w\<lparr>ws_net := net\<rparr>)
           in if m_bodies w1 = [] then w1
              else
                (let w2 = w1\<lparr>m_snapshotBuffer := CopyRemoteSnapshots order (ws_net w1)\<rparr>;
                     haveSystem = en_EntitySystem E (ws_engine w2)
                 in fold (pump_snapshot E aNowMs haveSystem) (m_snapshotBuffer w2) w2)))"

section \<open>The local state and the tick\<close>

definition SendLocalState :: "'e engine \<Rightarrow> os_sendto \<Rightarrow> u64 \<Rightarrow> 'e world \<Rightarrow> 'e world" where
  "SendLocalState E os aNowMs w =
     (if aNowMs - m_lastStateSentMs w < kStateSendIntervalMs then w
      else
        (let position = GetPlayerPosition E (ws_engine w)
         in if f32_is_zero (vec_X position) \<and> f32_is_zero (vec_Y position) \<and> f32_is_zero (vec_Z position) then w
            else w\<lparr>m_lastStateSentMs := aNowMs,
                   ws_net := snd (SendState os (vec_X position) (vec_Y position) (vec_Z position) 0 (ws_net w))\<rparr>))"

text \<open>The body of a task, run by the thread that drains.\<close>

definition exec_task :: "u64 \<Rightarrow> net_task \<Rightarrow> 'e world \<Rightarrow> 'e world \<times> net_task option list" where
  "exec_task thisThread t w =
     (case t of
        Task_countPong \<Rightarrow>
          (w\<lparr>ws_net := (ws_net w)\<lparr>m_appliedOnGameThread := m_appliedOnGameThread (ws_net w) + 1\<rparr>\<rparr>, [])
      | Task_checkDrainThread \<Rightarrow>
          (if thisThread \<noteq> m_drainThreadId w then w\<lparr>m_taskRanOffDrainThread := True\<rparr> else w, []))"

text \<open>The queue is the one of the plugin, which the NetClient refers to.\<close>

definition drain_tasks :: "u64 \<Rightarrow> nat \<Rightarrow> 'e world \<Rightarrow> nat \<times> 'e world" where
  "drain_tasks thisThread aBudget w =
     (case Drain (exec_task thisThread) aBudget w (m_tasks (ws_net w)) of
        (taken, w', q) \<Rightarrow> (taken, w'\<lparr>ws_net := (ws_net w')\<lparr>m_tasks := q\<rparr>\<rparr>))"

text \<open>aCounter is the part of RunTick that OnFrameBegin and OnMultiplayerUpdate choose.\<close>

record tick_info =
  tk_nowMs :: u64
  tk_thread :: u64
  tk_deltaTime :: f32
  tk_micros :: u64

text \<open>
  A tick, in the steps that other threads can come between: the counters and the exchange of the tick
  thread; the store of the draining thread; the drain, which is the critical section of the queue and
  then one task at a time; the count of what ran; the maximum of the times, a loop of compare and
  exchange.
\<close>

definition tick_enter :: "tick_info \<Rightarrow> ('e world \<Rightarrow> 'e world) \<Rightarrow> 'e world \<Rightarrow> 'e world" where
  "tick_enter tk aCounter w =
     (let w1 = (aCounter w)\<lparr>m_lastDeltaTime := tk_deltaTime tk\<rparr>
      in w1\<lparr>m_tickThreadId := tk_thread tk,
            m_tickThreadChanges := m_tickThreadChanges w1 + (if m_tickThreadId w1 \<noteq> tk_thread tk then 1 else 0)\<rparr>)"

definition tick_own :: "tick_info \<Rightarrow> 'e world \<Rightarrow> 'e world" where
  "tick_own tk w = w\<lparr>m_drainThreadId := tk_thread tk\<rparr>"

definition tick_ran :: "nat \<Rightarrow> 'e world \<Rightarrow> 'e world" where
  "tick_ran taken w = (if taken > 0 then w\<lparr>m_tasksRun := m_tasksRun w + of_nat taken\<rparr> else w)"

definition tick_leave :: "tick_info \<Rightarrow> 'e world \<Rightarrow> 'e world" where
  "tick_leave tk w = (if tk_micros tk > m_maxTickMicros w then w\<lparr>m_maxTickMicros := tk_micros tk\<rparr> else w)"

definition RunTick :: "tick_info \<Rightarrow> ('e world \<Rightarrow> 'e world) \<Rightarrow> 'e world \<Rightarrow> 'e world" where
  "RunTick tk aCounter w =
     (case drain_tasks (tk_thread tk) 64 (tick_own tk (tick_enter tk aCounter w)) of
        (taken, w1) \<Rightarrow> tick_leave tk (tick_ran taken w1))"

definition OnFrameBegin :: "tick_info \<Rightarrow> 'e world \<Rightarrow> 'e world" where
  "OnFrameBegin tk w = RunTick tk (\<lambda>w. w\<lparr>m_frameBeginTicks := m_frameBeginTicks w + 1\<rparr>) w"

definition OnMultiplayerUpdate ::
  "'e engine \<Rightarrow> os_sendto \<Rightarrow> ((u32 \<times> RemoteSnapshot) list \<Rightarrow> (u32 \<times> RemoteSnapshot) list) \<Rightarrow> tick_info \<Rightarrow>
     'e world \<Rightarrow> 'e world" where
  "OnMultiplayerUpdate E os order tk w =
     SendLocalState E os (tk_nowMs tk) (PumpRemotePlayers E order (tk_nowMs tk)
       (RunTick tk (\<lambda>w. w\<lparr>m_multiplayerTicks := m_multiplayerTicks w + 1\<rparr>) w))"

definition GetTickStats :: "'e world \<Rightarrow> string" where
  "GetTickStats w =
     (if \<not> ws_self w then ''no world system''
      else ''frameBegin='' @ show_u64 (m_frameBeginTicks w) @ '' mpUpdate='' @ show_u64 (m_multiplayerTicks w) @
        '' tasksRun='' @ show_u64 (m_tasksRun w) @ '' pending='' @ dec_digits (Pending (m_tasks (ws_net w))) @
        '' dt='' @ show_f32 4 (m_lastDeltaTime w) @ '' maxTick='' @ show_u64 (m_maxTickMicros w) @
        ''us tickThreadChanges='' @ show_u64 (m_tickThreadChanges w) @
        '' producerThread='' @ show_u64 (m_producerThreadId w) @
        '' tasksAlwaysOnDrainThread='' @ (if m_taskRanOffDrainThread w then ''no'' else ''yes''))"

section \<open>The script functions\<close>

text \<open>
  The producer thread, run to its end: what it queues is what was asked for, one task at a time. The
  argument is its thread id.
\<close>

definition PostTasksFromThread :: "u64 \<Rightarrow> 32 word \<Rightarrow> 'e world \<Rightarrow> string \<times> 'e world" where
  "PostTasksFromThread producer aCount w =
     (if \<not> ws_self w then (''no world system'', w)
      else if sint aCount \<le> 0 \<or> sint aCount > 10000 then (''count must be 1..10000'', w)
      else
        (''queued '' @ show_i32 aCount @ '' task(s) from a worker thread'',
         w\<lparr>m_producerThreadId := producer,
           ws_net := (ws_net w)\<lparr>m_tasks :=
             fold Push (replicate (nat (sint aCount)) (Some Task_checkDrainThread)) (m_tasks (ws_net w))\<rparr>\<rparr>))"

definition WorldSystem_Connect :: "u64 option \<Rightarrow> u32 \<Rightarrow> string \<Rightarrow> 'e world \<Rightarrow> string \<times> 'e world" where
  "WorldSystem_Connect os_socket aPort aUsername w =
     (if aPort = 0 \<or> aPort > 65535 then (''port must be 1..65535'', w)
      else
        (let username = (if length aUsername > 0 then aUsername else ''player'')
         in case NetClient_Connect os_socket (ucast aPort) username (ws_net w) of
              (ok, net) \<Rightarrow>
                (let w1 = w\<lparr>ws_net := net\<rparr>
                 in if \<not> ok then (''connect failed: '' @ ns_lastError (GetStats net), w1)
                    else (''connecting to 127.0.0.1:'' @ show_u32 aPort @ '' as '' @ quote username, w1))))"

definition WorldSystem_Disconnect :: "'e world \<Rightarrow> string \<times> 'e world" where
  "WorldSystem_Disconnect w = (''disconnected'', w\<lparr>ws_net := NetClient_Disconnect (ws_net w)\<rparr>)"

definition GetNetStats :: "'e world \<Rightarrow> string" where
  "GetNetStats w =
     (let stats = GetStats (ws_net w)
      in ''state='' @ NetState_ToString (ns_state stats) @ '' sent='' @ show_u64 (ns_sent stats) @
         '' received='' @ show_u64 (ns_received stats) @ '' malformed='' @ show_u64 (ns_malformed stats) @
         '' helloAttempts='' @ show_u64 (ns_helloAttempts stats) @ '' rtt='' @ show_f64 3 (ns_lastRttMs stats) @
         ''ms appliedOnGameThread='' @ show_u64 (ns_appliedOnGameThread stats) @
         '' error='' @ quote (ns_lastError stats))"

definition GetRemoteStats :: "'e world \<Rightarrow> string" where
  "GetRemoteStats w =
     (if \<not> ws_self w then ''no world system''
      else
        (let stats = GetStats (ws_net w);
             spawned = length (filter (\<lambda>(_, body). IsDefined (body_entityId body)) (m_bodies w));
             samples = sum_list (map (\<lambda>(_, body). length (body_samples body)) (m_bodies w))
         in ''bodies='' @ dec_digits (length (m_bodies w)) @ '' spawned='' @ dec_digits spawned @
            '' snapshots='' @ show_u64 (ns_statesReceived stats) @ '' statesSent='' @ show_u64 (ns_statesSent stats) @
            '' outOfOrder='' @ show_u64 (ns_statesOutOfOrder stats) @ '' tracked='' @ dec_digits (ns_remoteCount stats) @
            '' moveMode='' @ show_u32 (m_moveMode w) @ '' moverWrites='' @ show_u64 (m_moverWrites w) @
            '' transformWrites='' @ show_u64 (m_transformWrites w) @ '' moverMissing='' @ show_u64 (m_moverMissing w) @
            '' interp='' @ (if m_interpolate w then ''on'' else ''off'') @ '' samples='' @ dec_digits samples @
            '' starved='' @ show_u64 (m_starvedFrames w)))"

text \<open>order is the order in which the bodies are iterated; the components themselves are only logged.\<close>

definition DumpRemoteComponents ::
  "'e engine \<Rightarrow> ((u32 \<times> RemoteBody) list \<Rightarrow> (u32 \<times> RemoteBody) list) \<Rightarrow> 'e world \<Rightarrow> string" where
  "DumpRemoteComponents E order w =
     (if \<not> ws_self w then ''no world system''
      else
        (case find (\<lambda>(_, body). IsDefined (body_entityId body)) (order (m_bodies w)) of
           None \<Rightarrow> ''no remote body spawned''
         | Some (_, body) \<Rightarrow>
             if \<not> en_EntitySystem E (ws_engine w) then ''no DynamicEntitySystem''
             else
               (case en_GetEntity E (body_entityId body) (ws_engine w) of
                  None \<Rightarrow> ''body not resolved yet''
                | Some entity \<Rightarrow>
                    (case en_GetComponents E entity (ws_engine w) of
                       None \<Rightarrow> ''GetComponents failed''
                     | Some n \<Rightarrow> show_u32 (of_nat n) @ '' component(s), see the log''))))"

definition move_mode_names :: "string list" where
  "move_mode_names = [''transform only'', ''mover only'', ''both'', ''teleport facility'']"

definition SetMoveMode :: "u32 \<Rightarrow> 'e world \<Rightarrow> string \<times> 'e world" where
  "SetMoveMode aMode w =
     (if \<not> ws_self w then (''no world system'', w)
      else if aMode > 3 then (''mode must be 0 (transform), 1 (mover), 2 (both) or 3 (teleport)'', w)
      else
        (''move mode '' @ show_u32 aMode @ '' ('' @ move_mode_names ! unat aMode @ '')'',
         w\<lparr>m_moveMode := aMode, m_moverWrites := 0, m_transformWrites := 0, m_moverMissing := 0\<rparr>))"

text \<open>One entry of the loop of SetBodyKind: its entity is destroyed and it starts again.\<close>

definition reset_body :: "'e engine \<Rightarrow> u32 \<Rightarrow> 'e world \<Rightarrow> 'e world" where
  "reset_body E playerId w =
     (case map_of (m_bodies w) playerId of
        None \<Rightarrow> w
      | Some body \<Rightarrow>
          w\<lparr>ws_engine := snd (DestroyBodyEntity E (body_entityId body) (ws_engine w)),
            m_bodies := AList.update playerId
              (body\<lparr>body_entityId := 0, body_spawnRequested := False, body_lastTick := 0, body_samples := []\<rparr>) (m_bodies w)\<rparr>)"

definition body_kind_names :: "string list" where "body_kind_names = [''npc'', ''prop'']"

text \<open>order is the order in which the players are iterated.\<close>

definition SetBodyKind :: "'e engine \<Rightarrow> (u32 list \<Rightarrow> u32 list) \<Rightarrow> u32 \<Rightarrow> 'e world \<Rightarrow> string \<times> 'e world" where
  "SetBodyKind E order aKind w =
     (if \<not> ws_self w then (''no world system'', w)
      else if aKind > 1 then (''kind must be 0 (npc) or 1 (prop)'', w)
      else
        (let players = order (map fst (m_bodies w));
             w1 = fold (reset_body E) players (w\<lparr>m_bodyKind := aKind\<rparr>)
         in (''body kind '' @ show_u32 aKind @ '' ('' @ body_kind_names ! unat aKind @ ''), '' @
             show_u32 (of_nat (length players)) @ '' reset, wait for respawn'', w1)))"

definition SetBodyTemplate :: "'e engine \<Rightarrow> (u32 list \<Rightarrow> u32 list) \<Rightarrow> string \<Rightarrow> 'e world \<Rightarrow> string \<times> 'e world" where
  "SetBodyTemplate E order aPath w =
     (if \<not> ws_self w then (''no world system'', w)
      else if length aPath = 0 then (''current template: '' @ m_bodyTemplate w, w)
      else SetBodyKind E order 1 (w\<lparr>m_bodyTemplate := aPath\<rparr>))"

definition SetInterpolation :: "bool \<Rightarrow> 'e world \<Rightarrow> string \<times> 'e world" where
  "SetInterpolation aEnabled w =
     (if \<not> ws_self w then (''no world system'', w)
      else (if aEnabled then ''interpolation on'' else ''interpolation off (raw snapshots, stepped)'',
            w\<lparr>m_interpolate := aEnabled, m_starvedFrames := 0\<rparr>))"

section \<open>The plugin\<close>

text \<open>
  Plugin::OnLoad keeps the handle and the sdk that the loader hands over; OnUnload joins the network
  thread, empties the task queue and forgets them. Main calls one or the other.
\<close>

record 'e plugin =
  s_sdk :: "u64 option"
  s_handle :: u64
  pl_world :: "'e world"

definition Plugin_OnLoad :: "u64 \<Rightarrow> u64 \<Rightarrow> 'e plugin \<Rightarrow> 'e plugin" where
  "Plugin_OnLoad aHandle aSdk p = p\<lparr>s_handle := aHandle, s_sdk := Some aSdk\<rparr>"

definition Plugin_OnUnload :: "'e plugin \<Rightarrow> 'e plugin" where
  "Plugin_OnUnload p =
     (let net = NetClient_Disconnect (ws_net (pl_world p))
      in p\<lparr>pl_world := (pl_world p)\<lparr>ws_net := net\<lparr>m_tasks := Clear (m_tasks net)\<rparr>\<rparr>, s_sdk := None, s_handle := 0\<rparr>)"

datatype EMainReason = Load | Unload

definition plugin_Main :: "u64 \<Rightarrow> EMainReason \<Rightarrow> u64 \<Rightarrow> 'e plugin \<Rightarrow> bool \<times> 'e plugin" where
  "plugin_Main aHandle aReason aSdk p =
     (case aReason of Load \<Rightarrow> (True, Plugin_OnLoad aHandle aSdk p) | Unload \<Rightarrow> (True, Plugin_OnUnload p))"

end
