(* ===== verification/Client_Run.thy ===== *)
theory Client_Run imports
  Net_Client
begin

text \<open>
  What a run of the client's network thread (NetClient::Run in src/src/client/NetClient.cpp) amounts
  to: the connection state that the acknowledgements of the server decide, the retries of the hello,
  the timeout of a connected client, and that datagrams of anybody else count for nothing.
\<close>

section \<open>What a datagram leaves alone\<close>

lemma HandleDatagram_frame [simp]:
  "m_server (HandleDatagram us d c) = m_server c" "m_socket (HandleDatagram us d c) = m_socket c"
  "m_username (HandleDatagram us d c) = m_username c" "m_helloAttempts (HandleDatagram us d c) = m_helloAttempts c"
  "m_sent (HandleDatagram us d c) = m_sent c" "nc_out (HandleDatagram us d c) = nc_out c"
  "m_stateTick (HandleDatagram us d c) = m_stateTick c" "m_startup (HandleDatagram us d c) = m_startup c"
proof -
  have "m_server (client_effect us m c) = m_server c \<and> m_socket (client_effect us m c) = m_socket c \<and>
      m_username (client_effect us m c) = m_username c \<and> m_helloAttempts (client_effect us m c) = m_helloAttempts c \<and>
      m_sent (client_effect us m c) = m_sent c \<and> nc_out (client_effect us m c) = nc_out c \<and>
      m_stateTick (client_effect us m c) = m_stateTick c \<and> m_startup (client_effect us m c) = m_startup c" for m
    by (cases m) (simp_all add: on_ack_def on_event_def on_state_def malformed_def split: prod.splits)
  then show "m_server (HandleDatagram us d c) = m_server c" "m_socket (HandleDatagram us d c) = m_socket c"
    "m_username (HandleDatagram us d c) = m_username c" "m_helloAttempts (HandleDatagram us d c) = m_helloAttempts c"
    "m_sent (HandleDatagram us d c) = m_sent c" "nc_out (HandleDatagram us d c) = nc_out c"
    "m_stateTick (HandleDatagram us d c) = m_stateTick c" "m_startup (HandleDatagram us d c) = m_startup c"
    by (simp_all add: HandleDatagram_effect malformed_def split: option.splits)
qed

definition ack_of :: "message option \<Rightarrow> HelloAck option" where
  "ack_of m = (case m of Some (M_HelloAck a) \<Rightarrow> Some a | _ \<Rightarrow> None)"

definition ack_result :: "NetState \<Rightarrow> HelloAck option \<Rightarrow> NetState" where
  "ack_result s a = (case a of None \<Rightarrow> s | Some ack \<Rightarrow> if ack_accepted ack then Connected else Refused)"

lemma HandleDatagram_state: "m_state (HandleDatagram us d c) = ack_result (m_state c) (ack_of (parse d))"
proof -
  have "m_state (client_effect us m c) = ack_result (m_state c) (ack_of (Some m))" for m
    by (cases m) (simp_all add: on_ack_def on_event_def on_state_def malformed_def ack_result_def ack_of_def
        split: prod.splits)
  then show ?thesis
    by (simp add: HandleDatagram_effect ack_result_def ack_of_def malformed_def split: option.splits)
qed

lemma client_send_frame [simp]:
  "m_server (snd (client_send os d c)) = m_server c" "m_socket (snd (client_send os d c)) = m_socket c"
  "m_username (snd (client_send os d c)) = m_username c" "m_state (snd (client_send os d c)) = m_state c"
  "m_helloAttempts (snd (client_send os d c)) = m_helloAttempts c" "m_lastError (snd (client_send os d c)) = m_lastError c"
  by (auto simp: client_send_def split: prod.splits option.splits)

lemma SendHello_frame [simp]:
  "m_server (snd (SendHello os c)) = m_server c" "m_socket (snd (SendHello os c)) = m_socket c"
  "m_username (snd (SendHello os c)) = m_username c" "m_state (snd (SendHello os c)) = m_state c"
  by (auto simp: SendHello_def SetError_def Let_def split: prod.splits bool.splits)

lemma SendPing_frame [simp]:
  "m_server (snd (SendPing os us c)) = m_server c" "m_socket (snd (SendPing os us c)) = m_socket c"
  "m_username (snd (SendPing os us c)) = m_username c" "m_state (snd (SendPing os us c)) = m_state c"
  "m_lastError (snd (SendPing os us c)) = m_lastError c" "m_helloAttempts (snd (SendPing os us c)) = m_helloAttempts c"
  by (auto simp: SendPing_def Let_def split: prod.splits bool.splits)

section \<open>A silent server\<close>

text \<open>What the server said in a turn; a turn is silent when the poll timed out or somebody else sent.\<close>

definition from_server :: "Endpoint \<Rightarrow> turn \<Rightarrow> u8 list option" where
  "from_server server t =
     (case t_received t of
        None \<Rightarrow> None
      | Some (r, buffer) \<Rightarrow> if rcv_from r = server then Some (take (rcv_size r) buffer) else None)"

definition silent :: "Endpoint \<Rightarrow> turn \<Rightarrow> bool" where
  "silent server t \<longleftrightarrow> from_server server t = None"

lemma run_receive_eq:
  "run_receive now us (t_received t) (c, l) =
     (case from_server (m_server c) t of
        None \<Rightarrow> (c, l)
      | Some d \<Rightarrow> (HandleDatagram us d (c\<lparr>m_received := m_received c + 1\<rparr>), l\<lparr>lastServerAt := now\<rparr>))"
  by (simp add: run_receive_def from_server_def split: option.splits)

lemma run_receive_None [simp]: "run_receive now us None x = x"
  by (cases x) (simp add: run_receive_def)

lemma run_receive_silent: "silent (m_server c) t \<Longrightarrow> run_receive now us (t_received t) (c, l) = (c, l)"
  by (simp add: run_receive_eq silent_def)

text \<open>The turns at which a hello is due.\<close>

fun due :: "u64 \<Rightarrow> turn list \<Rightarrow> turn list" where
  "due lastAt [] = []"
| "due lastAt (t # ts) = (if t_now t - lastAt \<ge> 500 then t # due (t_now t) ts else due lastAt ts)"

definition hello_bytes :: "string \<Rightarrow> u8 list" where
  "hello_bytes u = snd (Encode Hello_T \<lparr>hello_version = kVersion, hello_username = u\<rparr>)"

lemma Encode_hello:
  "Encode Hello_T \<lparr>hello_version = kVersion, hello_username = u\<rparr> =
     (if length u \<le> 1190 then (True, hello_bytes u) else (False, []))"
  by (simp add: hello_bytes_def hello.Encode_iff kMaxDatagram_def)

lemma SendHello_eq:
  "m_open (m_socket c) \<Longrightarrow> length (m_username c) \<le> 1190 \<Longrightarrow>
   snd (SendHello os c) = c\<lparr>m_helloAttempts := m_helloAttempts c + 1, m_sent := m_sent c + 1,
     nc_out := nc_out c @ [(m_server c, hello_bytes (m_username c))]\<rparr>"
  by (simp add: SendHello_def Hello_default_def Encode_hello client_send_def UdpSocket_SendTo_def Let_def)

lemma SendHello_too_long:
  "\<not> length (m_username c) \<le> 1190 \<Longrightarrow> SendHello os c = (False, SetError ''could not encode hello'' c)"
  by (simp add: SendHello_def Hello_default_def Encode_hello)

lemma run_turn_connecting:
  assumes "m_state c = Connecting" and "silent (m_server c) t" and "m_open (m_socket c)"
    and "length (m_username c) \<le> 1190"
  shows "run_turn os t (c, l) =
    (if t_now t - lastHelloAt l \<ge> 500 then
       (if m_helloAttempts c \<ge> 10 then (False, c\<lparr>m_lastError := ''no answer from server'', m_state := Disconnected\<rparr>, l)
        else (True, c\<lparr>m_helloAttempts := m_helloAttempts c + 1, m_sent := m_sent c + 1,
                nc_out := nc_out c @ [(m_server c, hello_bytes (m_username c))]\<rparr>, l\<lparr>lastHelloAt := t_now t\<rparr>))
     else (True, c, l))"
proof -
  have k: "(ucast kHelloRetryMs :: u64) = 500" "(ucast kMaxHelloAttempts :: u64) = 10"
    by (simp_all add: kHelloRetryMs_def kMaxHelloAttempts_def)
  have "silent (m_server (snd (SendHello os c))) t" using assms by (simp add: SendHello_eq)
  with assms show ?thesis
    by (simp add: run_turn_def run_timers_def k run_receive_silent SetError_def SendHello_eq)
qed

text \<open>A run against a silent server is decided by how many hellos are due.\<close>

lemma Run_silent:
  assumes "m_state c = Connecting" and "\<forall>t \<in> set ts. silent (m_server c) t" and "m_open (m_socket c)"
    and "length (m_username c) \<le> 1190" and "unat (m_helloAttempts c) + j = 10"
  shows "\<exists>c' l'. Run os ts (c, l) = (length (due (lastHelloAt l) ts) \<le> j, c', l') \<and>
    nc_out c' = nc_out c @ replicate (min j (length (due (lastHelloAt l) ts))) (m_server c, hello_bytes (m_username c)) \<and>
    (if length (due (lastHelloAt l) ts) \<le> j then m_state c' = Connecting \<and> m_lastError c' = m_lastError c
     else m_state c' = Disconnected \<and> m_lastError c' = ''no answer from server'')"
  using assms
proof (induction ts arbitrary: c l j)
  case Nil
  then show ?case by simp
next
  case (Cons t ts)
  have turn: "run_turn os t (c, l) = (if t_now t - lastHelloAt l \<ge> 500 then
       (if m_helloAttempts c \<ge> 10 then (False, c\<lparr>m_lastError := ''no answer from server'', m_state := Disconnected\<rparr>, l)
        else (True, c\<lparr>m_helloAttempts := m_helloAttempts c + 1, m_sent := m_sent c + 1,
                nc_out := nc_out c @ [(m_server c, hello_bytes (m_username c))]\<rparr>, l\<lparr>lastHelloAt := t_now t\<rparr>))
     else (True, c, l))"
    using Cons.prems by (intro run_turn_connecting) auto
  show ?case
  proof (cases "t_now t - lastHelloAt l \<ge> 500")
    case False
    with turn Cons.IH [of c j l] Cons.prems show ?thesis by simp
  next
    case d: True
    show ?thesis
    proof (cases j)
      case 0
      with Cons.prems(5) have "m_helloAttempts c \<ge> 10" by (simp add: word_le_nat_alt)
      with turn d 0 show ?thesis by simp
    next
      case (Suc i)
      with Cons.prems(5) have lt: "unat (m_helloAttempts c) < 10" by simp
      then have n: "\<not> m_helloAttempts c \<ge> 10" by (simp add: word_le_nat_alt)
      have "unat (m_helloAttempts c + 1) = unat (m_helloAttempts c) + 1"
        using lt by (simp add: unat_word_ariths)
      with Suc Cons.prems(5) have "unat (m_helloAttempts c + 1) + i = 10" by simp
      with Cons.IH [of "c\<lparr>m_helloAttempts := m_helloAttempts c + 1, m_sent := m_sent c + 1,
          nc_out := nc_out c @ [(m_server c, hello_bytes (m_username c))]\<rparr>" i "l\<lparr>lastHelloAt := t_now t\<rparr>"]
        Cons.prems
      obtain c' l' where r: "Run os ts (c\<lparr>m_helloAttempts := m_helloAttempts c + 1, m_sent := m_sent c + 1,
            nc_out := nc_out c @ [(m_server c, hello_bytes (m_username c))]\<rparr>, l\<lparr>lastHelloAt := t_now t\<rparr>) =
            (length (due (t_now t) ts) \<le> i, c', l')"
        and "nc_out c' = nc_out c @ (m_server c, hello_bytes (m_username c)) #
            replicate (min i (length (due (t_now t) ts))) (m_server c, hello_bytes (m_username c))"
        and "if length (due (t_now t) ts) \<le> i then m_state c' = Connecting \<and> m_lastError c' = m_lastError c
            else m_state c' = Disconnected \<and> m_lastError c' = ''no answer from server''"
        by auto
      with turn d n Suc show ?thesis by (intro exI [of _ c'] exI [of _ l']) (simp add: min_def)
    qed
  qed
qed

text \<open>A name that does not fit in a datagram: nothing is ever sent, and no attempt is counted.\<close>

lemma Run_silent_too_long:
  assumes "m_state c = Connecting" and "\<forall>t \<in> set ts. silent (m_server c) t"
    and "\<not> length (m_username c) \<le> 1190" and "m_helloAttempts c < 10"
  shows "\<exists>c' l'. Run os ts (c, l) = (True, c', l') \<and> m_state c' = Connecting \<and> nc_out c' = nc_out c \<and>
    m_helloAttempts c' = m_helloAttempts c"
  using assms
proof (induction ts arbitrary: c l)
  case (Cons t ts)
  have k: "(ucast kMaxHelloAttempts :: u64) = 10" by (simp add: kMaxHelloAttempts_def)
  have "silent (m_server (SetError e c)) t" for e using Cons.prems(2) by (simp add: SetError_def)
  then have "run_turn os t (c, l) = (True, SetError ''could not encode hello'' c, l\<lparr>lastHelloAt := t_now t\<rparr>) \<or>
      run_turn os t (c, l) = (True, c, l)"
    using Cons.prems
    by (auto simp: run_turn_def run_timers_def k run_receive_silent SendHello_too_long not_le)
  then show ?case
  proof
    assume "run_turn os t (c, l) = (True, SetError ''could not encode hello'' c, l\<lparr>lastHelloAt := t_now t\<rparr>)"
    with Cons.IH [of "SetError ''could not encode hello'' c" "l\<lparr>lastHelloAt := t_now t\<rparr>"] Cons.prems
    show ?thesis by (simp add: SetError_def)
  next
    assume "run_turn os t (c, l) = (True, c, l)"
    with Cons.IH [of c l] Cons.prems show ?thesis by simp
  qed
qed simp

text \<open>What Connect leaves for the thread it starts.\<close>

lemma Connect_start:
  assumes "NetClient_Connect h aPort name c = (True, c0)"
  shows "m_state c0 = Connecting" and "m_server c0 = Loopback aPort" and "m_open (m_socket c0)"
    and "m_username c0 = name" and "m_helloAttempts c0 = 0" and "m_lastError c0 = []" and "m_stateTick c0 = 0"
    and "m_remote c0 = []" and "m_events c0 = []" and "nc_out c0 = nc_out c"
proof -
  have "m_open s" if "UdpSocket_Open h s0 = (True, s)" for s0 s
    using that Open_iff [of h s0] by simp
  with assms show "m_state c0 = Connecting" "m_server c0 = Loopback aPort" "m_open (m_socket c0)"
    "m_username c0 = name" "m_helloAttempts c0 = 0" "m_lastError c0 = []" "m_stateTick c0 = 0"
    "m_remote c0 = []" "m_events c0 = []" "nc_out c0 = nc_out c"
    by (auto simp: NetClient_Connect_def NetClient_Disconnect_def SetError_def Let_def split: if_splits prod.splits bool.splits)
qed

section \<open>The connection state\<close>

definition turn_ack :: "Endpoint \<Rightarrow> turn \<Rightarrow> HelloAck option" where
  "turn_ack server t = (case from_server server t of None \<Rightarrow> None | Some d \<Rightarrow> ack_of (parse d))"

lemma run_timers_frame:
  assumes "run_timers os now us (c, l) = (go, c', l')"
  shows "m_server c' = m_server c"
    and "if go then m_state c' = m_state c \<and> m_state c \<in> {Connecting, Connected}
         else m_state c' = (if m_state c = Refused then Refused else Disconnected)"
  using assms by (auto simp: run_timers_def SetError_def Let_def split: NetState.splits if_splits prod.splits)

lemma run_turn_state:
  assumes "run_turn os t (c, l) = (go, c', l')"
  shows "m_server c' = m_server c"
    and "m_state c' = (if go then ack_result (m_state c) (turn_ack (m_server c) t)
                       else if m_state c = Refused then Refused else Disconnected)"
proof -
  obtain g c1 l1 where t: "run_timers os (t_now t) (t_pingMicros t) (c, l) = (g, c1, l1)" by (rule prod_cases3)
  note f = run_timers_frame [OF t]
  show "m_server c' = m_server c"
    using assms t f by (cases g) (auto simp: run_turn_def run_receive_eq split: option.splits)
  show "m_state c' = (if go then ack_result (m_state c) (turn_ack (m_server c) t)
                       else if m_state c = Refused then Refused else Disconnected)"
    using assms t f
    by (cases g) (auto simp: run_turn_def run_receive_eq HandleDatagram_state turn_ack_def ack_result_def split: option.splits)
qed

definition acked_state :: "Endpoint \<Rightarrow> turn list \<Rightarrow> NetState \<Rightarrow> NetState" where
  "acked_state server ts s = fold (\<lambda>t s. ack_result s (turn_ack server t)) ts s"

lemma Run_state:
  "Run os ts (c, l) = (running, c', l') \<Longrightarrow> m_server c' = m_server c \<and>
   (if running then m_state c' = acked_state (m_server c) ts (m_state c)
    else \<exists>ts1 t ts2. ts = ts1 @ t # ts2 \<and>
      m_state c' = (if acked_state (m_server c) ts1 (m_state c) = Refused then Refused else Disconnected))"
proof (induction ts arbitrary: c l)
  case Nil
  then show ?case by (simp add: acked_state_def)
next
  case (Cons t ts)
  obtain go c1 l1 where t: "run_turn os t (c, l) = (go, c1, l1)" by (rule prod_cases3)
  note st = run_turn_state [OF t]
  show ?case
  proof (cases go)
    case True
    with Cons.prems t have r: "Run os ts (c1, l1) = (running, c', l')" by simp
    have step: "acked_state (m_server c) (t # us) (m_state c) = acked_state (m_server c) us (m_state c1)" for us
      using st True by (simp add: acked_state_def)
    show ?thesis
    proof (cases running)
      case True
      with Cons.IH [OF r] st step show ?thesis by simp
    next
      case False
      with Cons.IH [OF r] st obtain ts1 u ts2 where "ts = ts1 @ u # ts2"
        and "m_state c' = (if acked_state (m_server c) ts1 (m_state c1) = Refused then Refused else Disconnected)"
        and "m_server c' = m_server c" by auto
      with False step show ?thesis by (auto intro!: exI [of _ "t # ts1"])
    qed
  next
    case False
    with Cons.prems t have "\<not> running" "c' = c1" by simp_all
    with st False show ?thesis by (auto simp: acked_state_def intro!: exI [of _ "[]"])
  qed
qed

section \<open>State datagrams in any order\<close>

definition state_bytes :: "NotifyPlayerState \<Rightarrow> u8 list" where
  "state_bytes n = snd (Encode NotifyPlayerState_T n)"

lemma parse_state_bytes: "parse (state_bytes n) = Some (M_NotifyPlayerState n)"
proof (rule parse_Encode)
  show "message_ok (M_NotifyPlayerState n)" by (simp add: message_ok_def name_ok_def)
  show "Encode_message (M_NotifyPlayerState n) = (True, state_bytes n)"
    by (simp add: state_bytes_def notify_state.Encode_iff kMaxDatagram_def)
qed

definition payload :: "NotifyPlayerState \<Rightarrow> u64 \<times> (f32 \<times> f32 \<times> f32) \<times> f32" where
  "payload n = (nps_tick n, (vx (nps_position n), vy (nps_position n), vz (nps_position n)), nps_rotation n)"

lemma remote_after_state:
  "m_remote (HandleDatagram us (state_bytes n) c) =
     snd (put_snapshot (nps_playerId n) (mk_snapshot (fst (payload n)) (snd (payload n))) (m_remote c))"
  by (simp add: HandleDatagram_effect parse_state_bytes on_state_def payload_def split: prod.splits)

lemma client_snapshot_other:
  "p' \<noteq> p \<Longrightarrow> client_snapshot p (snd (put_snapshot p' new r)) = client_snapshot p r"
  by (simp add: client_snapshot_def put_snapshot_map)

lemma client_snapshot_put:
  "t \<noteq> 0 \<Longrightarrow> client_snapshot p r = client_snapshot p r' \<Longrightarrow>
   client_snapshot p (snd (put_snapshot p (mk_snapshot t q) r)) = client_snapshot p (snd (put_snapshot p (mk_snapshot t q) r'))"
  by (simp add: client_latest.put_cur)

lemma receive_states:
  "list_all (\<lambda>n. nps_tick n \<noteq> 0) ns \<Longrightarrow> client_snapshot p (m_remote c) = client_snapshot p r \<Longrightarrow>
   client_snapshot p (m_remote (fold (HandleDatagram us) (map state_bytes ns) c)) =
     client_snapshot p (client_latest.deliver p (map payload (filter (\<lambda>n. nps_playerId n = p) ns)) r)"
proof (induction ns arbitrary: c r)
  case (Cons n ns)
  let ?c = "HandleDatagram us (state_bytes n) c"
  let ?put = "\<lambda>r. snd (put_snapshot p (mk_snapshot (fst (payload n)) (snd (payload n))) r)"
  have t: "fst (payload n) \<noteq> 0" using Cons.prems(1) by (simp add: payload_def)
  show ?case
  proof (cases "nps_playerId n = p")
    case True
    with client_snapshot_put [OF t Cons.prems(2), of "snd (payload n)"]
    have "client_snapshot p (m_remote ?c) = client_snapshot p (?put r)" by (simp add: remote_after_state)
    with Cons.IH [of ?c "?put r"] Cons.prems True show ?thesis
      by (simp add: client_latest.deliver_def case_prod_beta)
  next
    case False
    then have "client_snapshot p (m_remote ?c) = client_snapshot p r"
      using Cons.prems(2) by (simp add: remote_after_state client_snapshot_other)
    with Cons.IH [of ?c r] Cons.prems(1) False show ?thesis by simp
  qed
qed (simp add: client_latest.deliver_def)

section \<open>The events the game thread takes\<close>

text \<open>The two threads, at the grain of the event queue's lock: a datagram handled, or the events taken.\<close>

datatype client_op = Op_datagram u64 "u8 list" | Op_events

fun client_ops :: "client_op list \<Rightarrow> NetClient \<Rightarrow> RemoteEvent list \<times> NetClient" where
  "client_ops [] c = ([], c)"
| "client_ops (Op_datagram us d # ops) c = client_ops ops (HandleDatagram us d c)"
| "client_ops (Op_events # ops) c =
     (case TakeEvents c of (es, c1) \<Rightarrow> (case client_ops ops c1 of (fs, c2) \<Rightarrow> (es @ fs, c2)))"

text \<open>What a datagram announces.\<close>

definition announces :: "u8 list \<Rightarrow> RemoteEvent list" where
  "announces d =
     (case parse d of
        Some (M_NotifyPlayerJoined j) \<Rightarrow> [\<lparr>ev_joined = True, ev_playerId = npj_playerId j, ev_username = npj_username j\<rparr>]
      | Some (M_NotifyPlayerLeft l) \<Rightarrow> [\<lparr>ev_joined = False, ev_playerId = npl_playerId l, ev_username = []\<rparr>]
      | _ \<Rightarrow> [])"

fun announced :: "client_op list \<Rightarrow> RemoteEvent list" where
  "announced [] = []"
| "announced (Op_datagram us d # ops) = announces d @ announced ops"
| "announced (Op_events # ops) = announced ops"

lemma HandleDatagram_events: "m_events (HandleDatagram us d c) = m_events c @ announces d"
proof -
  have "m_events (client_effect us m c) = m_events c @ (case m of
      M_NotifyPlayerJoined j \<Rightarrow> [\<lparr>ev_joined = True, ev_playerId = npj_playerId j, ev_username = npj_username j\<rparr>]
    | M_NotifyPlayerLeft l \<Rightarrow> [\<lparr>ev_joined = False, ev_playerId = npl_playerId l, ev_username = []\<rparr>]
    | _ \<Rightarrow> [])" for m
    by (cases m) (simp_all add: on_ack_def on_event_def on_state_def malformed_def split: prod.splits)
  then show ?thesis by (simp add: HandleDatagram_effect announces_def malformed_def split: option.splits)
qed

section \<open>Properties\<close>

text \<open>
  C18: The connection state is decided by the acknowledgements of the server alone: while the network
  thread runs it is what the last one said, and what it was before the first; the thread returns only
  into Refused, after a refusal, or into Disconnected.
\<close>

theorem state_from_acks:
  "case Run os ts (c, l) of (running, c', l') \<Rightarrow>
     if running then m_state c' = acked_state (m_server c) ts (m_state c)
     else \<exists>ts1 t ts2. ts = ts1 @ t # ts2 \<and>
       m_state c' = (if acked_state (m_server c) ts1 (m_state c) = Refused then Refused else Disconnected)"
proof -
  obtain running c' l' where r: "Run os ts (c, l) = (running, c', l')" by (rule prod_cases3)
  from Run_state [OF this] r show ?thesis by (cases running) simp_all
qed

text \<open>
  C20: Against a server that never answers, a client with an encodable name sends its hello at once (on a clock that
  shows 500 ms or more) and then whenever at least 500 ms have passed since the last one, ten times in
  all; at the eleventh time it gives up, disconnected, with the error
  \<^verbatim>\<open>no answer from server\<close>. Until then it stays connecting.
\<close>

theorem silent_server:
  assumes "NetClient_Connect h aPort name c = (True, c0)" and "length name \<le> 1190"
    and "list_all (silent (Loopback aPort)) ts"
  shows "case Run os ts (c0, run_start now0) of (running, c', l') \<Rightarrow>
    let n = length (due 0 ts) in
      running = (n \<le> 10) \<and>
      nc_out c' = nc_out c0 @ replicate (min 10 n) (Loopback aPort, hello_bytes name) \<and>
      m_state c' = (if n \<le> 10 then Connecting else Disconnected) \<and>
      m_lastError c' = (if n \<le> 10 then [] else ''no answer from server'')"
proof -
  from Connect_start [OF assms(1)] have c0: "m_state c0 = Connecting" "m_server c0 = Loopback aPort" "m_open (m_socket c0)"
    "m_username c0 = name" "m_helloAttempts c0 = 0" "m_lastError c0 = []" by simp_all
  with assms(2,3) have "\<exists>c' l'. Run os ts (c0, run_start now0) = (length (due 0 ts) \<le> 10, c', l') \<and>
    nc_out c' = nc_out c0 @ replicate (min 10 (length (due 0 ts))) (Loopback aPort, hello_bytes name) \<and>
    (if length (due 0 ts) \<le> 10 then m_state c' = Connecting \<and> m_lastError c' = m_lastError c0
     else m_state c' = Disconnected \<and> m_lastError c' = ''no answer from server'')"
    using Run_silent [of c0 ts 10 os "run_start now0"] by (simp add: list_all_iff run_start_def)
  with c0(6) show ?thesis by (auto simp: Let_def)
qed

definition quiet_turn :: "u64 \<Rightarrow> turn" where
  "quiet_turn ms = \<lparr>t_now = ms, t_pingMicros = 0, t_pongMicros = 0, t_received = None\<rparr>"

lemma quiet_turn_simps [simp]: "t_now (quiet_turn ms) = ms" "silent e (quiet_turn ms)"
  by (simp_all add: quiet_turn_def silent_def from_server_def)

definition fresh_client :: NetClient where
  "fresh_client = mk_NetClient (mk_Startup 0) []"

lemma fresh_Connect: "\<exists>c0. NetClient_Connect (Some 5) 11780 name fresh_client = (True, c0)"
  by (simp add: NetClient_Connect_def NetClient_Disconnect_def UdpSocket_Close_def UdpSocket_Open_def
      UdpSocket_default_def fresh_client_def mk_NetClient_def mk_Startup_def Let_def)

theorem silent_server_witness:
  "m_state (fst (snd (Run (\<lambda>_ _ _. 0) (map quiet_turn [1000, 1400, 2000, 3000, 4000, 5000, 6000, 7000, 8000, 9000, 10000, 11000])
      (snd (NetClient_Connect (Some 5) 11780 ''bob'' fresh_client), run_start 900)))) = Disconnected"
proof -
  obtain c0 where c0: "NetClient_Connect (Some 5) 11780 ''bob'' fresh_client = (True, c0)"
    using fresh_Connect by blast
  from silent_server [OF this, of "map quiet_turn [1000, 1400, 2000, 3000, 4000, 5000, 6000, 7000, 8000, 9000, 10000, 11000]"
      "\<lambda>_ _ _. 0" 900] c0
  show ?thesis by (simp add: Let_def case_prod_beta del: Run.simps)
qed

text \<open>
  A name that does not fit in a datagram is never sent: no attempt is counted, so against a silent
  server the client stays connecting for ever, whatever time passes.
\<close>

theorem unsendable_name:
  assumes "NetClient_Connect h aPort name c = (True, c0)" and "1190 < length name"
    and "list_all (silent (Loopback aPort)) ts"
  shows "case Run os ts (c0, run_start now0) of (running, c', l') \<Rightarrow>
    running \<and> m_state c' = Connecting \<and> m_helloAttempts c' = 0 \<and> nc_out c' = nc_out c0"
proof -
  from Connect_start [OF assms(1)] assms(2,3) have "\<exists>c' l'. Run os ts (c0, run_start now0) = (True, c', l') \<and>
      m_state c' = Connecting \<and> nc_out c' = nc_out c0 \<and> m_helloAttempts c' = m_helloAttempts c0"
    by (intro Run_silent_too_long) (auto simp: list_all_iff)
  with Connect_start [OF assms(1)] show ?thesis by auto
qed

theorem unsendable_name_witness:
  "m_state (fst (snd (Run (\<lambda>_ _ _. 0) (map quiet_turn [1000, 3600000])
      (snd (NetClient_Connect (Some 5) 11780 (replicate 1191 CHR ''a'') fresh_client), run_start 900)))) = Connecting"
proof -
  obtain c0 where c0: "NetClient_Connect (Some 5) 11780 (replicate 1191 CHR ''a'') fresh_client = (True, c0)"
    using fresh_Connect by blast
  from unsendable_name [OF this, of "map quiet_turn [1000, 3600000]" "\<lambda>_ _ _. 0" 900] c0
  show ?thesis by (simp add: case_prod_beta del: Run.simps)
qed

text \<open>
  A connected client that hears nothing from the server keeps going exactly while every turn is
  less than 8000 ms after the last datagram of the server; then it is disconnected, and says why.
\<close>

theorem server_timeout:
  assumes "m_state c = Connected" and "list_all (silent (m_server c)) ts"
  shows "case Run os ts (c, l) of (running, c', l') \<Rightarrow>
    running = list_all (\<lambda>t. t_now t - lastServerAt l < 8000) ts \<and>
    m_state c' = (if running then Connected else Disconnected) \<and>
    m_lastError c' = (if running then m_lastError c else ''server stopped answering'')"
  using assms
proof (induction ts arbitrary: c l)
  case (Cons t ts)
  let ?late = "t_now t - lastServerAt l \<ge> 8000"
  obtain c1 l1 where p: "(if t_now t - lastPingAt l \<ge> ucast kPingIntervalMs
      then (snd (SendPing os (t_pingMicros t) c), l\<lparr>lastPingAt := t_now t\<rparr>) else (c, l)) = (c1, l1)" by fastforce
  then have f: "m_server c1 = m_server c" "m_state c1 = m_state c" "m_lastError c1 = m_lastError c"
    "lastServerAt l1 = lastServerAt l" by (auto split: if_splits)
  have "run_turn os t (c, l) = (if ?late then (False, c1\<lparr>m_lastError := ''server stopped answering'', m_state := Disconnected\<rparr>, l1)
      else (True, c1, l1))"
    using Cons.prems p f by (simp add: run_turn_def run_timers_def run_receive_silent SetError_def kServerTimeoutMs_def)
  with Cons.IH [of c1 l1] Cons.prems f show ?case
    by (cases ?late) (auto simp: not_le not_less split: prod.splits)
qed simp

theorem server_timeout_witness:
  "m_lastError (fst (snd (Run (\<lambda>_ _ _. 0) (map quiet_turn [1000, 5000, 9000])
      (fresh_client\<lparr>m_state := Connected\<rparr>, run_start 900)))) = ''server stopped answering''"
  using server_timeout [of "fresh_client\<lparr>m_state := Connected\<rparr>" "map quiet_turn [1000, 5000, 9000]" "run_start 900" "\<lambda>_ _ _. 0"]
  by (simp add: run_start_def case_prod_beta del: Run.simps)

text \<open>
  C23: Datagrams of anybody but the server count for nothing: a run is the same as one in which the poll
  timed out instead.
\<close>

theorem noise_ignored:
  "Run os ts (c, l) = Run os (map (\<lambda>t. if silent (m_server c) t then t\<lparr>t_received := None\<rparr> else t) ts) (c, l)"
proof (induction ts arbitrary: c l)
  case (Cons t ts)
  have "run_turn os (t\<lparr>t_received := None\<rparr>) (c, l) = run_turn os t (c, l)" if "silent (m_server c) t"
  proof -
    obtain g c1 l1 where t: "run_timers os (t_now t) (t_pingMicros t) (c, l) = (g, c1, l1)" by (rule prod_cases3)
    with run_timers_frame(1) [OF t] that show ?thesis
      by (cases g) (auto simp: run_turn_def run_receive_silent)
  qed
  then have e: "run_turn os (if silent (m_server c) t then t\<lparr>t_received := None\<rparr> else t) (c, l) = run_turn os t (c, l)"
    by simp
  obtain go c1 l1 where t: "run_turn os t (c, l) = (go, c1, l1)" by (rule prod_cases3)
  from run_turn_state(1) [OF t] Cons.IH [of c1 l1] e t show ?case by (cases go) simp_all
qed simp

text \<open>
  What the client does with a datagram is decided by what it decodes to as the type its header
  names: exactly the five messages that a server sends have an effect, each its own, and every other
  datagram only counts as malformed.
\<close>

theorem client_dispatch:
  "HandleDatagram us d c =
     (case parse d of
        Some (M_HelloAck a) \<Rightarrow> on_ack a c
      | Some (M_NotifyPlayerJoined j) \<Rightarrow>
          c\<lparr>m_events := m_events c @ [\<lparr>ev_joined = True, ev_playerId = npj_playerId j, ev_username = npj_username j\<rparr>]\<rparr>
      | Some (M_NotifyPlayerLeft l) \<Rightarrow>
          c\<lparr>m_remote := AList.delete (npl_playerId l) (m_remote c),
            m_events := m_events c @ [\<lparr>ev_joined = False, ev_playerId = npl_playerId l, ev_username = []\<rparr>]\<rparr>
      | Some (M_NotifyPlayerState n) \<Rightarrow> on_state n c
      | Some (M_Pong p) \<Rightarrow>
          c\<lparr>m_lastRttMs := f64_div (f64_of_u64 (us - pong_sentAt p)) 0x408F400000000000,
            m_tasks := m_tasks c @ [Task_countPong]\<rparr>
      | _ \<Rightarrow> c\<lparr>m_malformed := m_malformed c + 1\<rparr>)"
  by (auto simp: HandleDatagram_effect on_event_def malformed_def split: option.splits message.splits)

text \<open>
  C19: The relayed states of a player may be lost, reordered and duplicated: a client that had none holds
  in the end the one with the largest tick of those that came, whatever the order, and whatever came
  about others. (A tick of 0, which no client sends, is what an empty entry holds.)
\<close>

theorem client_latest_wins:
  assumes "client_snapshot p (m_remote c) = None" and "set ns = set ms"
    and "list_all (\<lambda>n. nps_tick n \<noteq> 0) ns" and "inj_on (\<lambda>n. (nps_playerId n, nps_tick n)) (set ns)"
  shows "let after = (\<lambda>zs. client_snapshot p (m_remote (fold (HandleDatagram us) (map state_bytes zs) c)))
    in after ns = after ms \<and>
       (case after ns of
          None \<Rightarrow> p \<notin> nps_playerId ` set ns
        | Some x \<Rightarrow> x \<in> payload ` {n \<in> set ns. nps_playerId n = p} \<and>
            fst x = Max (nps_tick ` {n \<in> set ns. nps_playerId n = p}))"
proof -
  let ?of = "\<lambda>zs. map payload (filter (\<lambda>n. nps_playerId n = p) zs)"
  let ?d = "\<lambda>zs. client_snapshot p (client_latest.deliver p (?of zs) (m_remote c))"
  have t: "\<forall>(t, q) \<in> set (?of ns). t \<noteq> 0" using assms(3) by (auto simp: payload_def list_all_iff)
  have m: "list_all (\<lambda>n. nps_tick n \<noteq> 0) ms" using assms(2,3) by (simp add: list_all_iff)
  have f: "\<forall>(t, q) \<in> set (?of ns). \<forall>(t', q') \<in> set (?of ns). t = t' \<longrightarrow> q = q'"
  proof -
    have same: "q = q'" if m: "(t, q) \<in> set (?of ns)" "(t, q') \<in> set (?of ns)" for t q q'
    proof -
      from m obtain n n' where n: "n \<in> set ns" "n' \<in> set ns" "nps_playerId n = p" "nps_playerId n' = p"
        "payload n = (t, q)" "payload n' = (t, q')" by auto
      then have "n = n'" using inj_onD [OF assms(4), of n n'] by (simp add: payload_def)
      with n(5,6) show ?thesis by simp
    qed
    show ?thesis using same by blast
  qed
  have o: "?d ns = ?d ms"
    by (rule client_latest.deliver_order_irrelevant [OF TrueI TrueI assms(1) assms(1) _ t f]) (simp add: assms(2))
  have c: "case ?d ns of None \<Rightarrow> ?of ns = []
      | Some (k, q) \<Rightarrow> (k, q) \<in> set (?of ns) \<and> (\<forall>(t, q) \<in> set (?of ns). t \<le> k)"
    using client_latest.deliver_cur [of "?of ns" p "m_remote c"] assms(1) t by (auto split: option.splits)
  have g: "case ?d ns of None \<Rightarrow> p \<notin> nps_playerId ` set ns
      | Some x \<Rightarrow> x \<in> payload ` {n \<in> set ns. nps_playerId n = p} \<and>
          fst x = Max (nps_tick ` {n \<in> set ns. nps_playerId n = p})"
  proof (cases "?d ns")
    case None
    with c show ?thesis by (auto simp: filter_empty_conv)
  next
    case (Some x)
    with c have x: "x \<in> set (?of ns)" "\<forall>(t, q) \<in> set (?of ns). t \<le> fst x" by (auto split: prod.splits)
    have "Max (nps_tick ` {n \<in> set ns. nps_playerId n = p}) = fst x"
      using x by (intro Max_eqI) (auto simp: payload_def)
    with x(1) Some show ?thesis by auto
  qed
  from receive_states [OF assms(3) refl, where p = p and c = c and us = us] receive_states [OF m refl, where p = p and c = c and us = us] o g
  show ?thesis by (simp add: Let_def)
qed

theorem client_latest_wins_witness:
  "let n = (\<lambda>k t. \<lparr>nps_playerId = k, nps_tick = t, nps_position = \<lparr>vx = 0, vy = 0, vz = 0\<rparr>, nps_rotation = of_nat (unat t)\<rparr>);
       after = (\<lambda>zs. client_snapshot 7 (m_remote (fold (HandleDatagram 0) (map state_bytes zs) fresh_client)))
   in after [n 7 2, n 8 9, n 7 1] = after [n 8 9, n 7 1, n 7 2, n 7 1]"
  using client_latest_wins [of 7 fresh_client
      "let n = (\<lambda>k t. \<lparr>nps_playerId = k, nps_tick = t, nps_position = \<lparr>vx = 0, vy = 0, vz = 0\<rparr>, nps_rotation = of_nat (unat t)\<rparr>)
       in [n 7 2, n 8 9, n 7 1]"
      "let n = (\<lambda>k t. \<lparr>nps_playerId = k, nps_tick = t, nps_position = \<lparr>vx = 0, vy = 0, vz = 0\<rparr>, nps_rotation = of_nat (unat t)\<rparr>)
       in [n 8 9, n 7 1, n 7 2, n 7 1]" 0]
  by (simp add: Let_def fresh_client_def mk_NetClient_def client_snapshot_def inj_on_def insert_commute)

text \<open>
  C21: However the handling of datagrams and the game thread's taking of events interleave, every join
  and every leave that came is taken exactly once, in the order they came, or is still queued.
\<close>

theorem events_exactly_once:
  "case client_ops ops c of (taken, c') \<Rightarrow> taken @ m_events c' = m_events c @ announced ops"
proof (induction ops c rule: client_ops.induct)
  case (3 ops c)
  obtain es c1 where t: "TakeEvents c = (es, c1)" by fastforce
  from 3 [OF t [symmetric]] event_queue.take_prefix [OF t] t show ?case
    by (simp split: prod.splits)
qed (simp_all add: HandleDatagram_events)

end
