(* ===== verification/World_Bodies.thy ===== *)
theory World_Bodies imports
  World_System
  Client_Run
begin

text \<open>
  The bodies of the remote players in src/src/client/WorldSystem.cpp: what a tick does to one body as a
  step relation, the operations of the game system as one transition function, the invariant of its
  states, and which players have a body.
\<close>

section \<open>What an operation leaves alone\<close>

lemma apply_target_frame [simp]:
  "m_bodies (apply_target E h s v w) = m_bodies w" "ws_net (apply_target E h s v w) = ws_net w"
  "ws_self (apply_target E h s v w) = ws_self w" "m_moveMode (apply_target E h s v w) = m_moveMode w"
  "m_bodyKind (apply_target E h s v w) = m_bodyKind w" "m_interpolate (apply_target E h s v w) = m_interpolate w"
  "m_lastStateSentMs (apply_target E h s v w) = m_lastStateSentMs w"
  "m_bodyTemplate (apply_target E h s v w) = m_bodyTemplate w"
  by (simp_all add: apply_target_def Let_def split: prod.splits)

lemma request_body_frame [simp]:
  "ws_net (request_body E p s b w) = ws_net w" "ws_self (request_body E p s b w) = ws_self w"
  "m_moveMode (request_body E p s b w) = m_moveMode w" "m_bodyKind (request_body E p s b w) = m_bodyKind w"
  "m_lastStateSentMs (request_body E p s b w) = m_lastStateSentMs w"
  by (simp_all add: request_body_def Let_def split: prod.splits option.splits)

lemma move_body_frame [simp]:
  "ws_net (move_body E now p s b h w) = ws_net w" "ws_self (move_body E now p s b h w) = ws_self w"
  "m_moveMode (move_body E now p s b h w) = m_moveMode w" "m_bodyKind (move_body E now p s b h w) = m_bodyKind w"
  "m_lastStateSentMs (move_body E now p s b h w) = m_lastStateSentMs w"
  "m_bodies (move_body E now p s b h w) = AList.update p (add_sample now s b) (m_bodies w)"
  by (simp_all add: move_body_def Let_def split: prod.splits)

lemma pump_snapshot_frame [simp]:
  "ws_net (pump_snapshot E now hs x w) = ws_net w" "ws_self (pump_snapshot E now hs x w) = ws_self w"
  "m_moveMode (pump_snapshot E now hs x w) = m_moveMode w" "m_bodyKind (pump_snapshot E now hs x w) = m_bodyKind w"
  "m_lastStateSentMs (pump_snapshot E now hs x w) = m_lastStateSentMs w"
  by (simp_all add: pump_snapshot_def split: prod.splits option.splits)

lemma pump_event_frame [simp]:
  "ws_net (pump_event E e w) = ws_net w" "ws_self (pump_event E e w) = ws_self w"
  "m_moveMode (pump_event E e w) = m_moveMode w" "m_bodyKind (pump_event E e w) = m_bodyKind w"
  "m_lastStateSentMs (pump_event E e w) = m_lastStateSentMs w"
  by (simp_all add: pump_event_def split: option.splits)

text \<open>What every step of a fold keeps, the fold keeps.\<close>

lemma fold_keeps: "(\<And>x w. f (g x w) = f w) \<Longrightarrow> f (fold g xs w) = f w"
  by (induction xs arbitrary: w) simp_all

lemma fold_events_frame [simp]:
  "ws_net (fold (pump_event E) es w) = ws_net w" "ws_self (fold (pump_event E) es w) = ws_self w"
  "m_moveMode (fold (pump_event E) es w) = m_moveMode w" "m_bodyKind (fold (pump_event E) es w) = m_bodyKind w"
  "m_lastStateSentMs (fold (pump_event E) es w) = m_lastStateSentMs w"
  by (simp_all add: fold_keeps)

lemma fold_snapshots_frame [simp]:
  "ws_net (fold (pump_snapshot E now hs) xs w) = ws_net w" "ws_self (fold (pump_snapshot E now hs) xs w) = ws_self w"
  "m_moveMode (fold (pump_snapshot E now hs) xs w) = m_moveMode w"
  "m_bodyKind (fold (pump_snapshot E now hs) xs w) = m_bodyKind w"
  "m_lastStateSentMs (fold (pump_snapshot E now hs) xs w) = m_lastStateSentMs w"
  by (simp_all add: fold_keeps)

lemma Pump_frame [simp]:
  "ws_net (PumpRemotePlayers E order now w) = (ws_net w)\<lparr>m_events := []\<rparr>"
  "ws_self (PumpRemotePlayers E order now w) = ws_self w"
  "m_moveMode (PumpRemotePlayers E order now w) = m_moveMode w"
  "m_bodyKind (PumpRemotePlayers E order now w) = m_bodyKind w"
  "m_lastStateSentMs (PumpRemotePlayers E order now w) = m_lastStateSentMs w"
  by (simp_all add: PumpRemotePlayers_def TakeEvents_def Let_def)

section \<open>One body\<close>

inductive body_step :: "u64 \<Rightarrow> RemoteSnapshot \<Rightarrow> RemoteBody \<Rightarrow> RemoteBody \<Rightarrow> bool" for now s where
  idle: "body_step now s b b"
| refused: "\<not> body_spawnRequested b \<Longrightarrow> body_step now s b (b\<lparr>body_spawnRequested := True\<rparr>)"
| created: "\<not> body_spawnRequested b \<Longrightarrow> IsDefined i \<Longrightarrow>
    body_step now s b (b\<lparr>body_spawnRequested := True, body_entityId := i\<rparr>)"
| sampled: "body_spawnRequested b \<Longrightarrow> IsDefined (body_entityId b) \<Longrightarrow> body_step now s b (add_sample now s b)"

inductive_cases body_stepE: "body_step now s b b'"

lemma pump_snapshot_absent: "map_of (m_bodies w) p = None \<Longrightarrow> pump_snapshot E now hs (p, s) w = w"
  by (simp add: pump_snapshot_def)

lemma pump_snapshot_step:
  assumes b: "map_of (m_bodies w) p = Some b"
  shows "\<exists>b'. body_step now s b b' \<and> m_bodies (pump_snapshot E now hs (p, s) w) = AList.update p b' (m_bodies w)"
proof -
  have idle: "?thesis" if "m_bodies (pump_snapshot E now hs (p, s) w) = m_bodies w"
    using that idle [of now s b] update_triv [OF b] by auto
  consider "\<not> hs" | "hs" "\<not> body_spawnRequested b" | "hs" "body_spawnRequested b" "\<not> IsDefined (body_entityId b)"
    | "hs" "body_spawnRequested b" "IsDefined (body_entityId b)" by blast
  then show ?thesis
  proof cases
    case 2
    from 2 b show ?thesis
      by (auto simp: pump_snapshot_def request_body_def Let_def split: option.splits prod.splits
          intro: body_step.refused body_step.created)
  next
    case 4
    then show ?thesis
      using idle b body_step.sampled [of b now s]
      by (cases "en_GetEntity E (body_entityId b) (ws_engine w)") (auto simp: pump_snapshot_def)
  qed (use idle b in \<open>auto simp: pump_snapshot_def\<close>)
qed

lemma update_present: "map_of al k = Some v \<Longrightarrow> map fst (AList.update k x al) = map fst al"
  by (induction al) (auto split: if_splits)

lemma pump_snapshot_keys: "map fst (m_bodies (pump_snapshot E now hs x w)) = map fst (m_bodies w)"
proof -
  obtain p s where x: "x = (p, s)" by fastforce
  show ?thesis
  proof (cases "map_of (m_bodies w) p")
    case None
    then show ?thesis by (simp add: x pump_snapshot_absent)
  next
    case (Some b)
    with pump_snapshot_step [OF Some, of now s E hs] show ?thesis by (auto simp: x update_present)
  qed
qed

lemma fold_snapshots_keys [simp]:
  "map fst (m_bodies (fold (pump_snapshot E now hs) xs w)) = map fst (m_bodies w)"
  by (rule fold_keeps) (rule pump_snapshot_keys)

text \<open>A property of every body that a step keeps is kept by the pump, when new bodies have it.\<close>

definition all_bodies :: "(RemoteBody \<Rightarrow> bool) \<Rightarrow> 'e world \<Rightarrow> bool" where
  "all_bodies P w \<longleftrightarrow> (\<forall>(p, b) \<in> set (m_bodies w). P b)"

lemma set_update_subset: "set (AList.update k v al) \<subseteq> insert (k, v) (set al)"
  by (induction al) auto

lemma all_bodies_update:
  "all_bodies P w \<Longrightarrow> P b \<Longrightarrow> m_bodies w' = AList.update p b (m_bodies w) \<Longrightarrow> all_bodies P w'"
  using set_update_subset [of p b "m_bodies w"] by (auto simp: all_bodies_def)

lemma all_bodies_lookup: "all_bodies P w \<Longrightarrow> map_of (m_bodies w) p = Some b \<Longrightarrow> P b"
  by (auto simp: all_bodies_def dest: map_of_SomeD)

lemma pump_snapshot_all:
  assumes "\<And>s b b'. body_step now s b b' \<Longrightarrow> P b \<Longrightarrow> P b'" and "all_bodies P w"
  shows "all_bodies P (pump_snapshot E now hs x w)"
proof -
  obtain p s where x: "x = (p, s)" by fastforce
  show ?thesis
  proof (cases "map_of (m_bodies w) p")
    case None
    with assms(2) show ?thesis by (simp add: x pump_snapshot_absent)
  next
    case (Some b)
    from pump_snapshot_step [OF this, of now s E hs] obtain b' where "body_step now s b b'"
      and u: "m_bodies (pump_snapshot E now hs (p, s) w) = AList.update p b' (m_bodies w)" by blast
    with assms(1) all_bodies_lookup [OF assms(2) Some] have "P b'" by blast
    from all_bodies_update [OF assms(2) this] u show ?thesis by (simp add: x)
  qed
qed

lemma pump_event_all: "P RemoteBody_default \<Longrightarrow> all_bodies P w \<Longrightarrow> all_bodies P (pump_event E e w)"
  by (auto simp: pump_event_def all_bodies_def AList.delete_eq split: option.splits
      dest!: subsetD [OF set_update_subset])

lemma fold_all: "(\<And>x w. Q w \<Longrightarrow> Q (f x w)) \<Longrightarrow> Q w \<Longrightarrow> Q (fold f xs w)"
  by (induction xs arbitrary: w) simp_all

lemma all_bodies_frame [simp]:
  "all_bodies P (w\<lparr>ws_net := n\<rparr>) = all_bodies P w" "all_bodies P (w\<lparr>m_snapshotBuffer := xs\<rparr>) = all_bodies P w"
  by (simp_all add: all_bodies_def)

lemma Pump_all:
  assumes "\<And>s b b'. body_step now s b b' \<Longrightarrow> P b \<Longrightarrow> P b'" and "P RemoteBody_default" and "all_bodies P w"
  shows "all_bodies P (PumpRemotePlayers E order now w)"
proof -
  let ?w1 = "fold (pump_event E) (m_events (ws_net w)) (w\<lparr>ws_net := (ws_net w)\<lparr>m_events := []\<rparr>\<rparr>)"
  have w1: "all_bodies P ?w1"
    by (rule fold_all) (use assms(2,3) in \<open>simp_all add: pump_event_all\<close>)
  have "all_bodies P (fold (pump_snapshot E now hs) xs (?w1\<lparr>m_snapshotBuffer := xs\<rparr>))" for hs xs
    by (rule fold_all) (use assms(1) w1 pump_snapshot_all in \<open>simp_all, blast\<close>)
  with w1 show ?thesis by (simp add: PumpRemotePlayers_def TakeEvents_def Let_def)
qed

section \<open>The operations of the game system as one transition function\<close>

datatype world_op =
    W_datagram u64 "u8 list"
  | W_frame tick_info
  | W_update tick_info
  | W_attach
  | W_detach
  | W_prop
  | W_npc string
  | W_despawn
  | W_post u64 u32
  | W_connect "u64 option" u32 string
  | W_disconnect
  | W_move_mode u32
  | W_body_kind u32
  | W_template string
  | W_interpolation bool

text \<open>The game, sendto() and the two orders of iteration are fixed for a run.\<close>

record 'e setting =
  set_engine :: "'e engine"
  set_sendto :: os_sendto
  set_snapshots :: "(u32 \<times> RemoteSnapshot) list \<Rightarrow> (u32 \<times> RemoteSnapshot) list"
  set_players :: "u32 list \<Rightarrow> u32 list"

fun world_step :: "'e setting \<Rightarrow> world_op \<Rightarrow> 'e world \<Rightarrow> 'e world" where
  "world_step S (W_datagram us d) w = w\<lparr>ws_net := HandleDatagram us d (ws_net w)\<rparr>"
| "world_step S (W_frame tk) w = OnFrameBegin tk w"
| "world_step S (W_update tk) w = OnMultiplayerUpdate (set_engine S) (set_sendto S) (set_snapshots S) tk w"
| "world_step S W_attach w = OnWorldAttached w"
| "world_step S W_detach w = OnWorldDetached w"
| "world_step S W_prop w = snd (SpawnProp (set_engine S) w)"
| "world_step S (W_npc r) w = snd (SpawnNpc (set_engine S) r w)"
| "world_step S W_despawn w = snd (DespawnAll (set_engine S) w)"
| "world_step S (W_post t n) w = snd (PostTasksFromThread t n w)"
| "world_step S (W_connect h p u) w = snd (WorldSystem_Connect h p u w)"
| "world_step S W_disconnect w = snd (WorldSystem_Disconnect w)"
| "world_step S (W_move_mode n) w = snd (SetMoveMode n w)"
| "world_step S (W_body_kind n) w = snd (SetBodyKind (set_engine S) (set_players S) n w)"
| "world_step S (W_template p) w = snd (SetBodyTemplate (set_engine S) (set_players S) p w)"
| "world_step S (W_interpolation b) w = snd (SetInterpolation b w)"

definition world_run :: "'e setting \<Rightarrow> world_op list \<Rightarrow> 'e world \<Rightarrow> 'e world" where
  "world_run S ops w = fold (world_step S) ops w"

text \<open>Draining tasks touches the queue, the client's counter and the thread flag only.\<close>

definition net_core :: "NetClient \<Rightarrow> NetClient" where
  "net_core c = c\<lparr>m_appliedOnGameThread := 0, m_tasks := []\<rparr>"

lemma net_core_update [simp]:
  "net_core (c\<lparr>m_appliedOnGameThread := n\<rparr>) = net_core c" "net_core (c\<lparr>m_tasks := q\<rparr>) = net_core c"
  by (simp_all add: net_core_def)

lemma net_core_fields:
  assumes "net_core c = net_core c'"
  shows "m_events c = m_events c'" and "m_remote c = m_remote c'" and "m_state c = m_state c'"
    and "m_statesSent c = m_statesSent c'" and "m_stateTick c = m_stateTick c'" and "m_server c = m_server c'"
    and "m_socket c = m_socket c'" and "nc_out c = nc_out c'"
  using assms unfolding net_core_def by (cases c; cases c'; simp)+

lemma exec_task_frame:
  "case exec_task th t w of (w', ps) \<Rightarrow> ps = [] \<and> m_bodies w' = m_bodies w \<and> ws_self w' = ws_self w \<and>
     m_moveMode w' = m_moveMode w \<and> m_bodyKind w' = m_bodyKind w \<and> m_spawned w' = m_spawned w \<and>
     m_lastStateSentMs w' = m_lastStateSentMs w \<and> m_drainThreadId w' = m_drainThreadId w \<and>
     m_tasksRun w' = m_tasksRun w \<and> ws_engine w' = ws_engine w \<and>
     net_core (ws_net w') = net_core (ws_net w)"
  by (cases t) (simp_all add: exec_task_def)

lemma run_tasks_frame:
  "run_tasks (exec_task th) ts w q = (w', q') \<Longrightarrow> q' = q \<and> m_bodies w' = m_bodies w \<and> ws_self w' = ws_self w \<and>
     m_moveMode w' = m_moveMode w \<and> m_bodyKind w' = m_bodyKind w \<and> m_spawned w' = m_spawned w \<and>
     m_lastStateSentMs w' = m_lastStateSentMs w \<and> m_drainThreadId w' = m_drainThreadId w \<and>
     m_tasksRun w' = m_tasksRun w \<and> ws_engine w' = ws_engine w \<and>
     net_core (ws_net w') = net_core (ws_net w)"
proof (induction ts arbitrary: w)
  case Nil
  then show ?case by simp
next
  case (Cons t ts)
  obtain w1 ps where e: "exec_task th t w = (w1, ps)" by fastforce
  with exec_task_frame [where th = th and t = t and w = w] have p: "ps = []" by simp
  with Cons.prems e have "run_tasks (exec_task th) ts w1 q = (w', q')" by simp
  from Cons.IH [OF this] exec_task_frame [where th = th and t = t and w = w] e show ?case by simp
qed

lemma drain_tasks_frame:
  assumes "drain_tasks th n w = (k, w')"
  shows "m_bodies w' = m_bodies w" and "ws_self w' = ws_self w" and "m_moveMode w' = m_moveMode w"
    and "m_bodyKind w' = m_bodyKind w" and "m_spawned w' = m_spawned w" and "m_lastStateSentMs w' = m_lastStateSentMs w"
    and "ws_engine w' = ws_engine w" and "m_drainThreadId w' = m_drainThreadId w" and "m_tasksRun w' = m_tasksRun w"
    and "net_core (ws_net w') = net_core (ws_net w)"
proof -
  obtain running q where t: "Drain_take n (m_tasks (ws_net w)) = (running, q)" by fastforce
  obtain w1 q1 where r: "run_tasks (exec_task th) running w q = (w1, q1)" by fastforce
  from assms have w': "w' = w1\<lparr>ws_net := (ws_net w1)\<lparr>m_tasks := q1\<rparr>\<rparr>"
    by (simp add: drain_tasks_def Drain_def t r)
  from run_tasks_frame [OF r] show "m_bodies w' = m_bodies w" "ws_self w' = ws_self w" "m_moveMode w' = m_moveMode w"
    "m_bodyKind w' = m_bodyKind w" "m_spawned w' = m_spawned w" "m_lastStateSentMs w' = m_lastStateSentMs w"
    "ws_engine w' = ws_engine w" "m_drainThreadId w' = m_drainThreadId w" "m_tasksRun w' = m_tasksRun w"
    "net_core (ws_net w') = net_core (ws_net w)"
    unfolding w' by simp_all
qed

text \<open>The counter of a tick is one of two.\<close>

definition tick_counter :: "('e world \<Rightarrow> 'e world) \<Rightarrow> bool" where
  "tick_counter f \<longleftrightarrow> f = (\<lambda>w. w\<lparr>m_frameBeginTicks := m_frameBeginTicks w + 1\<rparr>) \<or>
     f = (\<lambda>w. w\<lparr>m_multiplayerTicks := m_multiplayerTicks w + 1\<rparr>)"

lemma RunTick_frame:
  assumes "tick_counter f"
  shows "m_bodies (RunTick tk f w) = m_bodies w" and "ws_self (RunTick tk f w) = ws_self w"
    and "m_moveMode (RunTick tk f w) = m_moveMode w" and "m_bodyKind (RunTick tk f w) = m_bodyKind w"
    and "m_spawned (RunTick tk f w) = m_spawned w" and "m_lastStateSentMs (RunTick tk f w) = m_lastStateSentMs w"
    and "ws_engine (RunTick tk f w) = ws_engine w"
    and "net_core (ws_net (RunTick tk f w)) = net_core (ws_net w)"
proof -
  let ?w3 = "tick_own tk (tick_enter tk f w)"
  obtain k w4 where d: "drain_tasks (tk_thread tk) 64 ?w3 = (k, w4)" by fastforce
  note fr = drain_tasks_frame [OF d]
  have w3: "m_bodies ?w3 = m_bodies w" "ws_self ?w3 = ws_self w" "m_moveMode ?w3 = m_moveMode w"
    "m_bodyKind ?w3 = m_bodyKind w" "m_spawned ?w3 = m_spawned w" "m_lastStateSentMs ?w3 = m_lastStateSentMs w"
    "ws_engine ?w3 = ws_engine w" "ws_net ?w3 = ws_net w"
    using assms by (auto simp: tick_counter_def tick_own_def tick_enter_def Let_def)
  show "m_bodies (RunTick tk f w) = m_bodies w" "ws_self (RunTick tk f w) = ws_self w"
    "m_moveMode (RunTick tk f w) = m_moveMode w" "m_bodyKind (RunTick tk f w) = m_bodyKind w"
    "m_spawned (RunTick tk f w) = m_spawned w" "m_lastStateSentMs (RunTick tk f w) = m_lastStateSentMs w"
    "ws_engine (RunTick tk f w) = ws_engine w"
    "net_core (ws_net (RunTick tk f w)) = net_core (ws_net w)"
    unfolding RunTick_def d prod.case tick_leave_def tick_ran_def using fr w3 by simp_all
qed

lemma counters [simp]:
  "tick_counter (\<lambda>w. w\<lparr>m_frameBeginTicks := m_frameBeginTicks w + 1\<rparr>)"
  "tick_counter (\<lambda>w. w\<lparr>m_multiplayerTicks := m_multiplayerTicks w + 1\<rparr>)"
  by (simp_all add: tick_counter_def)

lemma SendLocalState_frame [simp]:
  "m_bodies (SendLocalState E os now w) = m_bodies w" "ws_self (SendLocalState E os now w) = ws_self w"
  "m_moveMode (SendLocalState E os now w) = m_moveMode w" "m_bodyKind (SendLocalState E os now w) = m_bodyKind w"
  "m_spawned (SendLocalState E os now w) = m_spawned w" "ws_engine (SendLocalState E os now w) = ws_engine w"
  by (simp_all add: SendLocalState_def Let_def)

section \<open>The invariant\<close>

text \<open>
  A body that was not asked for is as it was made; one that has no entity has no samples; the window
  holds at most kMaxSamples. The registry holds defined ids only, and the switches are in range.
\<close>

definition body_ok :: "RemoteBody \<Rightarrow> bool" where
  "body_ok b \<longleftrightarrow> length (body_samples b) \<le> kMaxSamples \<and>
     (body_spawnRequested b \<or> b = RemoteBody_default) \<and> (IsDefined (body_entityId b) \<or> body_samples b = [])"

definition world_inv :: "'e world \<Rightarrow> bool" where
  "world_inv w \<longleftrightarrow> distinct (map fst (m_bodies w)) \<and> all_bodies body_ok w \<and> m_moveMode w \<le> 3 \<and> m_bodyKind w \<le> 1 \<and>
     list_all IsDefined (m_spawned w)"

lemma body_ok_default [simp]: "body_ok RemoteBody_default"
  by (simp add: body_ok_def RemoteBody_default_def)

lemma add_sample_length: "length (body_samples b) \<le> kMaxSamples \<Longrightarrow> length (body_samples (add_sample now s b)) \<le> kMaxSamples"
  by (auto simp: add_sample_def Let_def kMaxSamples_def)

lemma body_step_ok: "body_step now s b b' \<Longrightarrow> body_ok b \<Longrightarrow> body_ok b'"
  by (erule body_stepE) (auto simp: body_ok_def RemoteBody_default_def IsDefined_def add_sample_length,
      auto simp: add_sample_def Let_def)

lemma pump_event_keys:
  "fst ` set (m_bodies (pump_event E e w)) =
     (if ev_joined e then insert (ev_playerId e) (fst ` set (m_bodies w)) else fst ` set (m_bodies w) - {ev_playerId e})"
  "distinct (map fst (m_bodies w)) \<Longrightarrow> distinct (map fst (m_bodies (pump_event E e w)))"
proof -
  have k: "map_of (m_bodies w) p = None \<longleftrightarrow> p \<notin> fst ` set (m_bodies w)" for p
    by (simp add: map_of_eq_None_iff)
  have s: "\<exists>b. map_of (m_bodies w) p = Some b" if "p \<in> fst ` set (m_bodies w)" for p
    using k [of p] that by auto
  show "fst ` set (m_bodies (pump_event E e w)) =
     (if ev_joined e then insert (ev_playerId e) (fst ` set (m_bodies w)) else fst ` set (m_bodies w) - {ev_playerId e})"
  proof (cases "ev_playerId e \<in> fst ` set (m_bodies w)")
    case True
    with s [OF True] show ?thesis
      by (auto simp: pump_event_def AList.delete_eq rev_image_eqI)
  next
    case False
    then have n: "map_of (m_bodies w) (ev_playerId e) = None" by (simp only: k not_False_eq_True)
    from False show ?thesis by (simp add: pump_event_def n dom_update)
  qed
  show "distinct (map fst (m_bodies w)) \<Longrightarrow> distinct (map fst (m_bodies (pump_event E e w)))"
    by (auto simp: pump_event_def distinct_update distinct_delete split: option.splits)
qed

lemma pump_event_spawned [simp]: "m_spawned (pump_event E e w) = m_spawned w"
  by (simp add: pump_event_def split: option.splits)

lemma apply_target_spawned [simp]: "m_spawned (apply_target E h s v w) = m_spawned w"
  by (simp add: apply_target_def Let_def split: prod.splits)

lemma pump_snapshot_spawned [simp]: "m_spawned (pump_snapshot E now hs x w) = m_spawned w"
  by (simp add: pump_snapshot_def request_body_def move_body_def Let_def split: prod.splits option.splits)

lemma Pump_keys:
  "map fst (m_bodies (PumpRemotePlayers E order now w)) =
     map fst (m_bodies (fold (pump_event E) (m_events (ws_net w)) (w\<lparr>ws_net := (ws_net w)\<lparr>m_events := []\<rparr>\<rparr>)))"
  by (simp add: PumpRemotePlayers_def TakeEvents_def Let_def)

lemma Pump_spawned [simp]: "m_spawned (PumpRemotePlayers E order now w) = m_spawned w"
  by (simp add: PumpRemotePlayers_def TakeEvents_def Let_def fold_keeps)

lemma Pump_inv: "world_inv w \<Longrightarrow> world_inv (PumpRemotePlayers E order now w)"
proof -
  assume w: "world_inv w"
  have "distinct (map fst (m_bodies (fold (pump_event E) es (w\<lparr>ws_net := n\<rparr>))))" for es n
  proof (rule fold_all)
    show "distinct (map fst (m_bodies (w\<lparr>ws_net := n\<rparr>)))" using w by (simp add: world_inv_def)
  qed (rule pump_event_keys(2))
  then have "distinct (map fst (m_bodies (PumpRemotePlayers E order now w)))" by (simp only: Pump_keys)
  moreover have "all_bodies body_ok (PumpRemotePlayers E order now w)"
    by (rule Pump_all [where P = body_ok, OF body_step_ok body_ok_default]) (use w in \<open>simp_all add: world_inv_def\<close>)
  ultimately show ?thesis using w by (simp add: world_inv_def)
qed

lemma reset_default:
  "b\<lparr>body_entityId := 0, body_spawnRequested := False, body_lastTick := 0, body_samples := []\<rparr> = RemoteBody_default"
  by (cases b) (simp add: RemoteBody_default_def)

lemma reset_body_bodies:
  "map fst (m_bodies (reset_body E p w)) = map fst (m_bodies w)"
  "all_bodies P w \<Longrightarrow> P RemoteBody_default \<Longrightarrow> all_bodies P (reset_body E p w)"
proof -
  have e: "m_bodies (reset_body E p w) = (case map_of (m_bodies w) p of None \<Rightarrow> m_bodies w
      | Some b \<Rightarrow> AList.update p RemoteBody_default (m_bodies w))"
    by (simp add: reset_body_def reset_default split: option.splits)
  show "map fst (m_bodies (reset_body E p w)) = map fst (m_bodies w)"
    by (simp add: e update_present split: option.splits)
  show "all_bodies P w \<Longrightarrow> P RemoteBody_default \<Longrightarrow> all_bodies P (reset_body E p w)"
    by (auto simp: e all_bodies_def split: option.splits dest!: subsetD [OF set_update_subset])
qed

lemma reset_body_frame [simp]:
  "m_moveMode (reset_body E p w) = m_moveMode w" "m_bodyKind (reset_body E p w) = m_bodyKind w"
  "m_spawned (reset_body E p w) = m_spawned w" "ws_net (reset_body E p w) = ws_net w"
  "ws_self (reset_body E p w) = ws_self w" "m_lastStateSentMs (reset_body E p w) = m_lastStateSentMs w"
  by (simp_all add: reset_body_def split: option.splits)

lemma fold_reset [simp]:
  "map fst (m_bodies (fold (reset_body E) ps w)) = map fst (m_bodies w)"
  "m_moveMode (fold (reset_body E) ps w) = m_moveMode w" "m_bodyKind (fold (reset_body E) ps w) = m_bodyKind w"
  "m_spawned (fold (reset_body E) ps w) = m_spawned w" "ws_net (fold (reset_body E) ps w) = ws_net w"
  "m_lastStateSentMs (fold (reset_body E) ps w) = m_lastStateSentMs w"
  using fold_keeps [of "\<lambda>w. map fst (m_bodies w)" "reset_body E" ps w] reset_body_bodies(1) [of E]
  by (simp_all add: fold_keeps)

lemma fold_reset_all: "all_bodies P w \<Longrightarrow> P RemoteBody_default \<Longrightarrow> all_bodies P (fold (reset_body E) ps w)"
  by (rule fold_all) (simp_all add: reset_body_bodies(2))

lemma SetBodyKind_inv: "world_inv w \<Longrightarrow> world_inv (snd (SetBodyKind E order k w))"
proof -
  assume w: "world_inv w"
  then have "all_bodies body_ok (w\<lparr>m_bodyKind := k\<rparr>)" by (simp add: world_inv_def all_bodies_def)
  then have "all_bodies body_ok (fold (reset_body E) ps (w\<lparr>m_bodyKind := k\<rparr>))" for ps
    by (rule fold_reset_all) simp
  with w show ?thesis by (simp add: SetBodyKind_def Let_def world_inv_def not_less)
qed

lemma RunTick_inv: "tick_counter f \<Longrightarrow> world_inv w \<Longrightarrow> world_inv (RunTick tk f w)"
  by (simp add: world_inv_def all_bodies_def RunTick_frame)

lemma TrackSpawned_inv: "world_inv w \<Longrightarrow> IsDefined i \<Longrightarrow> world_inv (TrackSpawned i w)"
  by (simp add: world_inv_def all_bodies_def TrackSpawned_def)

lemma SubmitSpec_defined: "SubmitSpec E spec e = (True, i, e') \<Longrightarrow> IsDefined i"
  by (auto simp: SubmitSpec_def split: if_splits prod.splits)

lemma world_inv_frame [simp]:
  "world_inv (w\<lparr>ws_engine := e\<rparr>) = world_inv w" "world_inv (w\<lparr>ws_net := n\<rparr>) = world_inv w"
  "world_inv (w\<lparr>m_worldAttached := b\<rparr>) = world_inv w" "world_inv (w\<lparr>m_bodyTemplate := p\<rparr>) = world_inv w"
  "world_inv (w\<lparr>m_interpolate := b\<rparr>) = world_inv w" "world_inv (w\<lparr>m_starvedFrames := k\<rparr>) = world_inv w"
  "world_inv (w\<lparr>m_producerThreadId := k\<rparr>) = world_inv w"
  by (simp_all add: world_inv_def all_bodies_def)

lemma world_step_inv: "world_inv w \<Longrightarrow> world_inv (world_step S op w)"
proof (cases op)
  case (W_update tk)
  assume w: "world_inv w"
  have "world_inv (SendLocalState E os now v) = world_inv v" for E :: "'a engine" and os now v
    by (simp add: world_inv_def all_bodies_def)
  with W_update w show ?thesis by (simp add: OnMultiplayerUpdate_def Pump_inv RunTick_inv)
next
  case W_prop
  assume "world_inv w"
  with W_prop show ?thesis
    by (auto simp: SpawnProp_def Let_def split: option.splits prod.splits if_splits
        intro!: TrackSpawned_inv dest: SubmitSpec_defined)
next
  case (W_npc r)
  assume "world_inv w"
  with W_npc show ?thesis
    by (auto simp: SpawnNpc_def Let_def split: option.splits prod.splits if_splits
        intro!: TrackSpawned_inv dest: SubmitSpec_defined)
next
  case W_despawn
  assume "world_inv w"
  then have "world_inv (w\<lparr>m_spawned := []\<rparr>)" by (simp add: world_inv_def all_bodies_def)
  with W_despawn \<open>world_inv w\<close> show ?thesis by (simp add: DespawnAll_def Let_def split: prod.splits)
next
  case (W_move_mode n)
  assume "world_inv w"
  with W_move_mode show ?thesis by (simp add: SetMoveMode_def world_inv_def all_bodies_def not_less)
next
  case (W_template p)
  assume "world_inv w"
  with W_template show ?thesis by (simp add: SetBodyTemplate_def SetBodyKind_inv)
next
  case W_detach
  assume "world_inv w"
  with W_detach show ?thesis by (simp add: OnWorldDetached_def world_inv_def all_bodies_def)
next
  case (W_connect h p u)
  assume "world_inv w"
  with W_connect show ?thesis by (simp add: WorldSystem_Connect_def Let_def split: prod.splits)
qed (simp_all add: OnFrameBegin_def RunTick_inv OnWorldAttached_def SetBodyKind_inv PostTasksFromThread_def
    WorldSystem_Disconnect_def SetInterpolation_def)

lemma mk_WorldSystem_inv: "world_inv (mk_WorldSystem e net)"
  by (simp add: world_inv_def mk_WorldSystem_def all_bodies_def)

lemma world_run_inv: "world_inv w \<Longrightarrow> world_inv (world_run S ops w)"
  unfolding world_run_def by (rule fold_all) (simp_all add: world_step_inv)

section \<open>Which players have a body\<close>

text \<open>
  The specification of the bodies is a queue of announcements and the set of players with a body: a
  datagram may announce, a multiplayer update applies what is queued, a successful connect empties the
  queue, and nothing else changes either.
\<close>

definition roster :: "RemoteEvent list \<Rightarrow> u32 set \<Rightarrow> u32 set" where
  "roster es K = fold (\<lambda>e K. if ev_joined e then insert (ev_playerId e) K else K - {ev_playerId e}) es K"

lemma roster_append: "roster (es @ fs) K = roster fs (roster es K)"
  by (simp add: roster_def)

definition abs_bodies :: "'e world \<Rightarrow> RemoteEvent list \<times> u32 set" where
  "abs_bodies w = (m_events (ws_net w), fst ` set (m_bodies w))"

text \<open>started says whether the sockets library could be initialised.\<close>

fun roster_step ::
  "bool \<Rightarrow> world_op \<Rightarrow> RemoteEvent list \<times> u32 set \<Rightarrow> RemoteEvent list \<times> u32 set \<Rightarrow> bool" where
  "roster_step started (W_datagram us d) (q, K) x = (x = (q @ announces d, K))"
| "roster_step started (W_update tk) (q, K) x = (x = ([], roster q K))"
| "roster_step started (W_connect h p u) (q, K) x =
     (x = (if p \<noteq> 0 \<and> p \<le> 65535 \<and> started \<and> h \<noteq> None then ([], K) else (q, K)))"
| "roster_step started _ (q, K) x = (x = (q, K))"

lemma fold_events_keys: "fst ` set (m_bodies (fold (pump_event E) es w)) = roster es (fst ` set (m_bodies w))"
  by (induction es arbitrary: w) (simp_all add: roster_def pump_event_keys(1))

lemma Pump_roster:
  "fst ` set (m_bodies (PumpRemotePlayers E order now w)) = roster (m_events (ws_net w)) (fst ` set (m_bodies w))"
proof -
  have "fst ` set (m_bodies (PumpRemotePlayers E order now w)) =
      set (map fst (m_bodies (PumpRemotePlayers E order now w)))" by simp
  also have "\<dots> = fst ` set (m_bodies (fold (pump_event E) (m_events (ws_net w)) (w\<lparr>ws_net := (ws_net w)\<lparr>m_events := []\<rparr>\<rparr>)))"
    by (simp only: Pump_keys set_map)
  finally show ?thesis by (simp add: fold_events_keys)
qed

lemma SendState_events [simp]:
  "m_events (snd (SendState os x y z r c)) = m_events c"
  by (auto simp: SendState_def client_send_def Let_def split: prod.splits bool.splits option.splits)

lemma SendLocalState_events [simp]: "m_events (ws_net (SendLocalState E os now w)) = m_events (ws_net w)"
  by (simp add: SendLocalState_def Let_def)

lemma RunTick_abs: "tick_counter f \<Longrightarrow> abs_bodies (RunTick tk f w) = abs_bodies w"
  using net_core_fields(1) [OF RunTick_frame(8)] by (simp add: abs_bodies_def RunTick_frame)

lemma Update_abs:
  "abs_bodies (OnMultiplayerUpdate E os order tk w) = ([], roster (m_events (ws_net w)) (fst ` set (m_bodies w)))"
proof -
  let ?f = "\<lambda>w :: 'a world. w\<lparr>m_multiplayerTicks := m_multiplayerTicks w + 1\<rparr>"
  have "abs_bodies (RunTick tk ?f w) = abs_bodies w" by (rule RunTick_abs) simp
  then show ?thesis by (simp add: OnMultiplayerUpdate_def abs_bodies_def Pump_roster)
qed

lemma Connect_events:
  "NetClient_Connect h p u c = (ok, c') \<Longrightarrow>
     m_events c' = (if m_ok (m_startup c) \<and> h \<noteq> None then [] else m_events c)"
  by (auto simp: NetClient_Connect_def NetClient_Disconnect_def SetError_def UdpSocket_Open_def Let_def
      split: if_splits prod.splits bool.splits option.splits)

lemma Spawn_abs:
  "abs_bodies (snd (SpawnProp E w)) = abs_bodies w" "abs_bodies (snd (SpawnNpc E r w)) = abs_bodies w"
  by (simp_all add: abs_bodies_def SpawnProp_def SpawnNpc_def TrackSpawned_def Let_def split: option.splits prod.splits)

lemma SetBodyKind_abs: "abs_bodies (snd (SetBodyKind E order k w)) = abs_bodies w"
proof -
  have "fst ` set (m_bodies (fold (reset_body E) ps w')) = fst ` set (m_bodies w')" for ps w'
    using fold_reset(1) [of E ps w'] by (metis set_map)
  then show ?thesis by (simp add: SetBodyKind_def abs_bodies_def Let_def)
qed

lemma roster_step_world:
  "roster_step (m_ok (m_startup (ws_net w))) op (abs_bodies w) (abs_bodies (world_step S op w))"
proof (cases op)
  case (W_connect h p u)
  obtain ok c' where c: "NetClient_Connect h (ucast p) (if length u > 0 then u else ''player'') (ws_net w) = (ok, c')"
    by fastforce
  from Connect_events [OF c] W_connect c show ?thesis
    by (auto simp: WorldSystem_Connect_def abs_bodies_def Let_def)
next
  case (W_datagram us d)
  then show ?thesis by (simp add: abs_bodies_def HandleDatagram_events)
next
  case (W_update tk)
  then have "abs_bodies (world_step S op w) = ([], roster (m_events (ws_net w)) (fst ` set (m_bodies w)))"
    by (simp add: Update_abs)
  with W_update show ?thesis by (simp add: abs_bodies_def [of w])
next
  case (W_frame tk)
  have "abs_bodies (OnFrameBegin tk w) = abs_bodies w" unfolding OnFrameBegin_def by (rule RunTick_abs) simp
  with W_frame show ?thesis by (simp add: abs_bodies_def)
next
  case W_prop
  then show ?thesis using Spawn_abs(1) [of "set_engine S" w] by (simp add: abs_bodies_def)
next
  case (W_npc r)
  then show ?thesis using Spawn_abs(2) [of "set_engine S" r w] by (simp add: abs_bodies_def)
next
  case (W_body_kind k)
  then show ?thesis using SetBodyKind_abs [of "set_engine S" "set_players S" k w] by (simp add: abs_bodies_def)
next
  case (W_template p)
  then show ?thesis
    using SetBodyKind_abs [of "set_engine S" "set_players S" 1 "w\<lparr>m_bodyTemplate := p\<rparr>"]
    by (simp add: SetBodyTemplate_def abs_bodies_def)
qed (simp_all add: abs_bodies_def OnWorldAttached_def OnWorldDetached_def DespawnAll_def PostTasksFromThread_def
    WorldSystem_Disconnect_def NetClient_Disconnect_def SetMoveMode_def SetInterpolation_def Let_def split: prod.splits)

section \<open>The window of samples\<close>

definition window_ok :: "u64 \<Rightarrow> RemoteBody \<Rightarrow> bool" where
  "window_ok now b \<longleftrightarrow> sorted (map smp_localMs (body_samples b)) \<and> (\<forall>s \<in> set (body_samples b). smp_localMs s \<le> now)"

lemma window_ok_mono: "window_ok now b \<Longrightarrow> now \<le> now' \<Longrightarrow> window_ok now' b"
  by (auto simp: window_ok_def)

lemma window_ok_default [simp]: "window_ok now RemoteBody_default"
  by (simp add: window_ok_def RemoteBody_default_def)

lemma sorted_drop1: "sorted xs \<Longrightarrow> sorted (drop 1 xs)"
  by (cases xs) auto

lemma add_sample_window: "window_ok now b \<Longrightarrow> window_ok now (add_sample now s b)"
  by (cases "body_samples b") (auto simp: window_ok_def add_sample_def Let_def sorted_append)

lemma body_step_window: "body_step now s b b' \<Longrightarrow> window_ok now b \<Longrightarrow> window_ok now b'"
  by (erule body_stepE) (simp_all add: add_sample_window, simp_all add: window_ok_def)

fun op_times :: "world_op \<Rightarrow> u64 list" where
  "op_times (W_update tk) = [tk_nowMs tk]"
| "op_times _ = []"

lemma all_bodies_mono: "all_bodies P w \<Longrightarrow> (\<And>b. P b \<Longrightarrow> Q b) \<Longrightarrow> all_bodies Q w"
  by (auto simp: all_bodies_def)

lemma all_bodies_same: "m_bodies w' = m_bodies w \<Longrightarrow> all_bodies P w \<Longrightarrow> all_bodies P w'"
  by (simp add: all_bodies_def)

lemma SetBodyKind_all: "P RemoteBody_default \<Longrightarrow> all_bodies P w \<Longrightarrow> all_bodies P (snd (SetBodyKind E order k w))"
proof -
  assume d: "P RemoteBody_default" and w: "all_bodies P w"
  have "all_bodies P (fold (reset_body E) ps (w\<lparr>m_bodyKind := k\<rparr>))" for ps
    by (rule fold_reset_all [OF all_bodies_same [OF _ w] d]) simp
  with w show ?thesis by (simp add: SetBodyKind_def Let_def)
qed

text \<open>Every operation but a multiplayer update keeps a property of all bodies that new ones have.\<close>

lemma world_step_all:
  assumes P: "P RemoteBody_default" "all_bodies P w"
    and step: "\<And>tk s b b'. op = W_update tk \<Longrightarrow> body_step (tk_nowMs tk) s b b' \<Longrightarrow> P b \<Longrightarrow> P b'"
  shows "all_bodies P (world_step S op w)"
proof (cases op)
  case (W_update tk)
  let ?f = "\<lambda>w :: 'a world. w\<lparr>m_multiplayerTicks := m_multiplayerTicks w + 1\<rparr>"
  have r: "all_bodies P (RunTick tk ?f w)" by (rule all_bodies_same [OF RunTick_frame(1) P(2)]) simp
  have "all_bodies P (PumpRemotePlayers (set_engine S) (set_snapshots S) (tk_nowMs tk) (RunTick tk ?f w))"
    by (rule Pump_all [where P = P, OF step [OF W_update] P(1) r])
  with W_update show ?thesis by (simp add: OnMultiplayerUpdate_def all_bodies_def)
next
  case (W_body_kind k)
  with P show ?thesis by (simp add: SetBodyKind_all)
next
  case (W_template t)
  have "all_bodies P (w\<lparr>m_bodyTemplate := t\<rparr>)" by (rule all_bodies_same [OF _ P(2)]) simp
  with W_template P show ?thesis by (simp add: SetBodyTemplate_def SetBodyKind_all)
next
  case (W_connect h p u)
  show ?thesis
    by (rule all_bodies_same [OF _ P(2)]) (simp add: W_connect WorldSystem_Connect_def Let_def split: prod.splits)
qed (rule all_bodies_same [OF _ P(2)],
    simp add: OnFrameBegin_def RunTick_frame OnWorldAttached_def OnWorldDetached_def DespawnAll_def
      PostTasksFromThread_def WorldSystem_Disconnect_def SetMoveMode_def SetInterpolation_def SpawnProp_def SpawnNpc_def
      TrackSpawned_def Let_def split: prod.splits option.splits)+

lemma world_run_window:
  "all_bodies (window_ok T) w \<Longrightarrow> sorted (T # concat (map op_times ops)) \<Longrightarrow>
   \<exists>T'. all_bodies (window_ok T') (world_run S ops w)"
proof (induction ops arbitrary: T w)
  case Nil
  then show ?case by (auto simp: world_run_def)
next
  case (Cons op ops)
  let ?T = "case op of W_update tk \<Rightarrow> tk_nowMs tk | _ \<Rightarrow> T"
  have le: "T \<le> ?T" and s: "sorted (?T # concat (map op_times ops))"
    using Cons.prems(2) by (cases op; simp)+
  have "all_bodies (window_ok ?T) w" by (rule all_bodies_mono [OF Cons.prems(1)]) (rule window_ok_mono [OF _ le])
  then have "all_bodies (window_ok ?T) (world_step S op w)"
    by (rule world_step_all [where P = "window_ok ?T", OF window_ok_default]) (auto dest: body_step_window)
  from Cons.IH [OF this s] show ?case by (simp add: world_run_def)
qed

section \<open>A concrete game\<close>

text \<open>
  A game whose state is the list of the entities it was asked for: it numbers them, has no player and
  shows every entity at once. One that refuses every entity differs in en_CreateEntity.
\<close>

definition test_engine :: "DynamicEntitySpec list engine" where
  "test_engine =
     \<lparr>en_PlayerSystem = (\<lambda>_. False), en_LocalPlayer = (\<lambda>_. None),
      en_WorldPosition = (\<lambda>_ _. \<lparr>vec_X = 0, vec_Y = 0, vec_Z = 0, vec_W = 0\<rparr>),
      en_MakeSpec = (\<lambda>_. Some \<lparr>spec_position = \<lparr>vec_X = 0, vec_Y = 0, vec_Z = 0, vec_W = 0\<rparr>,
        spec_persistState = True, spec_persistSpawn = True, spec_templatePath = None, spec_recordID = None\<rparr>),
      en_property = (\<lambda>_. True), en_EntitySystem = (\<lambda>_. True),
      en_CreateEntity = (\<lambda>spec e. (True, of_nat (length e) + 1, e @ [spec])),
      en_GetEntity = (\<lambda>i _. Some i), en_DeleteEntity = (\<lambda>i e. (True, True, e)),
      en_SetWorldTransform = (\<lambda>_ _ _ e. (True, e)), en_FindMover = (\<lambda>_ _. Some 1),
      en_WriteMover = (\<lambda>_ _ e. e), en_TeleportationFacility = (\<lambda>_. True),
      en_Teleport = (\<lambda>_ _ _ e. (True, e)), en_GetComponents = (\<lambda>_ _. Some 0),
      en_sin = (\<lambda>x. x), en_cos = (\<lambda>x. x)\<rparr>"

definition test_setting :: "DynamicEntitySpec list setting" where
  "test_setting = \<lparr>set_engine = test_engine, set_sendto = (\<lambda>_ _ _. 0), set_snapshots = (\<lambda>xs. xs), set_players = (\<lambda>xs. xs)\<rparr>"

definition test_tick :: "u64 \<Rightarrow> tick_info" where
  "test_tick ms = \<lparr>tk_nowMs = ms, tk_thread = 1, tk_deltaTime = 0, tk_micros = 0\<rparr>"

lemma announces_joined:
  "name_ok u \<Longrightarrow> announces (snd (Encode NotifyPlayerJoined_T \<lparr>npj_playerId = p, npj_username = u\<rparr>)) =
     [\<lparr>ev_joined = True, ev_playerId = p, ev_username = u\<rparr>]"
proof -
  assume u: "name_ok u"
  let ?n = "\<lparr>npj_playerId = p, npj_username = u\<rparr>"
  have "Encode_message (M_NotifyPlayerJoined ?n) = (True, snd (Encode NotifyPlayerJoined_T ?n))"
    using u by (simp add: notify_joined.Encode_iff kMaxDatagram_def name_ok_def)
  from parse_Encode [OF _ this] u show ?thesis by (simp add: announces_def message_ok_def)
qed

lemma announces_left:
  "announces (snd (Encode NotifyPlayerLeft_T \<lparr>npl_playerId = p\<rparr>)) =
     [\<lparr>ev_joined = False, ev_playerId = p, ev_username = []\<rparr>]"
proof -
  let ?n = "\<lparr>npl_playerId = p\<rparr>"
  have "Encode_message (M_NotifyPlayerLeft ?n) = (True, snd (Encode NotifyPlayerLeft_T ?n))"
    by (simp add: notify_left.Encode_iff kMaxDatagram_def)
  from parse_Encode [OF _ this] show ?thesis by (simp add: announces_def message_ok_def name_ok_def)
qed

section \<open>Properties\<close>

text \<open>
  C15: Whatever the game answers, whatever datagrams come and whatever the console asks for: a player has
  at most one body, a body keeps at most eight samples, one without an entity keeps none, one that was
  not asked for is untouched, the registry of spawned entities holds defined ids only, and the switches
  stay in their range.
\<close>

theorem world_safe:
  "let w = world_run S ops (mk_WorldSystem e net)
   in distinct (map fst (m_bodies w)) \<and>
      list_all (\<lambda>(p, b). length (body_samples b) \<le> 8 \<and> (IsDefined (body_entityId b) \<or> body_samples b = []) \<and>
        (body_spawnRequested b \<or> b = RemoteBody_default)) (m_bodies w) \<and>
      list_all IsDefined (m_spawned w) \<and> m_moveMode w \<le> 3 \<and> m_bodyKind w \<le> 1"
  using world_run_inv [OF mk_WorldSystem_inv, of S ops e net]
  by (auto simp: world_inv_def all_bodies_def body_ok_def kMaxSamples_def Let_def list_all_iff)

text \<open>
  C17: The game system refines a queue of announcements and a set of players: a datagram announces what
  it decodes to, a multiplayer update applies the queued joins and leaves in order, and a connect
  empties the queue exactly when it succeeds: with a port in range, the sockets library initialised and
  a socket to be had. Nothing else adds or removes a body: not a disconnect, not a reconnect and
  not the loss of the world.
\<close>

theorem bodies_refine_roster:
  "let w = world_run S ops (mk_WorldSystem e net)
   in roster_step (m_ok (m_startup (ws_net w))) op (abs_bodies w) (abs_bodies (world_step S op w))"
  unfolding Let_def by (rule roster_step_world)

text \<open>
  C16: As long as the connection is not replaced, the players with a body after a multiplayer update are
  exactly those whose join was announced and who have not left since.
\<close>

theorem bodies_match_roster:
  assumes "m_events net = []" and "list_all (\<lambda>op. case op of W_connect _ _ _ \<Rightarrow> False | _ \<Rightarrow> True) ops"
  shows "fst ` set (m_bodies (world_run S (ops @ [W_update tk]) (mk_WorldSystem e net))) =
    roster (concat (map (\<lambda>op. case op of W_datagram _ d \<Rightarrow> announces d | _ \<Rightarrow> []) ops)) {}"
proof -
  let ?ann = "\<lambda>op. case op of W_datagram _ d \<Rightarrow> announces d | _ \<Rightarrow> []"
  have run: "case abs_bodies (world_run S ops w) of (q, K) \<Rightarrow>
      roster q K = roster (fst (abs_bodies w) @ concat (map ?ann ops)) (snd (abs_bodies w))" for w :: "'a world"
    using assms(2)
  proof (induction ops arbitrary: w)
    case Nil
    then show ?case by (simp add: world_run_def split: prod.splits)
  next
    case (Cons op ops)
    obtain q K where a: "abs_bodies w = (q, K)" by fastforce
    obtain q' K' where a': "abs_bodies (world_step S op w) = (q', K')" by fastforce
    from roster_step_world [of w op S] a a' Cons.prems have "roster q' K' = roster (q @ ?ann op) K"
      and "\<And>es. roster (q' @ es) K' = roster es (roster q' K')"
      by (cases op; simp add: roster_append; simp add: roster_def)+
    with Cons.IH [of "world_step S op w"] Cons.prems a a' show ?case
      by (simp add: world_run_def roster_append)
  qed
  have start: "abs_bodies (mk_WorldSystem e net) = ([], {})"
    using assms(1) by (simp add: abs_bodies_def mk_WorldSystem_def)
  have "snd (abs_bodies (world_run S (ops @ [W_update tk]) w)) =
      (case abs_bodies (world_run S ops w) of (q, K) \<Rightarrow> roster q K)" for w :: "'a world"
    using roster_step_world [of "world_run S ops w" "W_update tk" S]
    by (cases "abs_bodies (world_run S ops w)") (simp add: world_run_def)
  with run [of "mk_WorldSystem e net"] start show ?thesis by (simp add: abs_bodies_def split: prod.splits)
qed

theorem bodies_match_roster_witness:
  "let joined = (\<lambda>p. W_datagram 0 (snd (Encode NotifyPlayerJoined_T \<lparr>npj_playerId = p, npj_username = ''a''\<rparr>)));
       gone = W_datagram 0 (snd (Encode NotifyPlayerLeft_T \<lparr>npl_playerId = 1\<rparr>))
   in fst ` set (m_bodies (world_run test_setting ([joined 1, joined 2, gone] @ [W_update (test_tick 5)])
        (mk_WorldSystem [] fresh_client))) = {2}"
proof -
  have u: "name_ok ''a''" by (simp add: name_ok_def)
  have n: "m_events fresh_client = []" by (simp add: fresh_client_def mk_NetClient_def)
  show ?thesis
    unfolding Let_def by (subst bodies_match_roster [OF n]) (auto simp: announces_joined [OF u] announces_left roster_def)
qed

text \<open>
  The clock being monotonic, the window of every body is in the order of arrival, whatever else is
  done between the updates: so the search for the samples around the render time sees them in order.
\<close>

theorem windows_sorted:
  assumes "sorted (concat (map op_times ops))"
  shows "list_all (\<lambda>(p, b). sorted (map smp_localMs (body_samples b))) (m_bodies (world_run S ops (mk_WorldSystem e net)))"
proof -
  have "all_bodies (window_ok 0) (mk_WorldSystem e net)" by (simp add: all_bodies_def mk_WorldSystem_def)
  from world_run_window [OF this, of ops S] assms show ?thesis
    by (auto simp: all_bodies_def window_ok_def list_all_iff)
qed

theorem windows_sorted_witness:
  "list_all (\<lambda>(p, b). sorted (map smp_localMs (body_samples b)))
     (m_bodies (world_run test_setting [W_update (test_tick 5), W_detach, W_update (test_tick 21)] (mk_WorldSystem [] fresh_client)))"
  by (rule windows_sorted) (simp add: test_tick_def)

text \<open>
  Choosing another kind of body, or another template, starts every body anew: the entries stay, since
  only a join makes one, and each is as a join made it, to be asked for at the next snapshot. A kind out
  of range changes nothing.
\<close>

theorem body_kind_resets:
  assumes "ws_self w" and "\<forall>xs. set (order xs) = set xs"
  shows "let w' = snd (SetBodyKind E order k w)
    in if k \<le> 1
       then m_bodyKind w' = k \<and> map fst (m_bodies w') = map fst (m_bodies w) \<and>
         (\<forall>p. map_of (m_bodies w') p = map_option (\<lambda>_. RemoteBody_default) (map_of (m_bodies w) p))
       else w' = w"
proof -
  have step: "map_of (m_bodies (reset_body E q v)) =
      (case map_of (m_bodies v) q of None \<Rightarrow> map_of (m_bodies v) | Some b \<Rightarrow> (map_of (m_bodies v))(q \<mapsto> RemoteBody_default))" for q v
    by (simp add: reset_body_def reset_default update_conv' split: option.splits)
  have run: "map_of (m_bodies (fold (reset_body E) qs v)) p =
      (if p \<in> set qs then map_option (\<lambda>_. RemoteBody_default) (map_of (m_bodies v) p) else map_of (m_bodies v) p)" for qs v p
    by (induction qs arbitrary: v) (auto simp: step split: option.splits)
  have "map_of (m_bodies (fold (reset_body E) (order (map fst (m_bodies w))) (w\<lparr>m_bodyKind := k\<rparr>))) p =
      map_option (\<lambda>_. RemoteBody_default) (map_of (m_bodies w) p)" for p
    using assms(2) by (cases "map_of (m_bodies w) p") (auto simp: run rev_image_eqI dest: map_of_SomeD)
  moreover have "(1 < k) = (\<not> k \<le> 1)" by auto
  ultimately show ?thesis using assms(1) by (simp add: SetBodyKind_def Let_def)
qed

theorem body_kind_resets_witness:
  "map_of (m_bodies (snd (SetBodyKind test_engine (\<lambda>xs. xs) 1
      ((mk_WorldSystem [] fresh_client)\<lparr>m_bodies := [(7, RemoteBody_default\<lparr>body_lastTick := 3\<rparr>)]\<rparr>)))) 7 = Some RemoteBody_default"
  using body_kind_resets [of "(mk_WorldSystem [] fresh_client)\<lparr>m_bodies := [(7, RemoteBody_default\<lparr>body_lastTick := 3\<rparr>)]\<rparr>"
      "\<lambda>xs. xs" test_engine 1]
  by (simp add: mk_WorldSystem_def Let_def)

end
