(* ===== verification/World_Requests.thy ===== *)
theory World_Requests imports
  World_Bodies
begin

text \<open>
  How often the client asks the game for an entity: src/src/client/WorldSystem.cpp run against any game
  whose calls to CreateEntity are counted. A body that was not asked for yet and a join that waits in the
  queue are each worth one request, and nothing else is.
\<close>

section \<open>A game whose calls to CreateEntity are counted\<close>

definition counting :: "'e engine \<Rightarrow> ('e \<times> nat) engine" where
  "counting E =
     \<lparr>en_PlayerSystem = (\<lambda>e. en_PlayerSystem E (fst e)), en_LocalPlayer = (\<lambda>e. en_LocalPlayer E (fst e)),
      en_WorldPosition = (\<lambda>h e. en_WorldPosition E h (fst e)), en_MakeSpec = (\<lambda>e. en_MakeSpec E (fst e)),
      en_property = en_property E, en_EntitySystem = (\<lambda>e. en_EntitySystem E (fst e)),
      en_CreateEntity = (\<lambda>spec e. case en_CreateEntity E spec (fst e) of (called, i, e') \<Rightarrow> (called, i, (e', Suc (snd e)))),
      en_GetEntity = (\<lambda>i e. en_GetEntity E i (fst e)),
      en_DeleteEntity = (\<lambda>i e. case en_DeleteEntity E i (fst e) of (called, deleted, e') \<Rightarrow> (called, deleted, (e', snd e))),
      en_SetWorldTransform = (\<lambda>h p q e. case en_SetWorldTransform E h p q (fst e) of (ok, e') \<Rightarrow> (ok, (e', snd e))),
      en_FindMover = (\<lambda>h e. en_FindMover E h (fst e)),
      en_WriteMover = (\<lambda>h m e. (en_WriteMover E h m (fst e), snd e)),
      en_TeleportationFacility = (\<lambda>e. en_TeleportationFacility E (fst e)),
      en_Teleport = (\<lambda>h p a e. case en_Teleport E h p a (fst e) of (ok, e') \<Rightarrow> (ok, (e', snd e))),
      en_GetComponents = (\<lambda>h e. en_GetComponents E h (fst e)), en_sin = en_sin E, en_cos = en_cos E\<rparr>"

definition requests :: "('e \<times> nat) world \<Rightarrow> nat" where
  "requests w = snd (ws_engine w)"

lemma counting_quiet [simp]:
  "snd (snd (snd (en_DeleteEntity (counting E) i e))) = snd e"
  "snd (snd (en_SetWorldTransform (counting E) h p q e)) = snd e"
  "snd (en_WriteMover (counting E) h m e) = snd e"
  "snd (snd (en_Teleport (counting E) h p a e)) = snd e"
  by (simp_all add: counting_def split: prod.splits)

lemma destroy_quiet [simp]: "snd (snd (DestroyBodyEntity (counting E) i e)) = snd e"
  by (simp add: DestroyBodyEntity_def case_prod_beta)

lemma write_quiet [simp]:
  "snd (snd (WriteTransform (counting E) h s e)) = snd e"
  "snd (snd (WriteMover (counting E) h s v e)) = snd e"
  "snd (snd (WriteTeleport (counting E) h s e)) = snd e"
  by (simp_all add: WriteTransform_def WriteMover_def WriteTeleport_def split: option.splits)

lemma requests_update [simp]:
  "requests (w\<lparr>ws_engine := e\<rparr>) = snd e" "requests (w\<lparr>ws_net := c\<rparr>) = requests w"
  "requests (w\<lparr>m_bodies := bs\<rparr>) = requests w" "requests (w\<lparr>m_snapshotBuffer := xs\<rparr>) = requests w"
  "requests (w\<lparr>m_starvedFrames := k\<rparr>) = requests w"
  by (simp_all add: requests_def)

lemma apply_target_requests [simp]: "requests (apply_target (counting E) h s v w) = requests w"
  by (simp add: apply_target_def requests_def Let_def case_prod_beta)

lemma move_body_requests [simp]: "requests (move_body (counting E) now p s b h w) = requests w"
  by (simp add: move_body_def Let_def split: prod.splits)

section \<open>What a request is worth\<close>

definition unrequested :: "'e world \<Rightarrow> nat" where
  "unrequested w = length (filter (\<lambda>(p, b). \<not> body_spawnRequested b) (m_bodies w))"

definition joins :: "RemoteEvent list \<Rightarrow> nat" where
  "joins es = length (filter ev_joined es)"

lemma joins_append [simp]: "joins (es @ fs) = joins es + joins fs" "joins [] = 0"
  by (simp_all add: joins_def)

lemma filter_update:
  "map_of al k = Some v \<Longrightarrow>
     length (filter P (AList.update k x al)) + (if P (k, v) then 1 else 0) =
     length (filter P al) + (if P (k, x) then 1 else 0)"
  by (induction al) (auto split: if_splits)

lemma filter_insert:
  "map_of al k = None \<Longrightarrow> length (filter P (AList.update k x al)) = length (filter P al) + (if P (k, x) then 1 else 0)"
  by (induction al) (auto split: if_splits)

lemma filter_delete: "length (filter P (AList.delete k al)) \<le> length (filter P al)"
  by (induction al) (auto simp: AList.delete_eq)

lemma pump_event_requests:
  "requests (pump_event (counting E) e w) + unrequested (pump_event (counting E) e w) \<le>
     requests w + unrequested w + (if ev_joined e then 1 else 0)"
  using filter_delete [of _ "ev_playerId e" "m_bodies w"]
  by (auto simp: pump_event_def unrequested_def requests_def filter_insert RemoteBody_default_def split: option.splits)

lemma fold_events_requests:
  "requests (fold (pump_event (counting E)) es w) + unrequested (fold (pump_event (counting E)) es w) \<le>
     requests w + unrequested w + joins es"
proof (induction es arbitrary: w)
  case (Cons e es)
  from Cons.IH [of "pump_event (counting E) e w"] pump_event_requests [of E e w] show ?case
    by (auto simp: joins_def split: if_splits)
qed simp

lemma request_body_requests:
  assumes "map_of (m_bodies w) p = Some b" and "\<not> body_spawnRequested b"
  shows "requests (request_body (counting E) p s b w) + unrequested (request_body (counting E) p s b w) \<le>
    requests w + unrequested w"
proof -
  have u: "unrequested w = Suc (length (filter (\<lambda>(p, b). \<not> body_spawnRequested b) (AList.update p b' (m_bodies w))))"
    if "body_spawnRequested b'" for b'
    using filter_update [OF assms(1), of "\<lambda>(p, b). \<not> body_spawnRequested b" b'] assms(2) that
    by (simp add: unrequested_def)
  have t: "AList.update p c (AList.update p b' (m_bodies w)) = AList.update p c (m_bodies w)" for b' c
    by (induction "m_bodies w") auto
  have n: "snd (snd (snd (en_CreateEntity (counting E) spec e))) = Suc (snd e)" for spec e
    by (simp add: counting_def split: prod.splits)
  show ?thesis
  proof (cases "body_spec (counting E) s (w\<lparr>m_bodies := AList.update p (b\<lparr>body_spawnRequested := True\<rparr>) (m_bodies w)\<rparr>)")
    case None
    then show ?thesis using u [of "b\<lparr>body_spawnRequested := True\<rparr>"]
      by (simp add: request_body_def Let_def) (simp add: unrequested_def)
  next
    case (Some spec)
    obtain called i e where c: "en_CreateEntity (counting E) spec (ws_engine w) = (called, i, e)"
      by (metis prod_cases3)
    with n [of spec "ws_engine w"] have e: "snd e = Suc (requests w)" by (simp add: requests_def)
    show ?thesis
      using u [of "b\<lparr>body_spawnRequested := True\<rparr>"] u [of "b\<lparr>body_spawnRequested := True, body_entityId := i\<rparr>"]
      by (simp add: request_body_def Let_def Some c e t) (simp add: unrequested_def e)
  qed
qed

lemma pump_snapshot_requests:
  "requests (pump_snapshot (counting E) now hs x w) + unrequested (pump_snapshot (counting E) now hs x w) \<le>
     requests w + unrequested w"
proof -
  obtain p s where x: "x = (p, s)" by fastforce
  show ?thesis
  proof (cases "map_of (m_bodies w) p")
    case None
    then show ?thesis by (simp add: x pump_snapshot_absent)
  next
    case (Some b)
    have m: "unrequested (move_body (counting E) now p s b h w) = unrequested w" for h
      using filter_update [OF Some, of "\<lambda>(p, b). \<not> body_spawnRequested b" "add_sample now s b"]
      by (simp add: unrequested_def add_sample_def Let_def split: if_splits)
    show ?thesis using request_body_requests [OF Some, of E s]
      by (auto simp: x pump_snapshot_def Some m split: option.splits)
  qed
qed

lemma fold_snapshots_requests:
  "requests (fold (pump_snapshot (counting E) now hs) xs w) + unrequested (fold (pump_snapshot (counting E) now hs) xs w) \<le>
     requests w + unrequested w"
proof (induction xs arbitrary: w)
  case (Cons x xs)
  from Cons.IH [of "pump_snapshot (counting E) now hs x w"] pump_snapshot_requests [of E now hs x w] show ?case
    by simp
qed simp

section \<open>A run\<close>

text \<open>What a state, with the joins that wait in its queue, can still be made to ask for.\<close>

definition credit :: "('e \<times> nat) world \<Rightarrow> nat" where
  "credit w = requests w + unrequested w + joins (m_events (ws_net w))"

lemma Pump_requests:
  "requests (PumpRemotePlayers (counting E) order now w) + unrequested (PumpRemotePlayers (counting E) order now w) \<le> credit w"
proof -
  let ?w1 = "fold (pump_event (counting E)) (m_events (ws_net w)) (w\<lparr>ws_net := (ws_net w)\<lparr>m_events := []\<rparr>\<rparr>)"
  have u: "unrequested (v\<lparr>ws_net := c\<rparr>) = unrequested v" "unrequested (v\<lparr>m_snapshotBuffer := xs\<rparr>) = unrequested v"
    for v :: "('a \<times> nat) world" and c xs
    by (simp_all add: unrequested_def)
  have w1: "requests ?w1 + unrequested ?w1 \<le> credit w"
    using fold_events_requests [of E "m_events (ws_net w)" "w\<lparr>ws_net := (ws_net w)\<lparr>m_events := []\<rparr>\<rparr>"]
    by (simp add: credit_def u)
  have "requests (fold (pump_snapshot (counting E) now hs) xs (?w1\<lparr>m_snapshotBuffer := xs\<rparr>)) +
      unrequested (fold (pump_snapshot (counting E) now hs) xs (?w1\<lparr>m_snapshotBuffer := xs\<rparr>)) \<le> requests ?w1 + unrequested ?w1"
    for hs xs
    using fold_snapshots_requests [of E now hs xs "?w1\<lparr>m_snapshotBuffer := xs\<rparr>"] by (simp add: u)
  with w1 show ?thesis by (auto simp: PumpRemotePlayers_def TakeEvents_def Let_def intro: order_trans)
qed

lemma RunTick_credit:
  assumes "tick_counter f"
  shows "credit (RunTick tk f w) = credit w"
  using RunTick_frame [OF assms, of tk w] net_core_fields(1) [OF RunTick_frame(8) [OF assms, of tk w]]
  by (simp add: credit_def requests_def unrequested_def)

lemma SendLocalState_credit: "credit (SendLocalState E os now w) = credit w"
  by (simp add: credit_def requests_def unrequested_def)

text \<open>The operations that ask for an entity from the console, or start every body anew.\<close>

definition from_network :: "world_op \<Rightarrow> bool" where
  "from_network op \<longleftrightarrow> (case op of
     W_prop \<Rightarrow> False | W_npc _ \<Rightarrow> False | W_body_kind _ \<Rightarrow> False | W_template _ \<Rightarrow> False | _ \<Rightarrow> True)"

definition announced :: "world_op \<Rightarrow> RemoteEvent list" where
  "announced op = (case op of W_datagram _ d \<Rightarrow> announces d | _ \<Rightarrow> [])"

lemma despawn_quiet: "snd (snd (fold (despawn_one (counting E)) is (k, e))) = snd e"
proof (induction "is" arbitrary: k e)
  case (Cons i "is")
  obtain called deleted e' where d: "en_DeleteEntity (counting E) i e = (called, deleted, e')" by (metis prod_cases3)
  with counting_quiet(1) [of E i e] Cons show ?case by (simp add: despawn_one_def)
qed simp

lemma world_step_credit:
  assumes "set_engine S = counting E" and "from_network op"
  shows "credit (world_step S op w) \<le> credit w + joins (announced op)"
proof (cases op)
  case (W_datagram us d)
  then show ?thesis by (simp add: credit_def requests_def unrequested_def HandleDatagram_events announced_def)
next
  case (W_frame tk)
  then show ?thesis by (simp add: OnFrameBegin_def RunTick_credit)
next
  case (W_update tk)
  let ?v = "RunTick tk (\<lambda>w. w\<lparr>m_multiplayerTicks := m_multiplayerTicks w + 1\<rparr>) w"
  have "credit ?v = credit w" by (rule RunTick_credit) simp
  with Pump_requests [of E "set_snapshots S" "tk_nowMs tk" ?v]
  have "credit (PumpRemotePlayers (counting E) (set_snapshots S) (tk_nowMs tk) ?v) \<le> credit w"
    by (simp add: credit_def)
  with W_update assms(1) show ?thesis by (simp add: OnMultiplayerUpdate_def SendLocalState_credit)
next
  case W_despawn
  with assms(1) despawn_quiet [of E "m_spawned w" 0 "ws_engine w"] show ?thesis
    by (auto simp: DespawnAll_def credit_def requests_def unrequested_def Let_def split: prod.splits)
next
  case (W_connect h p u)
  then show ?thesis using Connect_events
    by (auto simp: WorldSystem_Connect_def credit_def requests_def unrequested_def Let_def split: prod.splits if_splits)
next
  case W_disconnect
  then show ?thesis
    by (simp add: WorldSystem_Disconnect_def NetClient_Disconnect_def credit_def requests_def unrequested_def Let_def)
qed (use assms(2) in \<open>auto simp: from_network_def credit_def requests_def unrequested_def OnWorldAttached_def
    OnWorldDetached_def PostTasksFromThread_def SetMoveMode_def SetInterpolation_def Let_def\<close>)

lemma world_run_credit:
  assumes "set_engine S = counting E" and "list_all from_network ops"
  shows "credit (world_run S ops w) \<le> credit w + joins (concat (map announced ops))"
  using assms(2)
proof (induction ops arbitrary: w)
  case Nil
  then show ?case by (simp add: world_run_def)
next
  case (Cons op ops)
  from Cons.IH [of "world_step S op w"] world_step_credit [OF assms(1), of op w] Cons.prems show ?case
    by (simp add: world_run_def)
qed

section \<open>A body whose request failed\<close>

text \<open>It is never touched again, until its player leaves.\<close>

definition dead_body :: "RemoteBody \<Rightarrow> bool" where
  "dead_body b \<longleftrightarrow> body_spawnRequested b \<and> \<not> IsDefined (body_entityId b)"

lemma dead_step: "body_step now s b b' \<Longrightarrow> dead_body b \<Longrightarrow> b' = b"
  by (erule body_stepE) (auto simp: dead_body_def)

lemma fold_dead:
  "map_of (m_bodies w) p = Some b \<Longrightarrow> dead_body b \<Longrightarrow> map_of (m_bodies (fold (pump_snapshot E now hs) xs w)) p = Some b"
proof (induction xs arbitrary: w)
  case (Cons x xs)
  obtain q s where x: "x = (q, s)" by fastforce
  have "map_of (m_bodies (pump_snapshot E now hs x w)) p = Some b"
  proof (cases "map_of (m_bodies w) q")
    case None
    with Cons.prems show ?thesis by (simp add: x pump_snapshot_absent)
  next
    case (Some c)
    from pump_snapshot_step [OF this, of now s E hs] obtain c' where "body_step now s c c'"
      and "m_bodies (pump_snapshot E now hs (q, s) w) = AList.update q c' (m_bodies w)" by blast
    with Some Cons.prems dead_step show ?thesis by (cases "q = p") (auto simp: x update_conv')
  qed
  with Cons show ?case by simp
qed simp


definition stays :: "u32 \<Rightarrow> RemoteEvent list \<Rightarrow> bool" where
  "stays p es \<longleftrightarrow> list_all (\<lambda>e. ev_playerId e = p \<longrightarrow> ev_joined e) es"

lemma fold_events_dead:
  "map_of (m_bodies w) p = Some b \<Longrightarrow> stays p es \<Longrightarrow> map_of (m_bodies (fold (pump_event E) es w)) p = Some b"
proof (induction es arbitrary: w)
  case (Cons e es)
  from Cons.prems have "map_of (m_bodies (pump_event E e w)) p = Some b"
    by (auto simp: pump_event_def stays_def update_conv' delete_conv' split: option.splits)
  with Cons show ?case by (simp add: stays_def)
qed simp

lemma Pump_dead:
  assumes "map_of (m_bodies w) p = Some b" and "dead_body b" and "stays p (m_events (ws_net w))"
  shows "map_of (m_bodies (PumpRemotePlayers E order now w)) p = Some b"
proof -
  let ?w1 = "fold (pump_event E) (m_events (ws_net w)) (w\<lparr>ws_net := (ws_net w)\<lparr>m_events := []\<rparr>\<rparr>)"
  have w1: "map_of (m_bodies ?w1) p = Some b" by (rule fold_events_dead) (use assms in simp_all)
  have "map_of (m_bodies (fold (pump_snapshot E now hs) xs (?w1\<lparr>m_snapshotBuffer := xs\<rparr>))) p = Some b" for hs xs
    by (rule fold_dead) (use w1 assms(2) in simp_all)
  moreover have "m_bodies ?w1 \<noteq> []" using w1 by auto
  ultimately show ?thesis by (simp add: PumpRemotePlayers_def TakeEvents_def Let_def)
qed

lemma world_step_bodies:
  assumes "from_network op" and "\<And>tk. op \<noteq> W_update tk"
  shows "m_bodies (world_step S op w) = m_bodies w"
  using assms
  by (cases op) (auto simp: from_network_def OnFrameBegin_def RunTick_frame OnWorldAttached_def OnWorldDetached_def
      DespawnAll_def PostTasksFromThread_def WorldSystem_Connect_def WorldSystem_Disconnect_def SetMoveMode_def
      SetInterpolation_def Let_def split: prod.splits)

lemma world_step_events: "set (m_events (ws_net (world_step S op w))) \<subseteq> set (m_events (ws_net w) @ announced op)"
  using roster_step_world [of w op S]
  by (cases op) (auto simp: abs_bodies_def announced_def split: if_splits)

lemma world_run_dead:
  "list_all from_network ops \<Longrightarrow> dead_body b \<Longrightarrow> map_of (m_bodies w) p = Some b \<Longrightarrow>
   stays p (m_events (ws_net w) @ concat (map announced ops)) \<Longrightarrow> map_of (m_bodies (world_run S ops w)) p = Some b"
proof (induction ops arbitrary: w)
  case Nil
  then show ?case by (simp add: world_run_def)
next
  case (Cons op ops)
  have "map_of (m_bodies (world_step S op w)) p = Some b"
  proof (cases "\<exists>tk. op = W_update tk")
    case True
    then obtain tk where op: "op = W_update tk" ..
    let ?v = "RunTick tk (\<lambda>w. w\<lparr>m_multiplayerTicks := m_multiplayerTicks w + 1\<rparr>) w"
    have "m_events (ws_net ?v) = m_events (ws_net w)" by (rule net_core_fields(1) [OF RunTick_frame(8)]) simp
    with Cons.prems have "map_of (m_bodies (PumpRemotePlayers (set_engine S) (set_snapshots S) (tk_nowMs tk) ?v)) p = Some b"
      by (intro Pump_dead) (simp_all add: RunTick_frame stays_def)
    then show ?thesis by (simp add: op OnMultiplayerUpdate_def)
  next
    case False
    with Cons.prems world_step_bodies [of op S w] show ?thesis by auto
  qed
  moreover have "stays p (m_events (ws_net (world_step S op w)) @ concat (map announced ops))"
    using world_step_events [of S op w] Cons.prems(4) by (auto simp: stays_def list_all_iff)
  ultimately show ?case using Cons.IH [of "world_step S op w"] Cons.prems by (simp add: world_run_def)
qed

section \<open>Properties\<close>

text \<open>
  C22: A body is asked for once, whatever the game answers. Over any run in which nothing is spawned and
  no kind of body is chosen from the console, the game is asked at most once for each body that was not
  asked for before and once for each join that is announced, however many updates run and however many
  requests fail. And a body whose request failed stays without an entity, exactly as it is, until its
  player leaves.
\<close>

theorem spawn_once:
  assumes "set_engine S = counting E" and "list_all from_network ops"
  shows "let w' = world_run S ops w; events = m_events (ws_net w) @ concat (map announced ops)
    in snd (ws_engine w') \<le> snd (ws_engine w) + length (filter (\<lambda>(p, b). \<not> body_spawnRequested b) (m_bodies w)) +
         length (filter ev_joined events) \<and>
       (\<forall>p b. map_of (m_bodies w) p = Some b \<and> body_spawnRequested b \<and> \<not> IsDefined (body_entityId b) \<and>
         list_all (\<lambda>e. ev_playerId e = p \<longrightarrow> ev_joined e) events \<longrightarrow> map_of (m_bodies w') p = Some b)"
  using world_run_credit [OF assms, of w] world_run_dead [OF assms(2), where w = w and S = S]
  by (auto simp: credit_def requests_def unrequested_def joins_def Let_def dead_body_def stays_def)

text \<open>A game that refuses every entity is asked once for a player whose snapshots come at every update.\<close>

theorem spawn_once_witness:
  "let S = \<lparr>set_engine = counting (test_engine\<lparr>en_CreateEntity := \<lambda>_ e. (False, 0, e)\<rparr>), set_sendto = \<lambda>_ _ _. 0,
         set_snapshots = \<lambda>xs. xs, set_players = \<lambda>xs. xs\<rparr>;
       w = (mk_WorldSystem ([], 0) fresh_client)\<lparr>m_bodies := [(7, RemoteBody_default)],
         ws_net := fresh_client\<lparr>m_remote := [(7, RemoteSnapshot_default)]\<rparr>\<rparr>
   in snd (ws_engine (world_run S (map (\<lambda>ms. W_update (test_tick ms)) [1000, 1016, 1033]) w)) \<le> 1"
  using spawn_once [of "\<lparr>set_engine = counting (test_engine\<lparr>en_CreateEntity := \<lambda>_ e. (False, 0, e)\<rparr>), set_sendto = \<lambda>_ _ _. 0,
         set_snapshots = \<lambda>xs. xs, set_players = \<lambda>xs. xs\<rparr>" "test_engine\<lparr>en_CreateEntity := \<lambda>_ e. (False, 0, e)\<rparr>"
      "map (\<lambda>ms. W_update (test_tick ms)) [1000, 1016, 1033]"
      "(mk_WorldSystem ([], 0) fresh_client)\<lparr>m_bodies := [(7, RemoteBody_default)],
         ws_net := fresh_client\<lparr>m_remote := [(7, RemoteSnapshot_default)]\<rparr>\<rparr>"]
  by (simp add: Let_def from_network_def announced_def mk_WorldSystem_def fresh_client_def mk_NetClient_def RemoteBody_default_def)

end
