(* ===== verification/Tick_Threads.thy ===== *)
theory Tick_Threads imports
  World_Bodies
begin

text \<open>
  The tick of src/src/client/WorldSystem.cpp on a pool of threads. No lock covers RunTick: what it shares
  is atomic variables and the task queue, whose mutex covers the slice that Drain takes. So the ticks of
  several threads come between each other's steps, and between them the network thread or the producer
  of PostTasksFromThread queues tasks. Thread i has the id ids i; what it has left to do is its program
  counter.
\<close>

section \<open>The steps of the ticks\<close>

text \<open>Running holds the size of the slice that was taken and the tasks of it that are left.\<close>

datatype tick_pc =
    Idle
  | Entered tick_info
  | Owned tick_info
  | Running tick_info nat "net_task list"
  | Counted tick_info

record 'e ticks =
  tk_world :: "'e world"
  tk_pcs :: "tick_pc list"
  tk_pushed :: "net_task list"
  tk_done :: "net_task list"

definition set_tasks :: "net_task list \<Rightarrow> 'e world \<Rightarrow> 'e world" where
  "set_tasks q w = w\<lparr>ws_net := (ws_net w)\<lparr>m_tasks := q\<rparr>\<rparr>"

inductive tick_step :: "(nat \<Rightarrow> u64) \<Rightarrow> 'e ticks \<Rightarrow> 'e ticks \<Rightarrow> bool" for ids where
  push: "tick_step ids s (s\<lparr>tk_world := set_tasks (Push (Some t) (m_tasks (ws_net (tk_world s)))) (tk_world s),
    tk_pushed := tk_pushed s @ [t]\<rparr>)"
| enter: "i < length (tk_pcs s) \<Longrightarrow> tk_pcs s ! i = Idle \<Longrightarrow> tk_thread tk = ids i \<Longrightarrow> tick_counter f \<Longrightarrow>
    tick_step ids s (s\<lparr>tk_world := tick_enter tk f (tk_world s), tk_pcs := (tk_pcs s)[i := Entered tk]\<rparr>)"
| own: "i < length (tk_pcs s) \<Longrightarrow> tk_pcs s ! i = Entered tk \<Longrightarrow>
    tick_step ids s (s\<lparr>tk_world := tick_own tk (tk_world s), tk_pcs := (tk_pcs s)[i := Owned tk]\<rparr>)"
| take_slice: "i < length (tk_pcs s) \<Longrightarrow> tk_pcs s ! i = Owned tk \<Longrightarrow>
    Drain_take 64 (m_tasks (ws_net (tk_world s))) = (ts, q) \<Longrightarrow>
    tick_step ids s (s\<lparr>tk_world := set_tasks q (tk_world s), tk_pcs := (tk_pcs s)[i := Running tk (length ts) ts]\<rparr>)"
| run_one: "i < length (tk_pcs s) \<Longrightarrow> tk_pcs s ! i = Running tk n (t # ts) \<Longrightarrow>
    exec_task (tk_thread tk) t (tk_world s) = (w, ps) \<Longrightarrow>
    tick_step ids s (s\<lparr>tk_world := set_tasks (fold Push ps (m_tasks (ws_net w))) w,
      tk_pcs := (tk_pcs s)[i := Running tk n ts], tk_done := tk_done s @ [t]\<rparr>)"
| count: "i < length (tk_pcs s) \<Longrightarrow> tk_pcs s ! i = Running tk n [] \<Longrightarrow>
    tick_step ids s (s\<lparr>tk_world := tick_ran n (tk_world s), tk_pcs := (tk_pcs s)[i := Counted tk]\<rparr>)"
| leave: "i < length (tk_pcs s) \<Longrightarrow> tk_pcs s ! i = Counted tk \<Longrightarrow>
    tick_step ids s (s\<lparr>tk_world := tick_leave tk (tk_world s), tk_pcs := (tk_pcs s)[i := Idle]\<rparr>)"

inductive_cases tick_stepE: "tick_step ids s s'"

inductive tick_reach :: "(nat \<Rightarrow> u64) \<Rightarrow> 'e world \<Rightarrow> nat \<Rightarrow> 'e ticks \<Rightarrow> bool" for ids w k where
  start: "tick_reach ids w k \<lparr>tk_world = w, tk_pcs = replicate k Idle, tk_pushed = [], tk_done = []\<rparr>"
| step: "tick_reach ids w k s \<Longrightarrow> tick_step ids s s' \<Longrightarrow> tick_reach ids w k s'"

section \<open>What is queued, taken and counted\<close>

fun slice_of :: "tick_pc \<Rightarrow> net_task list" where
  "slice_of (Running tk n ts) = ts"
| "slice_of _ = []"

text \<open>The tasks a thread has run and not yet added to m_tasksRun.\<close>

fun uncounted :: "tick_pc \<Rightarrow> nat" where
  "uncounted (Running tk n ts) = n - length ts"
| "uncounted _ = 0"

fun pc_ok :: "tick_pc \<Rightarrow> bool" where
  "pc_ok (Running tk n ts) \<longleftrightarrow> length ts \<le> n \<and> n \<le> 64"
| "pc_ok _ \<longleftrightarrow> True"

definition pongs :: "net_task list \<Rightarrow> nat" where
  "pongs ts = length (filter (\<lambda>t. t = Task_countPong) ts)"

lemma pongs_append [simp]: "pongs (ts @ us) = pongs ts + pongs us" "pongs [] = 0"
  by (simp_all add: pongs_def)

definition tick_inv :: "'e world \<Rightarrow> 'e ticks \<Rightarrow> bool" where
  "tick_inv w0 s \<longleftrightarrow>
     mset (m_tasks (ws_net w0)) + mset (tk_pushed s) =
       mset (m_tasks (ws_net (tk_world s))) + mset (concat (map slice_of (tk_pcs s))) + mset (tk_done s) \<and>
     m_appliedOnGameThread (ws_net (tk_world s)) = m_appliedOnGameThread (ws_net w0) + of_nat (pongs (tk_done s)) \<and>
     m_tasksRun (tk_world s) + of_nat (sum_list (map uncounted (tk_pcs s))) = m_tasksRun w0 + of_nat (length (tk_done s)) \<and>
     list_all pc_ok (tk_pcs s)"

lemma slices_update:
  "i < length pcs \<Longrightarrow>
     mset (concat (map slice_of (pcs[i := pc]))) + mset (slice_of (pcs ! i)) = mset (concat (map slice_of pcs)) + mset (slice_of pc)"
  using mset_concat_update [of i "map slice_of pcs" "slice_of pc"] by (simp add: map_update)

lemma uncounted_update:
  "i < length pcs \<Longrightarrow>
     sum_list (map uncounted (pcs[i := pc])) + uncounted (pcs ! i) = sum_list (map uncounted pcs) + uncounted pc"
proof (induction pcs arbitrary: i)
  case (Cons c cs)
  then show ?case by (cases i) auto
qed simp

lemma pcs_update: "list_all P xs \<Longrightarrow> P x \<Longrightarrow> list_all P (xs[i := x])"
  using set_update_subset_insert [of xs i x] by (auto simp: list_all_iff)

lemma set_tasks_fields [simp]:
  "m_tasks (ws_net (set_tasks q w)) = q" "m_appliedOnGameThread (ws_net (set_tasks q w)) = m_appliedOnGameThread (ws_net w)"
  "m_tasksRun (set_tasks q w) = m_tasksRun w" "m_taskRanOffDrainThread (set_tasks q w) = m_taskRanOffDrainThread w"
  "m_drainThreadId (set_tasks q w) = m_drainThreadId w"
  by (simp_all add: set_tasks_def)

lemma enter_fields [simp]:
  assumes "tick_counter f"
  shows "ws_net (tick_enter tk f w) = ws_net w" and "m_tasksRun (tick_enter tk f w) = m_tasksRun w"
    and "m_taskRanOffDrainThread (tick_enter tk f w) = m_taskRanOffDrainThread w"
  using assms by (auto simp: tick_enter_def tick_counter_def Let_def)

lemma phase_fields [simp]:
  "ws_net (tick_own tk w) = ws_net w" "m_tasksRun (tick_own tk w) = m_tasksRun w"
  "m_taskRanOffDrainThread (tick_own tk w) = m_taskRanOffDrainThread w" "m_drainThreadId (tick_own tk w) = tk_thread tk"
  "ws_net (tick_ran n w) = ws_net w" "m_tasksRun (tick_ran n w) = m_tasksRun w + of_nat n"
  "m_taskRanOffDrainThread (tick_ran n w) = m_taskRanOffDrainThread w" "m_drainThreadId (tick_ran n w) = m_drainThreadId w"
  "ws_net (tick_leave tk w) = ws_net w" "m_tasksRun (tick_leave tk w) = m_tasksRun w"
  "m_taskRanOffDrainThread (tick_leave tk w) = m_taskRanOffDrainThread w"
  "m_drainThreadId (tick_leave tk w) = m_drainThreadId w"
  by (simp_all add: tick_own_def tick_ran_def tick_leave_def)

lemma exec_task_fields:
  "exec_task th t w = (w', ps) \<Longrightarrow> ps = [] \<and> m_tasks (ws_net w') = m_tasks (ws_net w) \<and> m_tasksRun w' = m_tasksRun w \<and>
     m_appliedOnGameThread (ws_net w') = m_appliedOnGameThread (ws_net w) + of_nat (pongs [t]) \<and>
     m_drainThreadId w' = m_drainThreadId w \<and>
     m_taskRanOffDrainThread w' = (m_taskRanOffDrainThread w \<or> t = Task_checkDrainThread \<and> th \<noteq> m_drainThreadId w)"
  by (cases t) (auto simp: exec_task_def pongs_def)

lemma tick_step_inv: "tick_step ids s s' \<Longrightarrow> tick_inv w0 s \<Longrightarrow> tick_inv w0 s'"
proof (induction rule: tick_step.induct)
  case (push s t)
  then show ?case by (simp add: tick_inv_def Push_def)
next
  case (enter i s tk f)
  then show ?case using slices_update [of i "tk_pcs s" "Entered tk"] uncounted_update [of i "tk_pcs s" "Entered tk"]
    by (simp add: tick_inv_def pcs_update)
next
  case (own i s tk)
  then show ?case using slices_update [of i "tk_pcs s" "Owned tk"] uncounted_update [of i "tk_pcs s" "Owned tk"]
    by (simp add: tick_inv_def pcs_update)
next
  case (take_slice i s tk ts q)
  from Drain_take_budget [OF take_slice(3)] have "length ts \<le> 64" by simp
  with take_slice Drain_take_prefix [OF take_slice(3)] show ?case
    using slices_update [of i "tk_pcs s" "Running tk (length ts) ts"] uncounted_update [of i "tk_pcs s" "Running tk (length ts) ts"]
    by (simp add: tick_inv_def pcs_update ac_simps)
next
  case (run_one i s tk n t ts w ps)
  let ?pc = "Running tk n ts"
  have ok: "length (t # ts) \<le> n" "n \<le> 64"
    using run_one(1,2,4) by (auto simp: tick_inv_def list_all_length)
  have "mset (concat (map slice_of ((tk_pcs s)[i := ?pc]))) + {#t#} = mset (concat (map slice_of (tk_pcs s)))"
    using slices_update [OF run_one(1), of ?pc] run_one(2) by simp
  moreover have "sum_list (map uncounted ((tk_pcs s)[i := ?pc])) = Suc (sum_list (map uncounted (tk_pcs s)))"
    using uncounted_update [OF run_one(1), of ?pc] run_one(2) ok by simp
  moreover note exec_task_fields [OF run_one(3)]
  ultimately show ?case using run_one(4) ok by (simp add: tick_inv_def pcs_update ac_simps)
next
  case (count i s tk n)
  have "sum_list (map uncounted (tk_pcs s)) = n + sum_list (map uncounted ((tk_pcs s)[i := Counted tk]))"
    using uncounted_update [OF count(1), of "Counted tk"] count(2) by simp
  with count slices_update [of i "tk_pcs s" "Counted tk"] show ?case
    by (simp add: tick_inv_def pcs_update ac_simps)
next
  case (leave i s tk)
  then show ?case using slices_update [of i "tk_pcs s" Idle] uncounted_update [of i "tk_pcs s" Idle]
    by (simp add: tick_inv_def pcs_update)
qed

lemma tick_reach_inv: "tick_reach ids w k s \<Longrightarrow> tick_inv w s"
proof (induction rule: tick_reach.induct)
  case start
  have "concat (replicate k []) = ([] :: net_task list)" by (induction k) simp_all
  then show ?case by (simp add: tick_inv_def sum_list_replicate list_all_length)
qed (rule tick_step_inv)

section \<open>A tick that nobody comes between\<close>

lemma exec_task_set:
  "exec_task th t w = (w', ps) \<Longrightarrow> exec_task th t (set_tasks q w) = (set_tasks q w', ps)"
  by (cases t) (auto simp: exec_task_def set_tasks_def)

lemma set_tasks_same [simp]: "set_tasks q' (set_tasks q w) = set_tasks q' w"
  by (simp add: set_tasks_def)

lemma run_all:
  "i < length (tk_pcs s) \<Longrightarrow> tk_pcs s ! i = Running tk n ts \<Longrightarrow> tk_world s = set_tasks q w \<Longrightarrow>
   run_tasks (exec_task (tk_thread tk)) ts w q = (w', q') \<Longrightarrow>
   (tick_step ids)\<^sup>*\<^sup>* s (s\<lparr>tk_world := set_tasks q' w', tk_pcs := (tk_pcs s)[i := Running tk n []], tk_done := tk_done s @ ts\<rparr>)"
proof (induction ts arbitrary: s w q)
  case Nil
  then have "(tk_pcs s)[i := Running tk n []] = tk_pcs s" by (metis list_update_id)
  with Nil show ?case by (cases s) simp
next
  case (Cons t ts)
  obtain v ps where e: "exec_task (tk_thread tk) t w = (v, ps)" by fastforce
  let ?s = "s\<lparr>tk_world := set_tasks (fold Push ps (m_tasks (ws_net (set_tasks q v)))) (set_tasks q v),
      tk_pcs := (tk_pcs s)[i := Running tk n ts], tk_done := tk_done s @ [t]\<rparr>"
  have "tick_step ids s ?s"
    by (rule run_one [OF Cons.prems(1,2)]) (simp only: Cons.prems(3) exec_task_set [OF e])
  moreover have "(tick_step ids)\<^sup>*\<^sup>* ?s (?s\<lparr>tk_world := set_tasks q' w', tk_pcs := (tk_pcs ?s)[i := Running tk n []],
      tk_done := tk_done ?s @ ts\<rparr>)"
    by (rule Cons.IH [where w = v and q = "fold Push ps q"]) (use Cons.prems e in simp_all)
  ultimately show ?case by (simp add: converse_rtranclp_into_rtranclp)
qed

text \<open>RunTick, the whole tick in one step, is one of the ways its steps can fall.\<close>

lemma RunTick_steps:
  assumes i: "i < length (tk_pcs s)" "tk_pcs s ! i = Idle" and tk: "tk_thread tk = ids i" "tick_counter f"
  shows "(tick_step ids)\<^sup>*\<^sup>* s (s\<lparr>tk_world := RunTick tk f (tk_world s),
    tk_done := tk_done s @ take 64 (m_tasks (ws_net (tk_world s)))\<rparr>)"
proof -
  let ?pcs = "tk_pcs s" and ?w1 = "tick_own tk (tick_enter tk f (tk_world s))"
  let ?ts = "take 64 (m_tasks (ws_net (tk_world s)))" and ?q = "drop 64 (m_tasks (ws_net (tk_world s)))"
  obtain w2 q2 where r: "run_tasks (exec_task (tk_thread tk)) ?ts ?w1 ?q = (w2, q2)" by fastforce
  let ?n = "length ?ts"
  let ?s1 = "s\<lparr>tk_world := tick_enter tk f (tk_world s), tk_pcs := ?pcs[i := Entered tk]\<rparr>"
  let ?s2 = "s\<lparr>tk_world := ?w1, tk_pcs := ?pcs[i := Owned tk]\<rparr>"
  let ?s3 = "s\<lparr>tk_world := set_tasks ?q ?w1, tk_pcs := ?pcs[i := Running tk ?n ?ts]\<rparr>"
  let ?s4 = "s\<lparr>tk_world := set_tasks q2 w2, tk_pcs := ?pcs[i := Running tk ?n []], tk_done := tk_done s @ ?ts\<rparr>"
  let ?s5 = "s\<lparr>tk_world := tick_ran ?n (set_tasks q2 w2), tk_pcs := ?pcs[i := Counted tk], tk_done := tk_done s @ ?ts\<rparr>"
  let ?s6 = "s\<lparr>tk_world := tick_leave tk (tick_ran ?n (set_tasks q2 w2)), tk_pcs := ?pcs[i := Idle], tk_done := tk_done s @ ?ts\<rparr>"
  have t: "Drain_take 64 (m_tasks (ws_net (tk_world s))) = (?ts, ?q)" by (simp add: Drain_take_def)
  have "tick_step ids s ?s1" by (rule enter [where ids = ids, OF i tk])
  moreover have "tick_step ids ?s1 ?s2" using own [of i ?s1 tk ids] i by simp
  moreover have "tick_step ids ?s2 ?s3" using take_slice [of i ?s2 tk ?ts ?q ids] i t tk(2) by simp
  moreover have "(tick_step ids)\<^sup>*\<^sup>* ?s3 ?s4" using run_all [OF _ _ _ r, of i ?s3 ?n ids] i by simp
  moreover have "tick_step ids ?s4 ?s5" using count [of i ?s4 tk ?n ids] i by (cases s) simp
  moreover have "tick_step ids ?s5 ?s6" using leave [of i ?s5 tk ids] i by (cases s) simp
  ultimately have "(tick_step ids)\<^sup>*\<^sup>* s ?s6" by (meson converse_rtranclp_into_rtranclp rtranclp.rtrancl_into_rtrancl)
  moreover have "RunTick tk f (tk_world s) = tick_leave tk (tick_ran ?n (set_tasks q2 w2))"
    by (simp add: RunTick_def drain_tasks_def Drain_def t r tk(2) set_tasks_def del: length_take)
  moreover have "?pcs[i := Idle] = ?pcs" using i by (metis list_update_id)
  ultimately show ?thesis by simp
qed

section \<open>The flag\<close>

text \<open>With one thread, from the store of the draining thread on the id is its own.\<close>

definition own_drain :: "'e world \<Rightarrow> 'e ticks \<Rightarrow> bool" where
  "own_drain w0 s \<longleftrightarrow> m_taskRanOffDrainThread (tk_world s) = m_taskRanOffDrainThread w0 \<and>
     (\<exists>pc. tk_pcs s = [pc] \<and>
        (case pc of Owned tk \<Rightarrow> m_drainThreadId (tk_world s) = tk_thread tk
         | Running tk n ts \<Rightarrow> m_drainThreadId (tk_world s) = tk_thread tk | _ \<Rightarrow> True))"

lemma own_drainE:
  assumes "own_drain w0 s" and "i < length (tk_pcs s)"
  obtains pc where "tk_pcs s = [pc]" and "i = 0" and "tk_pcs s ! i = pc"
  using assms by (auto simp: own_drain_def)

lemma own_drain_step: "tick_step ids s s' \<Longrightarrow> own_drain w0 s \<Longrightarrow> own_drain w0 s'"
proof (induction rule: tick_step.induct)
  case (push s t)
  then obtain pc where "tk_pcs s = [pc]" by (auto simp: own_drain_def)
  with push show ?case by (cases pc) (simp_all add: own_drain_def)
next
  case (enter i s tk f)
  from enter(5,1) show ?case by (rule own_drainE) (use enter in \<open>simp add: own_drain_def\<close>)
next
  case (own i s tk)
  from own(3,1) show ?case by (rule own_drainE) (use own in \<open>simp add: own_drain_def\<close>)
next
  case (take_slice i s tk ts q)
  from take_slice(4,1) show ?case by (rule own_drainE) (use take_slice in \<open>simp add: own_drain_def\<close>)
next
  case (run_one i s tk n t ts w ps)
  from run_one(4,1) show ?case
    by (rule own_drainE) (use run_one exec_task_fields [OF run_one(3)] in \<open>simp add: own_drain_def\<close>)
next
  case (count i s tk n)
  from count(3,1) show ?case by (rule own_drainE) (use count in \<open>simp add: own_drain_def\<close>)
next
  case (leave i s tk)
  from leave(3,1) show ?case by (rule own_drainE) (use leave in \<open>simp add: own_drain_def\<close>)
qed

lemma own_drain_reach: "tick_reach ids w (Suc 0) s \<Longrightarrow> own_drain w s"
  by (induction rule: tick_reach.induct) (simp add: own_drain_def, rule own_drain_step)

lemma tick_reach_steps: "(tick_step ids)\<^sup>*\<^sup>* s s' \<Longrightarrow> tick_reach ids w k s \<Longrightarrow> tick_reach ids w k s'"
  by (induction rule: rtranclp_induct) (auto intro: tick_reach.step)

lemma RunTick_own:
  assumes "tick_counter f"
  shows "m_drainThreadId (RunTick tk f w) = tk_thread tk"
proof -
  obtain k v where d: "drain_tasks (tk_thread tk) 64 (tick_own tk (tick_enter tk f w)) = (k, v)" by fastforce
  from drain_tasks_frame(8) [OF d] show ?thesis by (simp add: RunTick_def d)
qed

section \<open>Properties\<close>

text \<open>
  C25: However the ticks of any number of threads and the pushes come between each other, every task
  queued is still queued, in the slice of one tick, or was run, with its multiplicity; a slice has at
  most 64 tasks; each pong that was run is counted once; and m_tasksRun counts the tasks run, short only
  of those whose tick is not over.
\<close>

theorem frame_drains:
  assumes "tick_reach ids w0 k s"
  shows "let w = tk_world s in
    mset (m_tasks (ws_net w0)) + mset (tk_pushed s) =
      mset (m_tasks (ws_net w)) + mset (concat (map slice_of (tk_pcs s))) + mset (tk_done s) \<and>
    m_appliedOnGameThread (ws_net w) =
      m_appliedOnGameThread (ws_net w0) + of_nat (length (filter (\<lambda>t. t = Task_countPong) (tk_done s))) \<and>
    m_tasksRun w + of_nat (sum_list (map uncounted (tk_pcs s))) = m_tasksRun w0 + of_nat (length (tk_done s)) \<and>
    list_all (\<lambda>pc. length (slice_of pc) + uncounted pc \<le> 64) (tk_pcs s)"
proof -
  have ok: "pc_ok pc \<Longrightarrow> length (slice_of pc) + uncounted pc \<le> 64" for pc
    by (cases pc) auto
  from tick_reach_inv [OF assms] have inv: "tick_inv w0 s" .
  then have "list_all (\<lambda>pc. length (slice_of pc) + uncounted pc \<le> 64) (tk_pcs s)"
    by (auto simp: tick_inv_def list_all_iff intro: ok)
  with inv show ?thesis by (simp add: tick_inv_def pongs_def Let_def)
qed

theorem frame_drains_witness:
  "\<exists>s. tick_reach of_nat (mk_WorldSystem () fresh_client) 1 s \<and> tk_done s = [Task_countPong] \<and>
     m_appliedOnGameThread (ws_net (tk_world s)) = 1"
proof -
  let ?w = "mk_WorldSystem () fresh_client"
  let ?s = "\<lparr>tk_world = set_tasks [Task_countPong] ?w, tk_pcs = [Idle], tk_pushed = [Task_countPong], tk_done = []\<rparr>"
  let ?f = "\<lambda>w :: unit world. w\<lparr>m_frameBeginTicks := m_frameBeginTicks w + 1\<rparr>"
  have q: "m_tasks (ws_net ?w) = []" "m_appliedOnGameThread (ws_net ?w) = 0"
    by (simp_all add: mk_WorldSystem_def fresh_client_def mk_NetClient_def)
  have "tick_reach of_nat ?w 1 ?s"
    by (rule tick_reach.step [OF tick_reach.start])
      (use push [of of_nat "\<lparr>tk_world = ?w, tk_pcs = [Idle], tk_pushed = [], tk_done = []\<rparr>" Task_countPong] q
       in \<open>simp add: Push_def\<close>)
  from tick_reach_steps [OF RunTick_steps [of 0 ?s "test_tick 5\<lparr>tk_thread := 0\<rparr>" of_nat ?f] this]
  obtain s where r: "tick_reach of_nat ?w 1 s" and d: "tk_done s = [Task_countPong]" by fastforce
  from frame_drains [OF r] d q(2) have "m_appliedOnGameThread (ws_net (tk_world s)) = 1" by (simp add: Let_def)
  with r d show ?thesis by blast
qed

text \<open>
  C26: The flag that reports a task run off its draining thread says what it should as long as one thread
  ticks: it is never set. With two it can be set although every task was run by the thread that drained
  it: m_drainThreadId is one variable for all of them, and the other thread may store its own id between
  the store and the task.
\<close>

theorem drain_flag:
  fixes w0 :: "'e world"
  assumes "ids 0 \<noteq> ids 1" and "m_tasks (ws_net w0) = []"
  shows "(\<forall>s. tick_reach ids w0 1 s \<longrightarrow> m_taskRanOffDrainThread (tk_world s) = m_taskRanOffDrainThread w0) \<and>
    (\<exists>s. tick_reach ids w0 2 s \<and> tk_pcs s = [Idle, Idle] \<and> tk_pushed s = [Task_checkDrainThread] \<and>
      tk_done s = [Task_checkDrainThread] \<and> m_taskRanOffDrainThread (tk_world s))"
proof -
  let ?f = "\<lambda>w :: 'e world. w\<lparr>m_frameBeginTicks := m_frameBeginTicks w + 1\<rparr>"
  let ?tk = "\<lambda>i. \<lparr>tk_nowMs = 0, tk_thread = ids i, tk_deltaTime = 0, tk_micros = 0\<rparr>"
  let ?t = Task_checkDrainThread and ?a = "?tk 0" and ?b = "?tk 1"
  let ?v = "tick_own ?a (tick_enter ?a ?f w0)"
  define w1 where "w1 = set_tasks [] (set_tasks [?t] ?v)"
  define w2 where "w2 = RunTick ?b ?f w1"
  let ?w3 = "w2\<lparr>m_taskRanOffDrainThread := True\<rparr>"
  let ?s = "\<lambda>w pc pushed run. \<lparr>tk_world = w, tk_pcs = [pc, Idle], tk_pushed = pushed, tk_done = run\<rparr>"
  have two: "replicate 2 Idle = [Idle, Idle]" by (simp add: numeral_2_eq_2)
  have q: "m_tasks (ws_net ?v) = []" using assms(2) by simp
  have r0: "tick_reach ids w0 2 (?s w0 Idle [] [])" using tick_reach.start [of ids w0 2] by (simp add: two)
  have r1: "tick_reach ids w0 2 (?s (tick_enter ?a ?f w0) (Entered ?a) [] [])"
    by (rule tick_reach.step [OF r0]) (use enter [of 0 "?s w0 Idle [] []" ?a ids ?f] in simp)
  have r2: "tick_reach ids w0 2 (?s ?v (Owned ?a) [] [])"
    by (rule tick_reach.step [OF r1]) (use own [of 0 "?s (tick_enter ?a ?f w0) (Entered ?a) [] []" ?a ids] in simp)
  have r3: "tick_reach ids w0 2 (?s (set_tasks [?t] ?v) (Owned ?a) [?t] [])"
    by (rule tick_reach.step [OF r2]) (use push [of ids "?s ?v (Owned ?a) [] []" ?t] q in \<open>simp add: Push_def\<close>)
  have r4: "tick_reach ids w0 2 (?s w1 (Running ?a 1 [?t]) [?t] [])"
    by (rule tick_reach.step [OF r3]) (use take_slice [of 0 "?s (set_tasks [?t] ?v) (Owned ?a) [?t] []" ?a "[?t]" "[]" ids]
      in \<open>simp add: Drain_take_def w1_def\<close>)
  have q1: "m_tasks (ws_net w1) = []" by (simp add: w1_def)
  have "(tick_step ids)\<^sup>*\<^sup>* (?s w1 (Running ?a 1 [?t]) [?t] []) ((?s w1 (Running ?a 1 [?t]) [?t] [])\<lparr>tk_world := w2,
      tk_done := [] @ take 64 []\<rparr>)"
    using RunTick_steps [where i = 1 and s = "?s w1 (Running ?a 1 [?t]) [?t] []" and tk = ?b and ids = ids and f = ?f]
    unfolding w2_def by (simp add: q1)
  then have r5: "tick_reach ids w0 2 (?s w2 (Running ?a 1 [?t]) [?t] [])"
    using tick_reach_steps [OF _ r4] by simp
  have "m_drainThreadId w2 = ids 1" unfolding w2_def by (subst RunTick_own) simp_all
  with assms(1) have e: "exec_task (tk_thread ?a) ?t w2 = (?w3, [])" by (simp add: exec_task_def)
  have r6: "tick_reach ids w0 2 (?s (set_tasks (m_tasks (ws_net w2)) ?w3) (Running ?a 1 []) [?t] [?t])"
    by (rule tick_reach.step [OF r5]) (use run_one [of 0 "?s w2 (Running ?a 1 [?t]) [?t] []" ?a 1 ?t "[]" ?w3 "[]" ids] e in
      \<open>simp del: tick_info.select_convs\<close>)
  have r7: "tick_reach ids w0 2 (?s (tick_ran 1 (set_tasks (m_tasks (ws_net w2)) ?w3)) (Counted ?a) [?t] [?t])"
    by (rule tick_reach.step [OF r6])
      (use count [of 0 "?s (set_tasks (m_tasks (ws_net w2)) ?w3) (Running ?a 1 []) [?t] [?t]" ?a 1 ids] in simp)
  have "tick_reach ids w0 2 (?s (tick_leave ?a (tick_ran 1 (set_tasks (m_tasks (ws_net w2)) ?w3))) Idle [?t] [?t])"
    by (rule tick_reach.step [OF r7])
      (use leave [of 0 "?s (tick_ran 1 (set_tasks (m_tasks (ws_net w2)) ?w3)) (Counted ?a) [?t] [?t]" ?a ids] in simp)
  moreover have "m_taskRanOffDrainThread (tick_leave ?a (tick_ran 1 (set_tasks (m_tasks (ws_net w2)) ?w3)))" by simp
  ultimately have "\<exists>s. tick_reach ids w0 2 s \<and> tk_pcs s = [Idle, Idle] \<and> tk_pushed s = [?t] \<and> tk_done s = [?t] \<and>
      m_taskRanOffDrainThread (tk_world s)" by (intro exI conjI) (assumption, simp_all)
  then show ?thesis using own_drain_reach [of ids w0] by (auto simp: own_drain_def)
qed

theorem drain_flag_witness:
  "\<exists>s. tick_reach of_nat (mk_WorldSystem () fresh_client) 2 s \<and> tk_done s = [Task_checkDrainThread] \<and>
     m_taskRanOffDrainThread (tk_world s)"
  using drain_flag [of of_nat "mk_WorldSystem () fresh_client"]
  by (auto simp: mk_WorldSystem_def fresh_client_def mk_NetClient_def)

end
