(* ===== verification/Script_Host.thy ===== *)
theory Script_Host imports
  Session
  Task_Queue
begin

text \<open>
  src/src/server/Script.hpp, ScriptHost.hpp and ScriptHost.cpp: the boundary between the server
  core and the scripting backends.

  A backend reaches the server only through the boundary: it reads the players (IPlayers over the
  session manager), and it calls Kick on a player it found or writes to the logger. A callback of a
  backend is therefore a function of its own state and of the manager it reads, giving its new
  state and the list of boundary calls it made. The vtable of IBackend is a record of functions;
  the backends of a host share one state type 'b, on which the record dispatches. Writing the log
  line to stdout is not modelled; the line kept by the logger is.
\<close>

section \<open>The boundary\<close>

record PendingKick =
  pk_playerId :: PlayerId
  pk_reason :: string

text \<open>What a callback may do with the Host it was given.\<close>

datatype host_call =
    Call_Info string
  | Call_Warn string
  | Call_Error string
  | Call_Kick PlayerId string

record 'b IBackend =
  be_Name :: "'b \<Rightarrow> string"
  be_Start :: "SessionManager \<Rightarrow> 'b \<Rightarrow> bool \<times> 'b \<times> host_call list"
  be_Stop :: "SessionManager \<Rightarrow> 'b \<Rightarrow> 'b \<times> host_call list"
  be_OnPlayerJoin :: "PlayerId \<Rightarrow> SessionManager \<Rightarrow> 'b \<Rightarrow> 'b \<times> host_call list"
  be_OnPlayerLeave :: "PlayerId \<Rightarrow> SessionManager \<Rightarrow> 'b \<Rightarrow> 'b \<times> host_call list"
  be_OnTick :: "u64 \<Rightarrow> SessionManager \<Rightarrow> 'b \<Rightarrow> 'b \<times> host_call list"

record 'b ScriptHost =
  m_backends :: "'b list"
  m_kicks :: "PendingKick list"
  m_lines :: "string list"

definition mk_ScriptHost :: "'b ScriptHost" where
  "mk_ScriptHost = \<lparr>m_backends = [], m_kicks = [], m_lines = []\<rparr>"

section \<open>PlayerView, Players and Logger\<close>

text \<open>A PlayerView refers to a session of the manager, by its index.\<close>

definition PlayerView_GetId :: "SessionManager \<Rightarrow> nat \<Rightarrow> PlayerId" where
  "PlayerView_GetId m i = sess_id (m_sessions m ! i)"

definition PlayerView_GetUsername :: "SessionManager \<Rightarrow> nat \<Rightarrow> string" where
  "PlayerView_GetUsername m i = sess_username (m_sessions m ! i)"

definition PlayerView_GetAddress :: "SessionManager \<Rightarrow> nat \<Rightarrow> string" where
  "PlayerView_GetAddress m i = Endpoint_ToString (sess_endpoint (m_sessions m ! i))"

definition PlayerView_Kick :: "SessionManager \<Rightarrow> nat \<Rightarrow> string \<Rightarrow> PendingKick list \<Rightarrow> PendingKick list" where
  "PlayerView_Kick m i aReason kicks =
     kicks @ [\<lparr>pk_playerId = sess_id (m_sessions m ! i), pk_reason = aReason\<rparr>]"

definition Players_Count :: "SessionManager \<Rightarrow> nat" where
  "Players_Count m = Count m"

definition Players_Find :: "PlayerId \<Rightarrow> SessionManager \<Rightarrow> nat option" where
  "Players_Find aPlayerId m = (case Find_id aPlayerId m of None \<Rightarrow> None | Some session \<Rightarrow> Some session)"

definition Players_Ids :: "SessionManager \<Rightarrow> PlayerId list" where
  "Players_Ids m = map sess_id (m_sessions m)"

definition Logger_Emit :: "string \<Rightarrow> string \<Rightarrow> 'b ScriptHost \<Rightarrow> 'b ScriptHost" where
  "Logger_Emit aLevel aMessage h =
     h\<lparr>m_lines := m_lines h @ [''[script:'' @ aLevel @ ''] '' @ aMessage]\<rparr>"

definition Logger_Info :: "string \<Rightarrow> 'b ScriptHost \<Rightarrow> 'b ScriptHost" where
  "Logger_Info = Logger_Emit ''info''"

definition Logger_Warn :: "string \<Rightarrow> 'b ScriptHost \<Rightarrow> 'b ScriptHost" where
  "Logger_Warn = Logger_Emit ''warn''"

definition Logger_Error :: "string \<Rightarrow> 'b ScriptHost \<Rightarrow> 'b ScriptHost" where
  "Logger_Error = Logger_Emit ''error''"

text \<open>
  A kick is made on the view that Find returned; there is none for an unknown player. Call_Kick is the
  lookup and the kick together. The one view that Players keeps is rebuilt by every Find, so a backend
  that holds the pointer of an earlier Find and kicks through it kicks the player it looked up last:
  such a backend makes, in this model, the call for that player.
\<close>

fun host_perform :: "SessionManager \<Rightarrow> host_call \<Rightarrow> 'b ScriptHost \<Rightarrow> 'b ScriptHost" where
  "host_perform m (Call_Info s) h = Logger_Info s h"
| "host_perform m (Call_Warn s) h = Logger_Warn s h"
| "host_perform m (Call_Error s) h = Logger_Error s h"
| "host_perform m (Call_Kick p reason) h =
     (case Players_Find p m of
        None \<Rightarrow> h
      | Some i \<Rightarrow> h\<lparr>m_kicks := PlayerView_Kick m i reason (m_kicks h)\<rparr>)"

section \<open>ScriptHost\<close>

definition ScriptHost_Add :: "'b option \<Rightarrow> 'b ScriptHost \<Rightarrow> 'b ScriptHost" where
  "ScriptHost_Add aBackend h =
     (case aBackend of None \<Rightarrow> h | Some b \<Rightarrow> h\<lparr>m_backends := m_backends h @ [b]\<rparr>)"

text \<open>The loop of StartAll: the backends still to start, the ones kept, the host.\<close>

fun start_loop :: "'b IBackend \<Rightarrow> SessionManager \<Rightarrow> 'b list \<Rightarrow> 'b ScriptHost \<Rightarrow> 'b list \<times> 'b ScriptHost" where
  "start_loop vt m [] h = ([], h)"
| "start_loop vt m (b # bs) h =
     (case be_Start vt m b of
        (ok, b', calls) \<Rightarrow>
          (case start_loop vt m bs (fold (host_perform m) calls h) of
             (kept, h') \<Rightarrow> (if ok then b' # kept else kept, h')))"

definition StartAll :: "'b IBackend \<Rightarrow> SessionManager \<Rightarrow> 'b ScriptHost \<Rightarrow> nat \<times> 'b ScriptHost" where
  "StartAll vt m h =
     (case start_loop vt m (m_backends h) h of
        (kept, h') \<Rightarrow> (length kept, h'\<lparr>m_backends := kept\<rparr>))"

text \<open>for (auto& backend : m_backends) backend->Callback(...)\<close>

fun dispatch_loop ::
  "('b \<Rightarrow> 'b \<times> host_call list) \<Rightarrow> SessionManager \<Rightarrow> 'b list \<Rightarrow> 'b ScriptHost \<Rightarrow> 'b list \<times> 'b ScriptHost" where
  "dispatch_loop cb m [] h = ([], h)"
| "dispatch_loop cb m (b # bs) h =
     (case cb b of
        (b', calls) \<Rightarrow>
          (case dispatch_loop cb m bs (fold (host_perform m) calls h) of (bs', h') \<Rightarrow> (b' # bs', h')))"

definition dispatch :: "('b \<Rightarrow> 'b \<times> host_call list) \<Rightarrow> SessionManager \<Rightarrow> 'b ScriptHost \<Rightarrow> 'b ScriptHost" where
  "dispatch cb m h =
     (case dispatch_loop cb m (m_backends h) h of (bs, h') \<Rightarrow> h'\<lparr>m_backends := bs\<rparr>)"

definition StopAll :: "'b IBackend \<Rightarrow> SessionManager \<Rightarrow> 'b ScriptHost \<Rightarrow> 'b ScriptHost" where
  "StopAll vt m h = (dispatch (be_Stop vt m) m h)\<lparr>m_backends := []\<rparr>"

definition ScriptHost_OnPlayerJoin :: "'b IBackend \<Rightarrow> PlayerId \<Rightarrow> SessionManager \<Rightarrow> 'b ScriptHost \<Rightarrow> 'b ScriptHost" where
  "ScriptHost_OnPlayerJoin vt p m h = dispatch (be_OnPlayerJoin vt p m) m h"

definition ScriptHost_OnPlayerLeave :: "'b IBackend \<Rightarrow> PlayerId \<Rightarrow> SessionManager \<Rightarrow> 'b ScriptHost \<Rightarrow> 'b ScriptHost" where
  "ScriptHost_OnPlayerLeave vt p m h = dispatch (be_OnPlayerLeave vt p m) m h"

definition ScriptHost_OnTick :: "'b IBackend \<Rightarrow> u64 \<Rightarrow> SessionManager \<Rightarrow> 'b ScriptHost \<Rightarrow> 'b ScriptHost" where
  "ScriptHost_OnTick vt now m h = dispatch (be_OnTick vt now m) m h"

definition TakeKicks :: "'b ScriptHost \<Rightarrow> PendingKick list \<times> 'b ScriptHost" where
  "TakeKicks h = (m_kicks h, h\<lparr>m_kicks := []\<rparr>)"

definition LogLines :: "'b ScriptHost \<Rightarrow> string list" where
  "LogLines h = m_lines h"

definition BackendCount :: "'b ScriptHost \<Rightarrow> nat" where
  "BackendCount h = length (m_backends h)"

section \<open>LogBackend\<close>

text \<open>Its state is the Host it was started with; has_host says that the pointers are set.\<close>

record LogBackend =
  has_host :: bool

definition mk_LogBackend :: LogBackend where
  "mk_LogBackend = \<lparr>has_host = False\<rparr>"

definition LogBackend_Start :: "SessionManager \<Rightarrow> LogBackend \<Rightarrow> bool \<times> LogBackend \<times> host_call list" where
  "LogBackend_Start m b = (True, b\<lparr>has_host := True\<rparr>, [Call_Info ''log backend started''])"

definition LogBackend_Stop :: "SessionManager \<Rightarrow> LogBackend \<Rightarrow> LogBackend \<times> host_call list" where
  "LogBackend_Stop m b = (b, if has_host b then [Call_Info ''log backend stopped''] else [])"

definition LogBackend_OnPlayerJoin :: "PlayerId \<Rightarrow> SessionManager \<Rightarrow> LogBackend \<Rightarrow> LogBackend \<times> host_call list" where
  "LogBackend_OnPlayerJoin p m b =
     (b, case Players_Find p m of
           None \<Rightarrow> []
         | Some i \<Rightarrow>
             [Call_Info (''join #'' @ dec_digits (unat (PlayerView_GetId m i)) @ '' '' @ [char_of (39 :: nat)] @
                PlayerView_GetUsername m i @ [char_of (39 :: nat)] @ '' from '' @ PlayerView_GetAddress m i @
                '', '' @ dec_digits (Players_Count m) @ '' online'')])"

definition LogBackend_OnPlayerLeave :: "PlayerId \<Rightarrow> SessionManager \<Rightarrow> LogBackend \<Rightarrow> LogBackend \<times> host_call list" where
  "LogBackend_OnPlayerLeave p m b =
     (b, [Call_Info (''leave #'' @ dec_digits (unat p) @ '', '' @ dec_digits (Players_Count m) @ '' online'')])"

definition LogBackend_OnTick :: "u64 \<Rightarrow> SessionManager \<Rightarrow> LogBackend \<Rightarrow> LogBackend \<times> host_call list" where
  "LogBackend_OnTick now m b = (b, [])"

definition LogBackend_vt :: "LogBackend IBackend" where
  "LogBackend_vt =
     \<lparr>be_Name = (\<lambda>_. ''log''), be_Start = LogBackend_Start, be_Stop = LogBackend_Stop,
      be_OnPlayerJoin = LogBackend_OnPlayerJoin, be_OnPlayerLeave = LogBackend_OnPlayerLeave,
      be_OnTick = LogBackend_OnTick\<rparr>"

section \<open>Lemmas\<close>

lemma Players_Find_eq: "Players_Find = Find_id"
  by (auto simp: fun_eq_iff Players_Find_def split: option.splits)

text \<open>The kick queue is a swap-out queue.\<close>

interpretation kick_queue: work_queue
  "\<lambda>k h. h\<lparr>m_kicks := m_kicks h @ [k]\<rparr>" "\<lambda>_. TakeKicks" "m_kicks"
  by unfold_locales (auto simp: TakeKicks_def)

text \<open>A boundary call leaves the backends alone and only ever appends.\<close>

lemma host_perform_backends [simp]: "m_backends (host_perform m c h) = m_backends h"
  by (cases c) (simp_all add: Logger_Info_def Logger_Warn_def Logger_Error_def Logger_Emit_def split: option.splits)

lemma fold_perform_backends [simp]: "m_backends (fold (host_perform m) cs h) = m_backends h"
  by (induction cs arbitrary: h) simp_all

text \<open>The kicks a list of calls queues: one for each Kick whose player is found.\<close>

definition kicks_of :: "SessionManager \<Rightarrow> host_call list \<Rightarrow> PendingKick list" where
  "kicks_of m cs = List.map_filter (\<lambda>c. case c of
      Call_Kick p r \<Rightarrow> (case Find_id p m of None \<Rightarrow> None | Some _ \<Rightarrow> Some \<lparr>pk_playerId = p, pk_reason = r\<rparr>)
    | _ \<Rightarrow> None) cs"

lemma kicks_of_simps [simp]:
  "kicks_of m [] = []" "kicks_of m (xs @ ys) = kicks_of m xs @ kicks_of m ys"
  by (simp_all add: kicks_of_def map_filter_def)

lemma fold_perform_kicks: "m_kicks (fold (host_perform m) cs h) = m_kicks h @ kicks_of m cs"
proof (induction cs arbitrary: h)
  case (Cons c cs)
  have "m_kicks (host_perform m c h) = m_kicks h @ kicks_of m [c]"
    by (cases c)
      (auto simp: kicks_of_def map_filter_simps Players_Find_eq PlayerView_Kick_def Logger_Info_def
        Logger_Warn_def Logger_Error_def Logger_Emit_def dest: Find_id_SomeD split: option.splits)
  moreover have "kicks_of m (c # cs) = kicks_of m [c] @ kicks_of m cs"
    using kicks_of_simps(2) [of m "[c]" cs] by simp
  ultimately show ?case using Cons.IH by simp
qed simp

text \<open>Only players that are online can be on the queue.\<close>

lemma kicks_of_online: "k \<in> set (kicks_of m cs) \<Longrightarrow> Find_id (pk_playerId k) m \<noteq> None"
  by (induction cs) (auto simp: kicks_of_def map_filter_simps split: host_call.splits option.splits)

text \<open>What a dispatch does: each backend once, in order, on the same manager.\<close>

lemma dispatch_loop_eq:
  "dispatch_loop cb m bs h =
     (map (fst \<circ> cb) bs, fold (host_perform m) (concat (map (snd \<circ> cb) bs)) h)"
  by (induction bs arbitrary: h) (simp_all split: prod.splits)

lemma dispatch_eq:
  "dispatch cb m h =
     (fold (host_perform m) (concat (map (snd \<circ> cb) (m_backends h))) h)\<lparr>m_backends := map (fst \<circ> cb) (m_backends h)\<rparr>"
  by (simp add: dispatch_def dispatch_loop_eq)

lemma dispatch_kicks:
  "m_kicks (dispatch cb m h) = m_kicks h @ kicks_of m (concat (map (snd \<circ> cb) (m_backends h)))"
  by (simp add: dispatch_eq fold_perform_kicks)

lemma dispatch_backends: "m_backends (dispatch cb m h) = map (fst \<circ> cb) (m_backends h)"
  by (simp add: dispatch_eq)

lemma start_loop_eq:
  "start_loop vt m bs h =
     (map (fst \<circ> snd \<circ> be_Start vt m) (filter (fst \<circ> be_Start vt m) bs),
      fold (host_perform m) (concat (map (snd \<circ> snd \<circ> be_Start vt m) bs)) h)"
  by (induction bs arbitrary: h) (auto split: prod.splits)

text \<open>The lines a list of calls adds to the log.\<close>

fun line_of :: "host_call \<Rightarrow> string option" where
  "line_of (Call_Info s) = Some (''[script:info] '' @ s)"
| "line_of (Call_Warn s) = Some (''[script:warn] '' @ s)"
| "line_of (Call_Error s) = Some (''[script:error] '' @ s)"
| "line_of (Call_Kick _ _) = None"

definition lines_of :: "host_call list \<Rightarrow> string list" where
  "lines_of cs = List.map_filter line_of cs"

lemma perform_lines: "m_lines (host_perform m c h) = m_lines h @ (case line_of c of None \<Rightarrow> [] | Some s \<Rightarrow> [s])"
  by (cases c) (simp_all add: Logger_Info_def Logger_Warn_def Logger_Error_def Logger_Emit_def split: option.splits)

lemma fold_perform_lines: "m_lines (fold (host_perform m) cs h) = m_lines h @ lines_of cs"
  by (induction cs arbitrary: h)
    (simp_all add: lines_of_def map_filter_simps perform_lines split: option.splits)

section \<open>Properties\<close>

text \<open>
  Each of the three events reaches every backend exactly once, in the order they were added, each seeing
  the same players; their log lines and kicks are recorded in that order, behind what was recorded before.
\<close>

theorem events_reach_backends:
  "let reach = (\<lambda>cb h'. let calls = concat (map (snd \<circ> cb) (m_backends h)) in
      m_backends h' = map (fst \<circ> cb) (m_backends h) \<and> LogLines h' = LogLines h @ lines_of calls \<and>
      m_kicks h' = m_kicks h @ kicks_of m calls)
   in reach (be_OnPlayerJoin vt p m) (ScriptHost_OnPlayerJoin vt p m h) \<and>
      reach (be_OnPlayerLeave vt p m) (ScriptHost_OnPlayerLeave vt p m h) \<and>
      reach (be_OnTick vt now m) (ScriptHost_OnTick vt now m h)"
  by (simp add: Let_def ScriptHost_OnPlayerJoin_def ScriptHost_OnPlayerLeave_def ScriptHost_OnTick_def
      dispatch_eq fold_perform_lines fold_perform_kicks LogLines_def)

text \<open>
  StartAll starts every backend once, in order, and keeps exactly those whose Start returned true;
  a backend that failed to start gets no event. It returns how many were kept, and the boundary calls
  of all of them are performed, those of the failed ones included. StopAll empties the host.
\<close>

theorem StartAll_keeps_started:
  "let (n, h') = StartAll vt m h
   in m_backends h' = map (fst \<circ> snd \<circ> be_Start vt m) (filter (fst \<circ> be_Start vt m) (m_backends h)) \<and>
      n = BackendCount h' \<and> n \<le> BackendCount h \<and>
      LogLines h' = LogLines h @ lines_of (concat (map (snd \<circ> snd \<circ> be_Start vt m) (m_backends h))) \<and>
      BackendCount (StopAll vt m h') = 0"
  by (simp add: StartAll_def start_loop_eq BackendCount_def LogLines_def fold_perform_lines StopAll_def)

end
