(* ===== verification/Server_Main.thy ===== *)
theory Server_Main imports
  Script_Host
begin

text \<open>
  src/src/server/main.cpp: the handlers and the loop of the server.

  The state is what main keeps: the session manager, the script host, the count of rejected
  datagrams, and the datagrams handed to the socket, in the order of the SendTo calls (whose result
  the code ignores). One iteration of the loop takes the time it read and what RecvFrom returned; a
  run of the server is a list of these. Log lines on stdout are not modelled. The scripting backends
  are any vtable over any state.
\<close>

section \<open>State and sending\<close>

definition kMaxPlayers :: nat where "kMaxPlayers = 32"
definition kTimeoutMs :: u64 where "kTimeoutMs = 10000"
definition kPollMs :: u32 where "kPollMs = 250"
definition kDefaultPort :: u16 where "kDefaultPort = 11780"

record 'b server =
  sv_sessions :: SessionManager
  sv_scripts :: "'b ScriptHost"
  sv_rejected :: u64
  sv_out :: "(Endpoint \<times> u8 list) list"

definition Send :: "Endpoint \<Rightarrow> u8 list \<Rightarrow> 'b server \<Rightarrow> 'b server" where
  "Send aTo aData sv = sv\<lparr>sv_out := sv_out sv @ [(aTo, aData)]\<rparr>"

text \<open>\<^verbatim>\<open>std::vector<uint8_t> out; if (proto::Encode(msg, out)) Send(aSocket, aTo, out);\<close>\<close>

definition encode_and_send :: "'m msg_traits \<Rightarrow> 'm \<Rightarrow> Endpoint \<Rightarrow> 'b server \<Rightarrow> 'b server" where
  "encode_and_send T msg aTo sv =
     (case Encode T msg of (ok, out) \<Rightarrow> if ok then Send aTo out sv else sv)"

definition Broadcast :: "'m msg_traits \<Rightarrow> 'm \<Rightarrow> PlayerId \<Rightarrow> 'b server \<Rightarrow> 'b server" where
  "Broadcast T aMessage aExcept sv =
     (case Encode T aMessage of
        (ok, out) \<Rightarrow>
          if \<not> ok then sv
          else fold (\<lambda>session sv. if sess_id session \<noteq> aExcept then Send (sess_endpoint session) out sv else sv)
                 (m_sessions (sv_sessions sv)) sv)"

section \<open>Handlers\<close>

definition HandleHello :: "'b IBackend \<Rightarrow> Endpoint \<Rightarrow> u8 list \<Rightarrow> u64 \<Rightarrow> 'b server \<Rightarrow> 'b server" where
  "HandleHello vt aFrom aData aNowMs sv =
     (case Decode Hello_T aData Hello_default of
        (ok, hello) \<Rightarrow>
          if \<not> ok then sv
          else
            (case Join aFrom (hello_username hello) (hello_version hello) aNowMs (sv_sessions sv) of
               (result, playerId, sessions) \<Rightarrow>
                 (let sv1 = sv\<lparr>sv_sessions := sessions\<rparr>;
                      accepted = (result = Accepted \<or> result = AlreadyJoined);
                      ack = HelloAck_default\<lparr>ack_accepted := accepted,
                              ack_reason := (if \<not> accepted then JoinResult_ToString result else [])\<rparr>;
                      sv2 = encode_and_send HelloAck_T ack aFrom sv1
                  in if result \<noteq> Accepted then sv2
                     else
                       (let sv3 = fold (\<lambda>session sv.
                                if sess_id session = playerId then sv
                                else encode_and_send NotifyPlayerJoined_T
                                       \<lparr>npj_playerId = sess_id session, npj_username = sess_username session\<rparr> aFrom sv)
                              (m_sessions sessions) sv2;
                            sv4 = Broadcast NotifyPlayerJoined_T
                                    \<lparr>npj_playerId = playerId, npj_username = hello_username hello\<rparr> playerId sv3
                        in sv4\<lparr>sv_scripts := ScriptHost_OnPlayerJoin vt playerId (sv_sessions sv4) (sv_scripts sv4)\<rparr>))))"

definition HandlePlayerState :: "Endpoint \<Rightarrow> u8 list \<Rightarrow> 'b server \<Rightarrow> 'b server" where
  "HandlePlayerState aFrom aData sv =
     (case Find_endpoint aFrom (sv_sessions sv) of
        None \<Rightarrow> sv
      | Some session \<Rightarrow>
          (case Decode PlayerState_T aData PlayerState_default of
             (ok, state) \<Rightarrow>
               if \<not> ok then sv
               else
                 (case ApplyState aFrom (ps_tick state)
                         (vx (ps_position state), vy (ps_position state), vz (ps_position state))
                         (ps_rotation state) (sv_sessions sv) of
                    (applied, sessions) \<Rightarrow>
                      if \<not> applied then sv\<lparr>sv_sessions := sessions\<rparr>
                      else
                        (let playerId = sess_id (m_sessions sessions ! session);
                             notify = \<lparr>nps_playerId = playerId, nps_tick = ps_tick state,
                                        nps_position = ps_position state, nps_rotation = ps_rotation state\<rparr>
                         in Broadcast NotifyPlayerState_T notify playerId (sv\<lparr>sv_sessions := sessions\<rparr>)))))"

definition HandlePing :: "Endpoint \<Rightarrow> u8 list \<Rightarrow> 'b server \<Rightarrow> 'b server" where
  "HandlePing aFrom aData sv =
     (case Find_endpoint aFrom (sv_sessions sv) of
        None \<Rightarrow> sv
      | Some _ \<Rightarrow>
          (case Decode Ping_T aData Ping_default of
             (ok, ping) \<Rightarrow>
               if \<not> ok then sv
               else encode_and_send Pong_T \<lparr>pong_sentAt = ping_sentAt ping\<rparr> aFrom sv))"

section \<open>The loop\<close>

lemma Send_simps [simp]:
  "sv_sessions (Send e d sv) = sv_sessions sv" "sv_scripts (Send e d sv) = sv_scripts sv"
  "sv_rejected (Send e d sv) = sv_rejected sv" "sv_out (Send e d sv) = sv_out sv @ [(e, d)]"
  by (simp_all add: Send_def)

text \<open>A loop that only sends is determined by the datagrams it sends.\<close>

definition sends :: "(Endpoint \<times> u8 list) list \<Rightarrow> 'b server \<Rightarrow> 'b server" where
  "sends ds sv = sv\<lparr>sv_out := sv_out sv @ ds\<rparr>"

lemma sends_simps [simp]:
  "sv_sessions (sends ds sv) = sv_sessions sv" "sv_scripts (sends ds sv) = sv_scripts sv"
  "sv_rejected (sends ds sv) = sv_rejected sv" "sv_out (sends ds sv) = sv_out sv @ ds"
  "sends [] sv = sv" "sends es (sends ds sv) = sends (ds @ es) sv"
  by (simp_all add: sends_def)

definition datagram_of :: "'m msg_traits \<Rightarrow> 'm \<Rightarrow> u8 list list" where
  "datagram_of T msg = (case Encode T msg of (ok, out) \<Rightarrow> if ok then [out] else [])"

lemma encode_and_send_eq: "encode_and_send T msg e sv = sends (map (Pair e) (datagram_of T msg)) sv"
  by (auto simp: encode_and_send_def datagram_of_def Send_def sends_def split: prod.splits)

lemma fold_sends: "fold (\<lambda>x sv. sends (f x) sv) xs sv = sends (concat (map f xs)) sv"
  by (induction xs arbitrary: sv) simp_all

lemma Broadcast_eq:
  "Broadcast T msg p sv =
     sends (concat (map (\<lambda>s. map (Pair (sess_endpoint s)) (datagram_of T msg))
              (filter (\<lambda>s. sess_id s \<noteq> p) (m_sessions (sv_sessions sv))))) sv"
proof -
  have f: "fold (\<lambda>s sv. if sess_id s \<noteq> p then Send (sess_endpoint s) out sv else sv) xs sv' =
      sends (map (\<lambda>s. (sess_endpoint s, out)) (filter (\<lambda>s. sess_id s \<noteq> p) xs)) sv'" for out xs sv'
    by (induction xs arbitrary: sv') (simp_all add: Send_def sends_def)
  have c: "concat (map (\<lambda>s. [(sess_endpoint s, out)]) xs) = map (\<lambda>s. (sess_endpoint s, out)) xs" for out xs
    by (induction xs) simp_all
  have n: "concat (map (\<lambda>s. []) xs) = []" for xs :: "Session list"
    by (induction xs) simp_all
  show ?thesis
    by (cases "Encode T msg") (auto simp: Broadcast_def datagram_of_def f c n)
qed

text \<open>The body of the timeout loop, for one dropped session.\<close>

definition timed_out_body :: "'b IBackend \<Rightarrow> Session \<Rightarrow> 'b server \<Rightarrow> 'b server" where
  "timed_out_body vt dropped sv =
     (let sv1 = Broadcast NotifyPlayerLeft_T \<lparr>npl_playerId = sess_id dropped\<rparr> (sess_id dropped) sv
      in sv1\<lparr>sv_scripts := ScriptHost_OnPlayerLeave vt (sess_id dropped) (sv_sessions sv1) (sv_scripts sv1)\<rparr>)"

lemma timed_out_body_sessions [simp]: "sv_sessions (timed_out_body vt d sv) = sv_sessions sv"
  by (simp add: timed_out_body_def Broadcast_eq Let_def)

text \<open>
  \<^verbatim>\<open>while (const auto dropped = sessions.TakeNextTimedOut(now))\<close> ends because each turn takes one
  session out and the body puts none in.
\<close>

function sweep :: "'b IBackend \<Rightarrow> u64 \<Rightarrow> 'b server \<Rightarrow> 'b server" where
  "sweep vt now sv =
     (case TakeNextTimedOut now (sv_sessions sv) of
        (None, sessions) \<Rightarrow> sv\<lparr>sv_sessions := sessions\<rparr>
      | (Some dropped, sessions) \<Rightarrow> sweep vt now (timed_out_body vt dropped (sv\<lparr>sv_sessions := sessions\<rparr>)))"
  by pat_completeness auto
termination
  by (relation "measure (\<lambda>(vt, now, sv). Count (sv_sessions sv))")
    (auto simp: Count_def dest!: sym [of "(_, _)"] rows_TakeNextTimedOut)

declare sweep.simps [simp del]

text \<open>One queued kick.\<close>

definition kick_body :: "'b IBackend \<Rightarrow> PendingKick \<Rightarrow> 'b server \<Rightarrow> 'b server" where
  "kick_body vt kick sv =
     (case Find_id (pk_playerId kick) (sv_sessions sv) of
        None \<Rightarrow> sv
      | Some session \<Rightarrow>
          (let sv1 = sv\<lparr>sv_sessions := snd (Remove (pk_playerId kick) (sv_sessions sv))\<rparr>;
               sv2 = Broadcast NotifyPlayerLeft_T \<lparr>npl_playerId = pk_playerId kick\<rparr> (pk_playerId kick) sv1
           in sv2\<lparr>sv_scripts := ScriptHost_OnPlayerLeave vt (pk_playerId kick) (sv_sessions sv2) (sv_scripts sv2)\<rparr>))"

definition run_kicks :: "'b IBackend \<Rightarrow> 'b server \<Rightarrow> 'b server" where
  "run_kicks vt sv =
     (case TakeKicks (sv_scripts sv) of
        (kicks, scripts) \<Rightarrow> fold (kick_body vt) kicks (sv\<lparr>sv_scripts := scripts\<rparr>))"

text \<open>What main does with a datagram.\<close>

definition handle_datagram :: "'b IBackend \<Rightarrow> u64 \<Rightarrow> Endpoint \<Rightarrow> u8 list \<Rightarrow> 'b server \<Rightarrow> 'b server" where
  "handle_datagram vt now peer datagram sv =
     (case PeekHeader datagram Header_default of
        (ok, header) \<Rightarrow>
          if \<not> ok then sv\<lparr>sv_rejected := sv_rejected sv + 1\<rparr>
          else
            (let sv1 = sv\<lparr>sv_sessions := snd (Touch peer now (sv_sessions sv))\<rparr>
             in case hdr_type header of
                  Type_Hello \<Rightarrow> HandleHello vt peer datagram now sv1
                | Type_Ping \<Rightarrow> HandlePing peer datagram sv1
                | Type_PlayerState \<Rightarrow> HandlePlayerState peer datagram sv1
                | _ \<Rightarrow> sv1\<lparr>sv_rejected := sv_rejected sv1 + 1\<rparr>))"

definition loop_body :: "'b IBackend \<Rightarrow> u64 \<times> (Received \<times> u8 list) option \<Rightarrow> 'b server \<Rightarrow> 'b server" where
  "loop_body vt ev sv =
     (case ev of (now, received) \<Rightarrow>
        (let sv1 = sweep vt now sv;
             sv2 = sv1\<lparr>sv_scripts := ScriptHost_OnTick vt now (sv_sessions sv1) (sv_scripts sv1)\<rparr>;
             sv3 = run_kicks vt sv2
         in case received of
              None \<Rightarrow> sv3
            | Some (r, buffer) \<Rightarrow> handle_datagram vt now (rcv_from r) (take (rcv_size r) buffer) sv3))"

text \<open>main before the loop: an empty manager, the backend added and started.\<close>

definition server_start :: "'b IBackend \<Rightarrow> 'b option \<Rightarrow> 'b server" where
  "server_start vt backend =
     (let sessions = mk_SessionManager kMaxPlayers kTimeoutMs;
          scripts = snd (StartAll vt sessions (ScriptHost_Add backend mk_ScriptHost))
      in \<lparr>sv_sessions = sessions, sv_scripts = scripts, sv_rejected = 0, sv_out = []\<rparr>)"

definition server_run :: "'b IBackend \<Rightarrow> (u64 \<times> (Received \<times> u8 list) option) list \<Rightarrow> 'b server \<Rightarrow> 'b server" where
  "server_run vt evs sv = fold (loop_body vt) evs sv"

section \<open>What the timeout sweep does\<close>

lemma first_erased:
  "find_if P xs = Some i \<Longrightarrow> filter P xs = xs ! i # filter P (erase i xs)"
  "find_if P xs = Some i \<Longrightarrow> filter (\<lambda>x. \<not> P x) (erase i xs) = filter (\<lambda>x. \<not> P x) xs"
proof (induction xs arbitrary: i)
  case (Cons x xs)
  {
    case 1
    then show ?case using Cons.IH(1) by (auto simp: erase_def split: if_splits)
  next
    case 2
    then show ?case using Cons.IH(2) by (auto simp: erase_def split: if_splits)
  }
qed simp_all

definition is_expired :: "u64 \<Rightarrow> 'b server \<Rightarrow> Session \<Rightarrow> bool" where
  "is_expired now sv = expired (m_timeoutMs (sv_sessions sv)) now"

lemma sweep_sessions:
  "sv_sessions (sweep vt now sv) =
     (sv_sessions sv)\<lparr>m_sessions := filter (\<lambda>s. \<not> is_expired now sv s) (m_sessions (sv_sessions sv))\<rparr>"
proof (induction vt now sv rule: sweep.induct)
  case (1 vt now sv)
  show ?case
  proof (cases "find_if (is_expired now sv) (m_sessions (sv_sessions sv))")
    case None
    then have "\<forall>s \<in> set (m_sessions (sv_sessions sv)). \<not> is_expired now sv s" by (simp add: find_if_None)
    moreover from None have "TakeNextTimedOut now (sv_sessions sv) = (None, sv_sessions sv)"
      by (simp add: TakeNextTimedOut_def is_expired_def)
    ultimately show ?thesis by (subst sweep.simps) simp
  next
    case (Some i)
    let ?s = "m_sessions (sv_sessions sv) ! i"
    let ?m = "(sv_sessions sv)\<lparr>m_sessions := erase i (m_sessions (sv_sessions sv))\<rparr>"
    from Some have t: "TakeNextTimedOut now (sv_sessions sv) = (Some ?s, ?m)"
      by (simp add: TakeNextTimedOut_def is_expired_def)
    from "1.IH" [OF t [symmetric] refl] first_erased(2) [OF Some] t show ?thesis
      by (subst sweep.simps) (simp add: is_expired_def)
  qed
qed

text \<open>A backend that records which leave it saw and how many players it counted then.\<close>

definition spy_vt :: "(PlayerId \<times> nat) list IBackend" where
  "spy_vt = \<lparr>be_Name = (\<lambda>_. ''spy''), be_Start = (\<lambda>m b. (True, b, [])), be_Stop = (\<lambda>m b. (b, [])),
     be_OnPlayerJoin = (\<lambda>p m b. (b, [])),
     be_OnPlayerLeave = (\<lambda>p m b. (b @ [(p, Players_Count m)], [])),
     be_OnTick = (\<lambda>now m b. (b, []))\<rparr>"

lemma sweep_backends:
  "m_backends (sv_scripts (sweep spy_vt now sv)) =
     map (\<lambda>b. b @ map (\<lambda>k. (sess_id (filter (is_expired now sv) (m_sessions (sv_sessions sv)) ! k),
                           Count (sv_sessions sv) - Suc k))
                [0..<length (filter (is_expired now sv) (m_sessions (sv_sessions sv)))])
       (m_backends (sv_scripts sv))"
proof (induction "Count (sv_sessions sv)" arbitrary: sv rule: less_induct)
  case less
  show ?case
  proof (cases "find_if (is_expired now sv) (m_sessions (sv_sessions sv))")
    case None
    then have "filter (is_expired now sv) (m_sessions (sv_sessions sv)) = []"
      by (simp add: find_if_None filter_empty_conv)
    moreover from None have "TakeNextTimedOut now (sv_sessions sv) = (None, sv_sessions sv)"
      by (simp add: TakeNextTimedOut_def is_expired_def)
    ultimately show ?thesis by (subst sweep.simps) simp
  next
    case (Some i)
    let ?s = "m_sessions (sv_sessions sv) ! i"
    let ?m = "(sv_sessions sv)\<lparr>m_sessions := erase i (m_sessions (sv_sessions sv))\<rparr>"
    let ?sv = "timed_out_body spy_vt ?s (sv\<lparr>sv_sessions := ?m\<rparr>)"
    from Some have t: "TakeNextTimedOut now (sv_sessions sv) = (Some ?s, ?m)"
      by (simp add: TakeNextTimedOut_def is_expired_def)
    have i: "i < length (m_sessions (sv_sessions sv))" using Some by (rule find_if_Some_length)
    then have c: "Count ?m = Count (sv_sessions sv) - 1" "Count ?m < Count (sv_sessions sv)"
      by (auto simp: Count_def)
    have b: "m_backends (sv_scripts ?sv) = map (\<lambda>b. b @ [(sess_id ?s, Count (sv_sessions sv) - 1)]) (m_backends (sv_scripts sv))"
      using c by (simp add: timed_out_body_def Let_def Broadcast_eq ScriptHost_OnPlayerLeave_def dispatch_backends
          spy_vt_def Players_Count_def comp_def)
    have e: "is_expired now ?sv = is_expired now sv" by (simp add: is_expired_def)
    let ?ex = "filter (is_expired now sv) (erase i (m_sessions (sv_sessions sv)))"
    have "m_backends (sv_scripts (sweep spy_vt now ?sv)) =
        map (\<lambda>b. b @ map (\<lambda>k. (sess_id (?ex ! k), Count ?m - Suc k)) [0..<length ?ex]) (m_backends (sv_scripts ?sv))"
      using less [of ?sv] c e by simp
    also have "\<dots> = map (\<lambda>b. b @ map (\<lambda>k. (sess_id ((?s # ?ex) ! k), Count (sv_sessions sv) - Suc k))
        [0..<Suc (length ?ex)]) (m_backends (sv_scripts sv))"
      unfolding b c(1)
      by (simp add: comp_def upt_conv_Cons del: upt_Suc flip: map_Suc_upt)
    finally show ?thesis
      using t first_erased(1) [OF Some] by (subst sweep.simps) simp
  qed
qed

section \<open>What the kicks do\<close>

lemma kick_body_sessions:
  "sv_sessions (kick_body vt k sv) =
     (if Find_id (pk_playerId k) (sv_sessions sv) = None then sv_sessions sv
      else snd (Remove (pk_playerId k) (sv_sessions sv)))"
  by (auto simp: kick_body_def Let_def Broadcast_eq split: option.splits)

section \<open>The invariant of the server\<close>

definition server_inv :: "'b server \<Rightarrow> bool" where
  "server_inv sv \<longleftrightarrow> sm_inv (sv_sessions sv) \<and> m_maxPlayers (sv_sessions sv) = kMaxPlayers \<and>
     m_timeoutMs (sv_sessions sv) = kTimeoutMs \<and>
     (\<forall>(e, d) \<in> set (sv_out sv). length d \<le> kMaxDatagram)"

lemma datagram_of_bound: "d \<in> set (datagram_of T msg) \<Longrightarrow> length d \<le> kMaxDatagram"
  by (auto simp: datagram_of_def Encode_def Let_def kMaxDatagram_def split: if_splits)

lemma sends_inv:
  "server_inv sv \<Longrightarrow> (\<And>e d. (e, d) \<in> set ds \<Longrightarrow> length d \<le> kMaxDatagram) \<Longrightarrow> server_inv (sends ds sv)"
  by (auto simp: server_inv_def)

lemma encode_and_send_inv: "server_inv sv \<Longrightarrow> server_inv (encode_and_send T msg e sv)"
  by (auto simp: encode_and_send_eq intro!: sends_inv dest: datagram_of_bound)

lemma Broadcast_inv: "server_inv sv \<Longrightarrow> server_inv (Broadcast T msg p sv)"
  by (auto simp: Broadcast_eq intro!: sends_inv dest: datagram_of_bound)

lemma server_inv_scripts [simp]: "server_inv (sv\<lparr>sv_scripts := h\<rparr>) = server_inv sv"
  by (simp add: server_inv_def)

lemma server_inv_rejected [simp]: "server_inv (sv\<lparr>sv_rejected := n\<rparr>) = server_inv sv"
  by (simp add: server_inv_def)

text \<open>Replacing the manager by the result of one of its operations.\<close>

lemma server_inv_step: "server_inv sv \<Longrightarrow> server_inv (sv\<lparr>sv_sessions := session_step op (sv_sessions sv)\<rparr>)"
proof -
  assume inv: "server_inv sv"
  have "m_maxPlayers (session_step op m) = m_maxPlayers m \<and> m_timeoutMs (session_step op m) = m_timeoutMs m" for m
  proof (cases op)
    case (Op_Join e u v t)
    show ?thesis by (cases rule: Join_cases [of v e u t m]) (simp_all add: Op_Join sess_simps)
  qed (simp_all add: sess_simps)
  with inv show ?thesis by (simp add: server_inv_def session_step_inv)
qed

lemmas server_inv_ops =
  server_inv_step [of _ "Op_Join e u v t" for e u v t, simplified]
  server_inv_step [of _ "Op_Touch e t" for e t, simplified]
  server_inv_step [of _ "Op_TakeNextTimedOut t" for t, simplified]
  server_inv_step [of _ "Op_ApplyState e k p r" for e k p r, simplified]
  server_inv_step [of _ "Op_Remove q" for q, simplified]

lemma fold_inv: "(\<And>x s. P s \<Longrightarrow> P (f x s)) \<Longrightarrow> P s \<Longrightarrow> P (fold f xs s)"
  by (induction xs arbitrary: s) simp_all

lemma HandleHello_inv: "server_inv sv \<Longrightarrow> server_inv (HandleHello vt e d now sv)"
proof -
  assume inv: "server_inv sv"
  obtain ok h where d: "Decode Hello_T d Hello_default = (ok, h)" by fastforce
  obtain r p m where j: "Join e (hello_username h) (hello_version h) now (sv_sessions sv) = (r, p, m)"
    using prod_cases3 by blast
  from server_inv_ops(1) [OF inv, of e "hello_username h" "hello_version h" now]
  have "server_inv (sv\<lparr>sv_sessions := m\<rparr>)" by (simp add: j)
  then show ?thesis using inv
    by (auto simp: HandleHello_def d j Let_def intro!: encode_and_send_inv Broadcast_inv fold_inv [where P = server_inv])
qed

lemma HandlePlayerState_inv: "server_inv sv \<Longrightarrow> server_inv (HandlePlayerState e d sv)"
proof -
  assume inv: "server_inv sv"
  have "server_inv (sv\<lparr>sv_sessions := m\<rparr>)" if "ApplyState e k p r (sv_sessions sv) = (b, m)" for k p r b m
    using server_inv_ops(4) [OF inv, of e k p r] that by simp
  then show ?thesis using inv
    by (auto simp: HandlePlayerState_def Let_def intro!: Broadcast_inv split: option.splits prod.splits)
qed

lemma HandlePing_inv: "server_inv sv \<Longrightarrow> server_inv (HandlePing e d sv)"
  by (auto simp: HandlePing_def intro!: encode_and_send_inv split: option.splits prod.splits)

lemma handle_datagram_inv: "server_inv sv \<Longrightarrow> server_inv (handle_datagram vt now e d sv)"
proof -
  assume inv: "server_inv sv"
  obtain ok h where p: "PeekHeader d Header_default = (ok, h)" by fastforce
  from server_inv_ops(2) [OF inv, of e now]
  show ?thesis using inv
    by (cases "hdr_type h")
      (auto simp: handle_datagram_def p Let_def intro!: HandleHello_inv HandlePlayerState_inv HandlePing_inv)
qed

lemma timed_out_body_inv: "server_inv sv \<Longrightarrow> server_inv (timed_out_body vt s sv)"
  by (simp add: timed_out_body_def Let_def Broadcast_inv)

lemma sweep_inv: "server_inv sv \<Longrightarrow> server_inv (sweep vt now sv)"
proof (induction vt now sv rule: sweep.induct)
  case (1 vt now sv)
  obtain d m where t: "TakeNextTimedOut now (sv_sessions sv) = (d, m)" by fastforce
  have m: "server_inv (sv\<lparr>sv_sessions := m\<rparr>)"
    using server_inv_ops(3) [OF 1(2), of now] t by simp
  show ?case
  proof (cases d)
    case None
    with m t show ?thesis by (subst sweep.simps) simp
  next
    case (Some s)
    from 1(1) [OF t [unfolded Some, symmetric] refl timed_out_body_inv [OF m]] t Some show ?thesis
      by (subst sweep.simps) simp
  qed
qed

lemma kick_body_inv: "server_inv sv \<Longrightarrow> server_inv (kick_body vt k sv)"
  using server_inv_ops(5) [of sv "pk_playerId k"]
  by (auto simp: kick_body_def Let_def intro!: Broadcast_inv split: option.splits)

lemma run_kicks_inv: "server_inv sv \<Longrightarrow> server_inv (run_kicks vt sv)"
  by (simp add: run_kicks_def TakeKicks_def fold_inv [where P = server_inv] kick_body_inv)

lemma loop_body_inv: "server_inv sv \<Longrightarrow> server_inv (loop_body vt ev sv)"
  by (cases ev)
    (auto simp: loop_body_def Let_def intro!: handle_datagram_inv run_kicks_inv sweep_inv
      split: option.splits prod.splits)

lemma server_start_inv: "server_inv (server_start vt b)"
  by (simp add: server_start_def Let_def server_inv_def mk_SessionManager_inv)
    (simp add: mk_SessionManager_def)

lemma server_run_inv: "server_inv sv \<Longrightarrow> server_inv (server_run vt evs sv)"
  unfolding server_run_def by (rule fold_inv) (rule loop_body_inv)

section \<open>What each handler sends\<close>

text \<open>The datagrams of the server, as bytes.\<close>

definition ack_bytes :: "JoinResult \<Rightarrow> u8 list" where
  "ack_bytes r = snd (Encode HelloAck_T \<lparr>ack_accepted = (r = Accepted \<or> r = AlreadyJoined), ack_version = kVersion,
     ack_reason = (if r = Accepted \<or> r = AlreadyJoined then [] else JoinResult_ToString r)\<rparr>)"

definition joined_bytes :: "PlayerId \<Rightarrow> string \<Rightarrow> u8 list" where
  "joined_bytes p u = snd (Encode NotifyPlayerJoined_T \<lparr>npj_playerId = p, npj_username = u\<rparr>)"

definition left_bytes :: "PlayerId \<Rightarrow> u8 list" where
  "left_bytes p = snd (Encode NotifyPlayerLeft_T \<lparr>npl_playerId = p\<rparr>)"

definition relay_bytes :: "PlayerId \<Rightarrow> PlayerState \<Rightarrow> u8 list" where
  "relay_bytes p st = snd (Encode NotifyPlayerState_T \<lparr>nps_playerId = p, nps_tick = ps_tick st,
     nps_position = ps_position st, nps_rotation = ps_rotation st\<rparr>)"

definition pong_bytes :: "u64 \<Rightarrow> u8 list" where
  "pong_bytes t = snd (Encode Pong_T \<lparr>pong_sentAt = t\<rparr>)"

lemma datagrams:
  "datagram_of HelloAck_T \<lparr>ack_accepted = (r = Accepted \<or> r = AlreadyJoined), ack_version = kVersion,
     ack_reason = (if r = Accepted \<or> r = AlreadyJoined then [] else JoinResult_ToString r)\<rparr> = [ack_bytes r]"
  "name_ok u \<Longrightarrow> datagram_of NotifyPlayerJoined_T \<lparr>npj_playerId = p, npj_username = u\<rparr> = [joined_bytes p u]"
  "datagram_of NotifyPlayerLeft_T \<lparr>npl_playerId = p\<rparr> = [left_bytes p]"
  "datagram_of NotifyPlayerState_T \<lparr>nps_playerId = p, nps_tick = ps_tick st, nps_position = ps_position st,
     nps_rotation = ps_rotation st\<rparr> = [relay_bytes p st]"
  "datagram_of Pong_T \<lparr>pong_sentAt = t\<rparr> = [pong_bytes t]"
  by (cases r; simp add: datagram_of_def ack_bytes_def hello_ack.Encode_iff kMaxDatagram_def)
    (simp_all add: datagram_of_def joined_bytes_def left_bytes_def relay_bytes_def pong_bytes_def
      notify_joined.Encode_iff notify_left.Encode_iff notify_state.Encode_iff pong.Encode_iff
      kMaxDatagram_def name_ok_def)

lemma sends_sessions_update: "sends ds (sv\<lparr>sv_sessions := m\<rparr>) = (sends ds sv)\<lparr>sv_sessions := m\<rparr>"
  by (simp add: sends_def)

lemma HandleHello_refused:
  assumes "Decode Hello_T d Hello_default = (True, h)"
    and "Join e (hello_username h) (hello_version h) now (sv_sessions sv) = (r, p, m)" and "r \<noteq> Accepted"
  shows "HandleHello vt e d now sv = sends [(e, ack_bytes r)] (sv\<lparr>sv_sessions := m\<rparr>)"
  using assms datagrams(1) [of r]
  by (cases "r = AlreadyJoined") (simp_all add: HandleHello_def Let_def encode_and_send_eq HelloAck_default_def)

lemma concat_map_single: "(\<And>x. x \<in> set xs \<Longrightarrow> f x = [g x]) \<Longrightarrow> concat (map f xs) = map g xs"
  by (induction xs) simp_all

lemma filter_all: "(\<And>x. x \<in> set xs \<Longrightarrow> P x) \<Longrightarrow> filter P xs = xs"
  by simp

lemma HandleHello_accepted:
  assumes inv: "sm_inv (sv_sessions sv)" and ids: "ids_inv (sv_sessions sv)"
    and d: "Decode Hello_T d Hello_default = (True, h)"
    and j: "Join e (hello_username h) (hello_version h) now (sv_sessions sv) = (Accepted, p, m)"
  shows "HandleHello vt e d now sv =
    (sends ((e, ack_bytes Accepted) #
        map (\<lambda>s. (e, joined_bytes (sess_id s) (sess_username s))) (m_sessions (sv_sessions sv)) @
        map (\<lambda>s. (sess_endpoint s, joined_bytes p (hello_username h))) (m_sessions (sv_sessions sv)))
      (sv\<lparr>sv_sessions := m\<rparr>))\<lparr>sv_scripts := ScriptHost_OnPlayerJoin vt p m (sv_scripts sv)\<rparr>"
proof (cases rule: Join_cases [of "hello_version h" e "hello_username h" now "sv_sessions sv"])
  case (accepted s)
  let ?old = "m_sessions (sv_sessions sv)"
  have m: "m_sessions m = ?old @ [s]" and p: "p = m_nextId (sv_sessions sv)" "sess_id s = p"
    using accepted j by auto
  have other: "sess_id x \<noteq> p" if "x \<in> set ?old" for x
    using ids that p(1) by (auto simp: ids_inv_def)
  have nm: "name_ok (sess_username x)" if "x \<in> set ?old" for x
    using inv that by (auto simp: sm_inv_def)
  have roster: "fold (\<lambda>session sv. if sess_id session = p then sv
        else encode_and_send NotifyPlayerJoined_T
          \<lparr>npj_playerId = sess_id session, npj_username = sess_username session\<rparr> e sv) (m_sessions m) sv' =
      sends (map (\<lambda>s. (e, joined_bytes (sess_id s) (sess_username s))) ?old) sv'" for sv' :: "'a server"
  proof -
    have "fold (\<lambda>session sv. if sess_id session = p then sv
        else encode_and_send NotifyPlayerJoined_T
          \<lparr>npj_playerId = sess_id session, npj_username = sess_username session\<rparr> e sv) xs sv' =
      sends (map (\<lambda>s. (e, joined_bytes (sess_id s) (sess_username s))) xs) sv'"
      if "set xs \<subseteq> set ?old" for xs and sv' :: "'a server"
      using that
      by (induction xs arbitrary: sv') (auto simp: encode_and_send_eq datagrams nm dest: other)
    from this [of ?old] p(2) show ?thesis by (simp add: m)
  qed
  have notices: "filter (\<lambda>s. sess_id s \<noteq> p) (m_sessions m) = ?old"
    using p(2) by (simp add: m filter_all [of ?old] other)
  have ack: "datagram_of HelloAck_T \<lparr>ack_accepted = True, ack_version = kVersion, ack_reason = []\<rparr> = [ack_bytes Accepted]"
    using datagrams(1) [of Accepted] by simp
  have "HandleHello vt e d now sv =
    (let sv3 = sends (map (\<lambda>s. (e, joined_bytes (sess_id s) (sess_username s))) ?old)
                 (sends [(e, ack_bytes Accepted)] (sv\<lparr>sv_sessions := m\<rparr>));
         sv4 = sends (map (\<lambda>s. (sess_endpoint s, joined_bytes p (hello_username h))) ?old) sv3
     in sv4\<lparr>sv_scripts := ScriptHost_OnPlayerJoin vt p (sv_sessions sv4) (sv_scripts sv4)\<rparr>)"
    unfolding HandleHello_def d j prod.case
    by (simp add: Let_def encode_and_send_eq [of HelloAck_T] HelloAck_default_def ack roster Broadcast_eq
        datagrams accepted(4) notices)
  then show ?thesis by (simp add: Let_def)
qed (use j in simp_all)

lemma HandlePing_eq:
  "HandlePing e d sv =
     (if e \<in> sess_endpoint ` set (m_sessions (sv_sessions sv)) \<and> fst (Decode Ping_T d Ping_default)
      then sends [(e, pong_bytes (ping_sentAt (snd (Decode Ping_T d Ping_default))))] sv else sv)"
proof (cases "Find_endpoint e (sv_sessions sv)")
  case None
  then have "e \<notin> sess_endpoint ` set (m_sessions (sv_sessions sv))" by (simp add: Find_endpoint_None)
  with None show ?thesis by (simp add: HandlePing_def)
next
  case (Some i)
  then have "e \<in> sess_endpoint ` set (m_sessions (sv_sessions sv))"
    by (metis Find_endpoint_None option.distinct(1))
  with Some show ?thesis
    by (simp add: HandlePing_def encode_and_send_eq datagrams split: prod.splits)
qed

lemma HandlePlayerState_silent:
  "Find_endpoint e (sv_sessions sv) = None \<Longrightarrow> HandlePlayerState e d sv = sv"
  "\<not> fst (Decode PlayerState_T d PlayerState_default) \<Longrightarrow> HandlePlayerState e d sv = sv"
  by (auto simp: HandlePlayerState_def split: option.splits prod.splits)

definition state_args :: "PlayerState \<Rightarrow> (f32 \<times> f32 \<times> f32) \<times> f32" where
  "state_args st = ((vx (ps_position st), vy (ps_position st), vz (ps_position st)), ps_rotation st)"

lemma HandlePlayerState_known:
  assumes i: "Find_endpoint e (sv_sessions sv) = Some i"
    and d: "Decode PlayerState_T d PlayerState_default = (True, st)"
    and ids: "distinct (map sess_id (m_sessions (sv_sessions sv)))"
    and eps: "distinct (map sess_endpoint (m_sessions (sv_sessions sv)))"
  shows "HandlePlayerState e d sv =
    (case ApplyState e (ps_tick st) (fst (state_args st)) (snd (state_args st)) (sv_sessions sv) of
       (applied, m) \<Rightarrow>
         if applied
         then sends (map (\<lambda>s. (sess_endpoint s, relay_bytes (sess_id (m_sessions (sv_sessions sv) ! i)) st))
                (filter (\<lambda>s. sess_endpoint s \<noteq> e) (m_sessions (sv_sessions sv)))) (sv\<lparr>sv_sessions := m\<rparr>)
         else sv)"
proof -
  let ?xs = "m_sessions (sv_sessions sv)"
  from Find_endpoint_SomeD [OF i] have il: "i < length ?xs" and ie: "sess_endpoint (?xs ! i) = e" by auto
  obtain b m where a: "ApplyState e (ps_tick st) (fst (state_args st)) (snd (state_args st)) (sv_sessions sv) = (b, m)"
    by fastforce
  show ?thesis
  proof (cases b)
    case False
    then have "m = sv_sessions sv" using a i by (auto simp: ApplyState_def Let_def split: if_splits)
    with False a i d show ?thesis
      by (simp add: HandlePlayerState_def state_args_def)
  next
    case True
    obtain s' where s': "m = (sv_sessions sv)\<lparr>m_sessions := ?xs[i := s']\<rparr>" "sess_id s' = sess_id (?xs ! i)"
      "sess_endpoint s' = sess_endpoint (?xs ! i)"
      using True a i by (auto simp: ApplyState_def Let_def split: if_splits)
    have same: "map (\<lambda>s. (sess_id s, sess_endpoint s)) (?xs[i := s']) = map (\<lambda>s. (sess_id s, sess_endpoint s)) ?xs"
      using il s' by (simp add: map_list_update_same)
    let ?p = "sess_id (?xs ! i)"
    have "map sess_endpoint (filter (\<lambda>s. sess_id s \<noteq> ?p) (?xs[i := s'])) =
        map snd (filter (\<lambda>x. fst x \<noteq> ?p) (map (\<lambda>s. (sess_id s, sess_endpoint s)) (?xs[i := s'])))"
      by (simp add: filter_map comp_def)
    also have "\<dots> = map sess_endpoint (filter (\<lambda>s. sess_id s \<noteq> ?p) ?xs)"
      unfolding same by (simp add: filter_map comp_def)
    also have "filter (\<lambda>s. sess_id s \<noteq> ?p) ?xs = filter (\<lambda>s. sess_endpoint s \<noteq> e) ?xs"
    proof (rule filter_cong [OF refl])
      fix x assume "x \<in> set ?xs"
      then obtain k where k: "k < length ?xs" "x = ?xs ! k" by (auto simp: in_set_conv_nth)
      have "sess_id x = ?p \<longleftrightarrow> k = i"
        using nth_eq_iff_index_eq [OF ids, of k i] k il by simp
      moreover have "sess_endpoint x = e \<longleftrightarrow> k = i"
        using nth_eq_iff_index_eq [OF eps, of k i] k il ie by simp
      ultimately show "(sess_id x \<noteq> ?p) = (sess_endpoint x \<noteq> e)" by simp
    qed
    finally have eps': "map sess_endpoint (filter (\<lambda>s. sess_id s \<noteq> ?p) (?xs[i := s'])) =
        map sess_endpoint (filter (\<lambda>s. sess_endpoint s \<noteq> e) ?xs)" .
    have out: "map (\<lambda>s. (sess_endpoint s, b)) (filter (\<lambda>s. sess_id s \<noteq> ?p) (?xs[i := s'])) =
        map (\<lambda>s. (sess_endpoint s, b)) (filter (\<lambda>s. sess_endpoint s \<noteq> e) ?xs)" for b :: "u8 list"
      using arg_cong [OF eps', of "map (\<lambda>e. (e, b))"] unfolding map_map comp_def .
    have "sess_id (m_sessions m ! i) = ?p" using s' il by simp
    with True a i d s' out show ?thesis
      by (simp add: HandlePlayerState_def state_args_def Let_def Broadcast_eq datagrams concat_map_single)
  qed
qed

section \<open>The manager inside the server\<close>

text \<open>
  Whatever the server does to its manager is a sequence of manager operations, with at most one join
  per datagram.
\<close>

definition steps_to :: "nat \<Rightarrow> SessionManager \<Rightarrow> SessionManager \<Rightarrow> bool" where
  "steps_to k m m' \<longleftrightarrow> (\<exists>ops. m' = fold session_step ops m \<and> length (filter is_Join ops) \<le> k)"

lemma steps_refl [simp]: "steps_to k m m"
  unfolding steps_to_def by (rule exI [of _ "[]"]) simp

lemma steps_one: "(is_Join op \<Longrightarrow> 0 < k) \<Longrightarrow> steps_to k m (session_step op m)"
  unfolding steps_to_def by (rule exI [of _ "[op]"]) (cases "is_Join op"; simp add: Suc_le_eq)

lemma steps_trans: "steps_to j m m' \<Longrightarrow> steps_to k m' m'' \<Longrightarrow> j + k = n \<Longrightarrow> steps_to n m m''"
  unfolding steps_to_def
proof clarify
  fix ops ops'
  assume "length (filter is_Join ops) \<le> j" "length (filter is_Join ops') \<le> k"
  then show "\<exists>opsa. fold session_step ops' (fold session_step ops m) = fold session_step opsa m \<and>
      length (filter is_Join opsa) \<le> j + k"
    by (intro exI [of _ "ops @ ops'"]) simp
qed

lemma steps_ops:
  "steps_to 1 m (snd (snd (Join e u v t m)))" "steps_to 0 m (snd (Touch e t m))"
  "steps_to 0 m (snd (TakeNextTimedOut t m))" "steps_to 0 m (snd (ApplyState e k p r m))"
  "steps_to 0 m (snd (Remove q m))"
  using steps_one [of "Op_Join e u v t" 1 m] steps_one [of "Op_Touch e t" 0 m]
    steps_one [of "Op_TakeNextTimedOut t" 0 m] steps_one [of "Op_ApplyState e k p r" 0 m]
    steps_one [of "Op_Remove q" 0 m]
  by simp_all

lemma HandleHello_steps: "steps_to 1 (sv_sessions sv) (sv_sessions (HandleHello vt e d now sv))"
proof -
  obtain ok h where d: "Decode Hello_T d Hello_default = (ok, h)" by fastforce
  obtain r p m where j: "Join e (hello_username h) (hello_version h) now (sv_sessions sv) = (r, p, m)"
    using prod_cases3 by blast
  have f: "sv_sessions (fold (\<lambda>session sv. if sess_id session = p then sv else encode_and_send T (g session) e sv) xs sv') =
      sv_sessions sv'" for T :: "'m msg_traits" and g xs and sv' :: "'a server"
    by (induction xs arbitrary: sv') (simp_all add: encode_and_send_eq)
  have "sv_sessions (HandleHello vt e d now sv) = (if ok then m else sv_sessions sv)"
    by (simp add: HandleHello_def d j Let_def encode_and_send_eq [of HelloAck_T] Broadcast_eq f)
  with steps_ops(1) [of "sv_sessions sv" e "hello_username h" "hello_version h" now] j show ?thesis
    by auto
qed

lemma HandlePlayerState_steps: "steps_to 0 (sv_sessions sv) (sv_sessions (HandlePlayerState e d sv))"
proof -
  have "steps_to 0 (sv_sessions sv) m" if "ApplyState e k p r (sv_sessions sv) = (b, m)" for k p r b m
    using steps_ops(4) [of "sv_sessions sv" e k p r] that by simp
  then show ?thesis
    by (auto simp: HandlePlayerState_def Let_def Broadcast_eq split: option.splits prod.splits)
qed

lemma HandlePing_sessions: "sv_sessions (HandlePing e d sv) = sv_sessions sv"
  by (simp add: HandlePing_eq)

lemma handle_datagram_steps: "steps_to 1 (sv_sessions sv) (sv_sessions (handle_datagram vt now e d sv))"
proof -
  obtain ok h where p: "PeekHeader d Header_default = (ok, h)" by fastforce
  let ?sv = "sv\<lparr>sv_sessions := snd (Touch e now (sv_sessions sv))\<rparr>"
  have t: "steps_to 0 (sv_sessions sv) (sv_sessions ?sv)" by (simp add: steps_ops)
  have t1: "steps_to 1 (sv_sessions sv) (sv_sessions ?sv)" using steps_trans [OF t steps_refl [of 1]] by simp
  have h: "steps_to 1 (sv_sessions sv) (sv_sessions (HandleHello vt e d now ?sv))"
    by (rule steps_trans [OF t HandleHello_steps]) simp
  have "steps_to 0 (sv_sessions sv) (sv_sessions (HandlePlayerState e d ?sv))"
    by (rule steps_trans [OF t HandlePlayerState_steps]) simp
  then have st: "steps_to 1 (sv_sessions sv) (sv_sessions (HandlePlayerState e d ?sv))"
    using steps_trans [OF _ steps_refl [of 1]] by simp
  show ?thesis using h st t1
    by (cases "hdr_type h") (auto simp: handle_datagram_def p Let_def HandlePing_sessions)
qed

lemma sweep_steps: "steps_to 0 (sv_sessions sv) (sv_sessions (sweep vt now sv))"
proof (induction vt now sv rule: sweep.induct)
  case (1 vt now sv)
  obtain d m where t: "TakeNextTimedOut now (sv_sessions sv) = (d, m)" by fastforce
  have m: "steps_to 0 (sv_sessions sv) m" using steps_ops(3) [of "sv_sessions sv" now] t by simp
  show ?case
  proof (cases d)
    case None
    with m t show ?thesis by (subst sweep.simps) simp
  next
    case (Some s)
    from 1 [OF t [unfolded Some, symmetric] refl]
    have "steps_to 0 m (sv_sessions (sweep vt now (timed_out_body vt s (sv\<lparr>sv_sessions := m\<rparr>))))" by simp
    with steps_trans [OF m this] t Some show ?thesis by (subst sweep.simps) simp
  qed
qed

lemma kicks_steps: "steps_to 0 (sv_sessions sv) (sv_sessions (fold (kick_body vt) ks sv))"
proof (induction ks arbitrary: sv)
  case (Cons k ks)
  have "steps_to 0 (sv_sessions sv) (sv_sessions (kick_body vt k sv))"
    by (simp add: kick_body_sessions steps_ops)
  from steps_trans [OF this Cons.IH] show ?case by simp
qed simp

lemma run_kicks_steps: "steps_to 0 (sv_sessions sv) (sv_sessions (run_kicks vt sv))"
  using kicks_steps [of "sv\<lparr>sv_scripts := snd (TakeKicks (sv_scripts sv))\<rparr>" vt "fst (TakeKicks (sv_scripts sv))"]
  by (simp add: run_kicks_def case_prod_beta)

lemma loop_body_steps: "steps_to 1 (sv_sessions sv) (sv_sessions (loop_body vt ev sv))"
proof -
  obtain now rcv where ev: "ev = (now, rcv)" by fastforce
  let ?sv1 = "sweep vt now sv"
  let ?sv3 = "run_kicks vt (?sv1\<lparr>sv_scripts := ScriptHost_OnTick vt now (sv_sessions ?sv1) (sv_scripts ?sv1)\<rparr>)"
  have "steps_to 0 (sv_sessions ?sv1) (sv_sessions ?sv3)"
    using run_kicks_steps [of "?sv1\<lparr>sv_scripts := ScriptHost_OnTick vt now (sv_sessions ?sv1) (sv_scripts ?sv1)\<rparr>" vt]
    by simp
  then have k: "steps_to 0 (sv_sessions sv) (sv_sessions ?sv3)"
    using steps_trans [OF sweep_steps [of sv vt now]] by simp
  show ?thesis
  proof (cases rcv)
    case None
    with k steps_trans [OF k steps_refl [of 1]] show ?thesis by (simp add: loop_body_def ev Let_def)
  next
    case (Some x)
    obtain r buf where x: "x = (r, buf)" by fastforce
    from steps_trans [OF k handle_datagram_steps, of 1] show ?thesis
      by (simp add: loop_body_def ev Let_def Some x)
  qed
qed

lemma server_run_steps:
  "steps_to (length evs) (sv_sessions sv) (sv_sessions (server_run vt evs sv))"
proof (induction evs arbitrary: sv)
  case Nil
  then show ?case by (simp add: server_run_def)
next
  case (Cons ev evs)
  from steps_trans [OF loop_body_steps Cons.IH, of "Suc (length evs)"] show ?case
    by (simp add: server_run_def)
qed

lemma server_start_sessions: "sv_sessions (server_start vt b) = mk_SessionManager kMaxPlayers kTimeoutMs"
  by (simp add: server_start_def Let_def)

lemma server_run_ids:
  assumes "length evs < 2 ^ 32 - 1"
  shows "ids_inv (sv_sessions (server_run vt evs (server_start vt b)))"
proof -
  from server_run_steps [of evs "server_start vt b" vt] obtain ops where
    "sv_sessions (server_run vt evs (server_start vt b)) = fold session_step ops (mk_SessionManager kMaxPlayers kTimeoutMs)"
    "length (filter is_Join ops) \<le> length evs" by (auto simp: steps_to_def server_start_sessions)
  moreover from this(2) assms have "unat (m_nextId (mk_SessionManager kMaxPlayers kTimeoutMs)) +
      length (filter is_Join ops) < 2 ^ 32" by (simp add: mk_SessionManager_def)
  ultimately show ?thesis using session_run_ids [OF mk_SessionManager_inv(2)] by simp
qed

section \<open>What one peer is told\<close>

definition to_peer :: "Endpoint \<Rightarrow> (Endpoint \<times> u8 list) list \<Rightarrow> u8 list list" where
  "to_peer e ds = map snd (filter (\<lambda>x. fst x = e) ds)"

lemma to_peer_append [simp]: "to_peer e (xs @ ys) = to_peer e xs @ to_peer e ys"
  by (simp add: to_peer_def)

lemma filter_unique:
  "distinct (map f xs) \<Longrightarrow> x \<in> set xs \<Longrightarrow> P x \<Longrightarrow> filter (\<lambda>y. f y = f x \<and> P y) xs = [x]"
proof (induction xs)
  case (Cons y ys)
  show ?case
  proof (cases "x = y")
    case True
    with Cons.prems have "\<forall>z \<in> set ys. f z \<noteq> f x" by (auto simp: image_iff)
    with True Cons.prems show ?thesis by (simp add: filter_empty_conv)
  next
    case False
    with Cons.prems have "f y \<noteq> f x" by (auto simp: image_iff)
    with False Cons show ?thesis by auto
  qed
qed simp

lemma Broadcast_to_peer:
  assumes "s \<in> set (m_sessions (sv_sessions sv))" and "distinct (map sess_endpoint (m_sessions (sv_sessions sv)))"
    and "sess_id s \<noteq> p" and "datagram_of T msg = [b]"
  shows "to_peer (sess_endpoint s) (sv_out (Broadcast T msg p sv)) = to_peer (sess_endpoint s) (sv_out sv) @ [b]"
proof -
  have f: "filter (\<lambda>x. fst x = sess_endpoint s) (map (\<lambda>x. (sess_endpoint x, b)) (filter (\<lambda>s. sess_id s \<noteq> p) xs)) =
      map (\<lambda>x. (sess_endpoint x, b)) (filter (\<lambda>y. sess_endpoint y = sess_endpoint s \<and> sess_id y \<noteq> p) xs)" for xs
    by (simp add: filter_map comp_def) (metis (no_types, lifting) filter_cong conj_commute)
  have "filter (\<lambda>y. sess_endpoint y = sess_endpoint s \<and> sess_id y \<noteq> p) (m_sessions (sv_sessions sv)) = [s]"
    by (rule filter_unique [OF assms(2,1), of "\<lambda>y. sess_id y \<noteq> p"]) (rule assms(3))
  then have "to_peer (sess_endpoint s) (map (\<lambda>x. (sess_endpoint x, b))
      (filter (\<lambda>s. sess_id s \<noteq> p) (m_sessions (sv_sessions sv)))) = [b]"
    unfolding to_peer_def f by simp
  then show ?thesis by (simp add: Broadcast_eq assms(4) concat_map_single)
qed

lemma scripts_update_out [simp]: "sv_out (sv\<lparr>sv_scripts := h\<rparr>) = sv_out sv"
  by simp

lemma timed_out_body_to_peer:
  assumes "s \<in> set (m_sessions (sv_sessions sv))" and "distinct (map sess_endpoint (m_sessions (sv_sessions sv)))"
    and "sess_id s \<noteq> sess_id d"
  shows "to_peer (sess_endpoint s) (sv_out (timed_out_body vt d sv)) =
    to_peer (sess_endpoint s) (sv_out sv) @ [left_bytes (sess_id d)]"
  using Broadcast_to_peer [OF assms datagrams(3)] by (simp add: timed_out_body_def Let_def)

text \<open>A peer that survives the sweep is told of every session that did not, once, in order.\<close>

lemma sweep_to_peer:
  assumes "distinct (map sess_endpoint (m_sessions (sv_sessions sv)))"
    and "distinct (map sess_id (m_sessions (sv_sessions sv)))"
    and "s \<in> set (m_sessions (sv_sessions sv))" and "\<not> is_expired now sv s"
  shows "to_peer (sess_endpoint s) (sv_out (sweep vt now sv)) =
    to_peer (sess_endpoint s) (sv_out sv) @
      map (left_bytes \<circ> sess_id) (filter (is_expired now sv) (m_sessions (sv_sessions sv)))"
  using assms
proof (induction "Count (sv_sessions sv)" arbitrary: sv rule: less_induct)
  case less
  let ?xs = "m_sessions (sv_sessions sv)"
  show ?case
  proof (cases "find_if (is_expired now sv) ?xs")
    case None
    then have "filter (is_expired now sv) ?xs = []" by (simp add: find_if_None filter_empty_conv)
    moreover from None have "TakeNextTimedOut now (sv_sessions sv) = (None, sv_sessions sv)"
      by (simp add: TakeNextTimedOut_def is_expired_def)
    ultimately show ?thesis by (subst sweep.simps) simp
  next
    case (Some i)
    let ?d = "?xs ! i" and ?m = "(sv_sessions sv)\<lparr>m_sessions := erase i ?xs\<rparr>"
    let ?sv = "timed_out_body vt ?d (sv\<lparr>sv_sessions := ?m\<rparr>)"
    from Some have t: "TakeNextTimedOut now (sv_sessions sv) = (Some ?d, ?m)"
      by (simp add: TakeNextTimedOut_def is_expired_def)
    from find_if_SomeD [OF Some] have i: "i < length ?xs" and ex: "is_expired now sv ?d" by auto
    then have c: "Count ?m < Count (sv_sessions sv)" by (simp add: Count_def)
    have e: "is_expired now ?sv = is_expired now sv" by (simp add: is_expired_def)
    have ne: "s \<noteq> ?d" using ex less.prems(4) by auto
    then have nid: "sess_id s \<noteq> sess_id ?d"
      using less.prems(2,3) i by (metis distinct_map inj_onD nth_mem)
    have s: "s \<in> set (erase i ?xs)" using less.prems(3) ne i by (auto intro: erase_in)
    have d1: "distinct (map sess_endpoint (erase i ?xs))" "distinct (map sess_id (erase i ?xs))"
      using less.prems(1,2) by (simp_all add: map_erase distinct_erase)
    have "to_peer (sess_endpoint s) (sv_out (sweep vt now ?sv)) =
        to_peer (sess_endpoint s) (sv_out ?sv) @ map (left_bytes \<circ> sess_id) (filter (is_expired now sv) (erase i ?xs))"
      using less.hyps [of ?sv] c d1 s less.prems(4) e by simp
    also have "to_peer (sess_endpoint s) (sv_out ?sv) = to_peer (sess_endpoint s) (sv_out sv) @ [left_bytes (sess_id ?d)]"
      using timed_out_body_to_peer [of s "sv\<lparr>sv_sessions := ?m\<rparr>" ?d vt] s d1 nid by simp
    finally show ?thesis
      using t first_erased(1) [OF Some] by (subst sweep.simps) simp
  qed
qed

text \<open>The players that a list of kicks removes, in order: those online, each once.\<close>

fun kicked :: "PlayerId list \<Rightarrow> PlayerId list \<Rightarrow> PlayerId list" where
  "kicked online [] = []"
| "kicked online (p # ps) = (if p \<in> set online then p # kicked (removeAll p online) ps else kicked online ps)"

lemma erase_filter:
  "distinct (map f xs) \<Longrightarrow> find_if (\<lambda>x. f x = q) xs = Some i \<Longrightarrow> erase i xs = filter (\<lambda>x. f x \<noteq> q) xs"
proof (induction xs arbitrary: i)
  case (Cons x xs)
  show ?case
  proof (cases "f x = q")
    case True
    with Cons.prems have "\<forall>y \<in> set xs. f y \<noteq> q" by (auto simp: image_iff)
    with True Cons.prems show ?thesis by (simp add: erase_def)
  next
    case False
    with Cons show ?thesis by (auto simp: erase_def split: option.splits)
  qed
qed simp

lemma kick_body_found:
  assumes ids: "ids_inv (sv_sessions sv)" and p: "pk_playerId k \<in> sess_id ` set (m_sessions (sv_sessions sv))"
  shows "kick_body vt k sv =
    (let sv1 = sv\<lparr>sv_sessions := (sv_sessions sv)\<lparr>m_sessions :=
                  filter (\<lambda>s. sess_id s \<noteq> pk_playerId k) (m_sessions (sv_sessions sv))\<rparr>\<rparr>;
         sv2 = Broadcast NotifyPlayerLeft_T \<lparr>npl_playerId = pk_playerId k\<rparr> (pk_playerId k) sv1
     in sv2\<lparr>sv_scripts := ScriptHost_OnPlayerLeave vt (pk_playerId k) (sv_sessions sv2) (sv_scripts sv2)\<rparr>)"
proof -
  let ?xs = "m_sessions (sv_sessions sv)"
  have "pk_playerId k \<noteq> kInvalidPlayer" using ids p by (auto simp: ids_inv_def kInvalidPlayer_def)
  moreover obtain i where i: "find_if (\<lambda>s. sess_id s = pk_playerId k) ?xs = Some i"
  proof (cases "find_if (\<lambda>s. sess_id s = pk_playerId k) ?xs")
    case None
    then have "\<forall>s \<in> set ?xs. sess_id s \<noteq> pk_playerId k" by (simp add: find_if_None)
    with p show thesis by auto
  qed (rule that)
  moreover have "erase i ?xs = filter (\<lambda>s. sess_id s \<noteq> pk_playerId k) ?xs"
    using ids i by (intro erase_filter) (simp_all add: ids_inv_def)
  ultimately show ?thesis by (simp add: kick_body_def Find_id_def Remove_def)
qed

lemma kick_body_not_found:
  "pk_playerId k \<notin> sess_id ` set (m_sessions (sv_sessions sv)) \<Longrightarrow> kick_body vt k sv = sv"
proof -
  assume "pk_playerId k \<notin> sess_id ` set (m_sessions (sv_sessions sv))"
  then have "Find_id (pk_playerId k) (sv_sessions sv) = None" by (force simp: Find_id_def find_if_None)
  then show ?thesis by (simp add: kick_body_def)
qed

lemma ids_filter: "ids_inv m \<Longrightarrow> ids_inv (m\<lparr>m_sessions := filter P (m_sessions m)\<rparr>)"
  by (auto simp: ids_inv_def distinct_map_filter)

lemma kicks_sessions:
  "ids_inv (sv_sessions sv) \<Longrightarrow>
   sv_sessions (fold (kick_body vt) ks sv) = (sv_sessions sv)\<lparr>m_sessions :=
     filter (\<lambda>s. sess_id s \<notin> pk_playerId ` set ks) (m_sessions (sv_sessions sv))\<rparr>"
proof (induction ks arbitrary: sv)
  case (Cons k ks)
  show ?case
  proof (cases "pk_playerId k \<in> sess_id ` set (m_sessions (sv_sessions sv))")
    case True
    let ?sv = "kick_body vt k sv"
    have s: "sv_sessions ?sv = (sv_sessions sv)\<lparr>m_sessions :=
        filter (\<lambda>s. sess_id s \<noteq> pk_playerId k) (m_sessions (sv_sessions sv))\<rparr>"
      using kick_body_found [OF Cons.prems True] by (simp add: Let_def Broadcast_eq)
    have "ids_inv (sv_sessions ?sv)" unfolding s by (rule ids_filter [OF Cons.prems])
    from Cons.IH [OF this] show ?thesis by (simp add: s conj_commute)
  next
    case False
    then have "filter (\<lambda>s. sess_id s \<notin> pk_playerId ` set (k # ks)) (m_sessions (sv_sessions sv)) =
        filter (\<lambda>s. sess_id s \<notin> pk_playerId ` set ks) (m_sessions (sv_sessions sv))"
      by (intro filter_cong) (auto simp: image_iff)
    with Cons.IH [OF Cons.prems] False show ?thesis by (simp add: kick_body_not_found)
  qed
qed simp

lemma kicks_to_peer:
  "ids_inv (sv_sessions sv) \<Longrightarrow> distinct (map sess_endpoint (m_sessions (sv_sessions sv))) \<Longrightarrow>
   s \<in> set (m_sessions (sv_sessions sv)) \<Longrightarrow> sess_id s \<notin> pk_playerId ` set ks \<Longrightarrow>
   to_peer (sess_endpoint s) (sv_out (fold (kick_body vt) ks sv)) =
     to_peer (sess_endpoint s) (sv_out sv) @
       map left_bytes (kicked (map sess_id (m_sessions (sv_sessions sv))) (map pk_playerId ks))"
proof (induction ks arbitrary: sv)
  case (Cons k ks)
  let ?xs = "m_sessions (sv_sessions sv)" and ?sv = "kick_body vt k sv"
  show ?case
  proof (cases "pk_playerId k \<in> sess_id ` set ?xs")
    case True
    let ?ys = "filter (\<lambda>s. sess_id s \<noteq> pk_playerId k) ?xs"
    have m: "sv_sessions ?sv = (sv_sessions sv)\<lparr>m_sessions := ?ys\<rparr>"
      using kick_body_found [OF Cons.prems(1) True] by (simp add: Let_def Broadcast_eq)
    have ids: "ids_inv (sv_sessions ?sv)" unfolding m by (rule ids_filter [OF Cons.prems(1)])
    have d: "distinct (map sess_endpoint ?ys)" using Cons.prems(2) by (simp add: distinct_map_filter)
    have s: "s \<in> set ?ys" "sess_id s \<noteq> pk_playerId k" using Cons.prems(3,4) by auto
    have "to_peer (sess_endpoint s) (sv_out ?sv) = to_peer (sess_endpoint s) (sv_out sv) @ [left_bytes (pk_playerId k)]"
      using kick_body_found [OF Cons.prems(1) True]
        Broadcast_to_peer [of s "sv\<lparr>sv_sessions := (sv_sessions sv)\<lparr>m_sessions := ?ys\<rparr>\<rparr>" "pk_playerId k",
          OF _ _ _ datagrams(3)] s d
      by (simp add: Let_def)
    moreover have "map sess_id ?ys = removeAll (pk_playerId k) (map sess_id ?xs)"
      by (simp add: removeAll_filter_not_eq filter_map comp_def eq_commute)
    ultimately show ?thesis
      using Cons.IH [OF ids] m d s Cons.prems(4) True by simp
  next
    case False
    with Cons show ?thesis by (simp add: kick_body_not_found)
  qed
qed simp

text \<open>
  What the scripts are told while players leave one after the other, and what they queue meanwhile: each
  departure reaches every backend once, with the player already gone.
\<close>

fun departures ::
  "'b IBackend \<Rightarrow> PlayerId list \<Rightarrow> SessionManager \<Rightarrow> 'b list \<Rightarrow> PendingKick list \<times> 'b list" where
  "departures vt [] m bs = ([], bs)"
| "departures vt (p # ps) m bs =
     (let m1 = m\<lparr>m_sessions := filter (\<lambda>s. sess_id s \<noteq> p) (m_sessions m)\<rparr>;
          (bs1, calls) = (map (fst \<circ> be_OnPlayerLeave vt p m1) bs, concat (map (snd \<circ> be_OnPlayerLeave vt p m1) bs));
          (queued, bs2) = departures vt ps m1 bs1
      in (kicks_of m1 calls @ queued, bs2))"

lemma kicks_departures:
  "ids_inv (sv_sessions sv) \<Longrightarrow>
   (let sv' = fold (kick_body vt) ks sv;
        (queued, bs) = departures vt (kicked (map sess_id (m_sessions (sv_sessions sv))) (map pk_playerId ks))
          (sv_sessions sv) (m_backends (sv_scripts sv))
    in m_kicks (sv_scripts sv') = m_kicks (sv_scripts sv) @ queued \<and> m_backends (sv_scripts sv') = bs)"
proof (induction ks arbitrary: sv)
  case (Cons k ks)
  let ?xs = "m_sessions (sv_sessions sv)" and ?p = "pk_playerId k"
  show ?case
  proof (cases "?p \<in> sess_id ` set ?xs")
    case True
    let ?m = "(sv_sessions sv)\<lparr>m_sessions := filter (\<lambda>s. sess_id s \<noteq> ?p) ?xs\<rparr>"
    let ?sv = "kick_body vt k sv"
    have m: "sv_sessions ?sv = ?m" and h: "sv_scripts ?sv = ScriptHost_OnPlayerLeave vt ?p ?m (sv_scripts sv)"
      using kick_body_found [OF Cons.prems True] by (simp_all add: Let_def Broadcast_eq)
    have ids: "ids_inv (sv_sessions ?sv)" unfolding m by (rule ids_filter [OF Cons.prems])
    have r: "map sess_id (filter (\<lambda>s. sess_id s \<noteq> ?p) ?xs) = removeAll ?p (map sess_id ?xs)"
      by (simp add: removeAll_filter_not_eq filter_map comp_def eq_commute)
    from Cons.IH [OF ids] True show ?thesis
      by (simp add: m h r ScriptHost_OnPlayerLeave_def dispatch_kicks dispatch_backends Let_def split: prod.splits)
  next
    case False
    with Cons show ?thesis by (simp add: kick_body_not_found)
  qed
qed simp

section \<open>To whom the server sends\<close>

definition peers :: "'b server \<Rightarrow> Endpoint set" where
  "peers sv = sess_endpoint ` set (m_sessions (sv_sessions sv))"

lemma peers_rows: "peers sv = (snd \<circ> snd) ` set (rows (sv_sessions sv))"
  by (simp add: peers_def rows_def image_image)

lemma peers_simps [simp]:
  "peers (sv\<lparr>sv_scripts := h\<rparr>) = peers sv" "peers (sv\<lparr>sv_rejected := k\<rparr>) = peers sv" "peers (sends ds sv) = peers sv"
  by (simp_all add: peers_def)

text \<open>From one state to a later one the server sent to these endpoints only, and no other has a session then.\<close>

definition tells :: "Endpoint set \<Rightarrow> 'b server \<Rightarrow> 'b server \<Rightarrow> bool" where
  "tells es sv sv' \<longleftrightarrow> peers sv' \<subseteq> es \<and> (\<exists>ds. sv_out sv' = sv_out sv @ ds \<and> fst ` set ds \<subseteq> es)"

lemma tells_trans: "tells es a b \<Longrightarrow> tells es b c \<Longrightarrow> tells es a c"
proof -
  assume "tells es a b" and "tells es b c"
  then obtain ds ds' where "sv_out c = sv_out a @ ds @ ds'" "fst ` set ds \<subseteq> es" "fst ` set ds' \<subseteq> es" "peers c \<subseteq> es"
    by (auto simp: tells_def)
  then show "tells es a c" unfolding tells_def by (intro conjI exI [of _ "ds @ ds'"]) (simp_all add: image_Un)
qed

lemma tells_intros:
  "peers sv \<subseteq> es \<Longrightarrow> tells es sv sv"
  "peers sv \<subseteq> es \<Longrightarrow> fst ` set ds \<subseteq> es \<Longrightarrow> tells es sv (sends ds sv)"
  "tells es sv sv' \<Longrightarrow> tells es sv (sv'\<lparr>sv_scripts := h\<rparr>)"
  "peers (sv\<lparr>sv_sessions := m\<rparr>) \<subseteq> es \<Longrightarrow> tells es sv (sv\<lparr>sv_sessions := m\<rparr>)"
  by (simp_all add: tells_def)

lemma tells_fold: "(\<And>x sv. peers sv \<subseteq> es \<Longrightarrow> tells es sv (f x sv)) \<Longrightarrow> peers sv \<subseteq> es \<Longrightarrow> tells es sv (fold f xs sv)"
proof (induction xs arbitrary: sv)
  case (Cons x xs)
  from Cons.prems have "tells es sv (f x sv)" by simp
  moreover from this have "peers (f x sv) \<subseteq> es" by (simp add: tells_def)
  ultimately show ?case using Cons.IH [OF Cons.prems(1), of "f x sv"] tells_trans by fastforce
qed (simp add: tells_intros)

lemma Broadcast_tells: "peers sv \<subseteq> es \<Longrightarrow> tells es sv (Broadcast T msg p sv)"
  unfolding Broadcast_eq by (rule tells_intros(2)) (auto simp: peers_def)

lemma sweep_tells: "peers sv \<subseteq> es \<Longrightarrow> tells es sv (sweep vt now sv)"
proof (induction vt now sv rule: sweep.induct)
  case (1 vt now sv)
  obtain d m where t: "TakeNextTimedOut now (sv_sessions sv) = (d, m)" by fastforce
  then have p: "peers (sv\<lparr>sv_sessions := m\<rparr>) \<subseteq> es"
    using "1.prems" by (fastforce simp: peers_def TakeNextTimedOut_def erase_def dest: in_set_takeD in_set_dropD split: option.splits)
  show ?case
  proof (cases d)
    case None
    with t p show ?thesis by (subst sweep.simps) (simp add: tells_intros)
  next
    case (Some s)
    have b: "tells es sv (timed_out_body vt s (sv\<lparr>sv_sessions := m\<rparr>))"
      unfolding timed_out_body_def Let_def
      by (rule tells_intros(3), rule tells_trans [OF tells_intros(4) [OF p] Broadcast_tells [OF p]])
    then have "peers (timed_out_body vt s (sv\<lparr>sv_sessions := m\<rparr>)) \<subseteq> es" by (simp add: tells_def)
    from tells_trans [OF b "1.IH" [OF t [unfolded Some, symmetric] refl this]] t Some show ?thesis
      by (subst sweep.simps) simp
  qed
qed

lemma run_kicks_tells: "peers sv \<subseteq> es \<Longrightarrow> tells es sv (run_kicks vt sv)"
proof -
  have step: "tells es sv (kick_body vt k sv)" if "peers sv \<subseteq> es" for k and sv :: "'a server"
  proof (cases "Find_id (pk_playerId k) (sv_sessions sv)")
    case None
    with that show ?thesis by (simp add: kick_body_def tells_intros)
  next
    case (Some i)
    have p: "peers (sv\<lparr>sv_sessions := snd (Remove (pk_playerId k) (sv_sessions sv))\<rparr>) \<subseteq> es"
      using that by (fastforce simp: peers_def Remove_def erase_def dest: in_set_takeD in_set_dropD split: option.splits)
    from Some show ?thesis unfolding kick_body_def Let_def
      by (simp add: tells_intros(3) tells_trans [OF tells_intros(4) [OF p] Broadcast_tells [OF p]])
  qed
  assume "peers sv \<subseteq> es"
  with tells_fold [where f = "kick_body vt" and xs = "m_kicks (sv_scripts sv)" and sv = "sv\<lparr>sv_scripts := snd (TakeKicks (sv_scripts sv))\<rparr>",
      OF step] show ?thesis
    by (simp add: run_kicks_def TakeKicks_def tells_def)
qed

lemma handle_datagram_tells:
  assumes "e \<in> es" and "peers sv \<subseteq> es"
  shows "tells es sv (handle_datagram vt now e d sv)"
proof -
  have p: "peers (sv\<lparr>sv_sessions := snd (Touch e now (sv_sessions sv))\<rparr>) \<subseteq> es"
    using assms(2) by (simp add: peers_rows rows_Touch)
  note t = tells_trans [OF tells_intros(4) [OF p]]
  have hello: "tells es sv' (HandleHello vt e d now sv')" if p': "peers sv' \<subseteq> es" for sv' :: "'a server"
  proof -
    obtain ok h where d: "Decode Hello_T d Hello_default = (ok, h)" by fastforce
    obtain r q m where j: "Join e (hello_username h) (hello_version h) now (sv_sessions sv') = (r, q, m)"
      using prod_cases3 by blast
    have m: "peers (sv'\<lparr>sv_sessions := m\<rparr>) \<subseteq> es"
    proof (cases rule: Join_cases [of "hello_version h" e "hello_username h" now "sv_sessions sv'"])
      case (already i)
      with j p' show ?thesis by (simp add: peers_rows rows_Touch)
    next
      case (accepted s)
      with j p' assms(1) show ?thesis by (auto simp: peers_def)
    qed (use j p' in \<open>simp_all add: peers_def\<close>)
    have one: "peers sv' \<subseteq> es \<Longrightarrow> tells es sv' (encode_and_send T msg e sv')"
      for T :: "'m msg_traits" and msg and sv' :: "'a server"
      unfolding encode_and_send_eq using assms(1) by (intro tells_intros(2)) auto
    let ?sv1 = "sv'\<lparr>sv_sessions := m\<rparr>"
    have s1: "tells es sv' ?sv1" by (rule tells_intros(4) [OF m])
    have then_one: "tells es sv' (encode_and_send T msg e b)" if "tells es sv' b" for T :: "'m msg_traits" and msg and b :: "'a server"
      using that by (intro tells_trans [OF that one]) (simp add: tells_def)
    have then_cast: "tells es sv' (Broadcast T msg q b)" if "tells es sv' b" for T :: "'m msg_traits" and msg q and b :: "'a server"
      using that by (intro tells_trans [OF that Broadcast_tells]) (simp add: tells_def)
    have then_fold: "tells es sv' (fold (\<lambda>session sv. if sess_id session = q then sv else encode_and_send T (g session) e sv) xs b)"
      if "tells es sv' b" for T :: "'m msg_traits" and g xs q and b :: "'a server"
    proof (rule tells_trans [OF that tells_fold])
      show "tells es sv (if sess_id x = q then sv else encode_and_send T (g x) e sv)" if "peers sv \<subseteq> es" for x and sv :: "'a server"
        by (cases "sess_id x = q") (simp_all only: if_True if_False simp_thms one [OF that] tells_intros(1) [OF that])
      show "peers b \<subseteq> es" using that by (simp add: tells_def)
    qed
    show ?thesis
      using tells_intros(1) [OF p'] s1
      by (auto simp: HandleHello_def d j Let_def intro!: tells_intros(3) then_cast then_fold then_one)
  qed
  have state: "tells es sv' (HandlePlayerState e d sv')" if p': "peers sv' \<subseteq> es" for sv' :: "'a server"
  proof -
    have m: "peers (sv'\<lparr>sv_sessions := m\<rparr>) \<subseteq> es" if "ApplyState e k q r (sv_sessions sv') = (b, m)" for k q r b m
      using p' that rows_ApplyState [of e k q r "sv_sessions sv'"] by (simp add: peers_rows)
    have b: "tells es sv' (sv'\<lparr>sv_sessions := m\<rparr>) \<and> tells es sv' (Broadcast T msg i (sv'\<lparr>sv_sessions := m\<rparr>))"
      if "ApplyState e k q r (sv_sessions sv') = (b, m)" for k q r b m and T :: "'m msg_traits" and msg i
      using m [OF that] tells_trans [OF tells_intros(4) Broadcast_tells] by (simp add: tells_intros(4))
    show ?thesis
      by (auto simp: HandlePlayerState_def Let_def p' tells_intros(1) b split: option.splits prod.splits)
  qed
  have ping: "tells es sv' (HandlePing e d sv')" if "peers sv' \<subseteq> es" for sv' :: "'a server"
    using that assms(1) by (simp add: HandlePing_eq tells_intros)
  show ?thesis
    using assms(2) t [OF hello [OF p]] t [OF state [OF p]] t [OF ping [OF p]] tells_intros(4) [OF p]
    by (auto simp: handle_datagram_def Let_def tells_def split: prod.splits Type.splits)
qed

section \<open>Properties\<close>

text \<open>
  C2: Whatever datagrams arrive, from whom, at whatever times, and whatever the scripting backend does:
  after any run of the server from its start, at most kMaxPlayers sessions exist, no two with the same
  endpoint or name, every name has 1 to 256 characters, and every datagram the server sent was at most
  kMaxDatagram bytes.
\<close>

theorem server_safe:
  "let sv = server_run vt evs (server_start vt b); xs = m_sessions (sv_sessions sv)
   in length xs \<le> kMaxPlayers \<and> distinct (map sess_endpoint xs) \<and> distinct (map sess_username xs) \<and>
      list_all (\<lambda>s. sess_username s \<noteq> [] \<and> length (sess_username s) \<le> 256) xs \<and>
      list_all (\<lambda>(e, d). length d \<le> kMaxDatagram) (sv_out sv)"
proof -
  have "server_inv (server_run vt evs (server_start vt b))"
    by (rule server_run_inv [OF server_start_inv])
  then show ?thesis
    by (auto simp: server_inv_def sm_inv_def name_ok_def Let_def list_all_iff)
qed

text \<open>
  C32: The timeout loop of the server ends, and when it has, the sessions are exactly those that had
  not timed out, in their order and unchanged, with the manager's other fields unchanged.
\<close>

theorem sweep_exact:
  "sv_sessions (sweep vt now sv) = (sv_sessions sv)\<lparr>m_sessions :=
     filter (\<lambda>s. \<not> (lastSeenMs s < now \<and> m_timeoutMs (sv_sessions sv) \<le> now - lastSeenMs s))
       (m_sessions (sv_sessions sv))\<rparr>"
  using sweep_sessions [of vt now sv] unfolding is_expired_def expired_def by simp

text \<open>
  During the sweep the scripts hear of the departures one at a time, in the order of the sessions,
  each after the removal of its player and before the removal of the next: at the k-th departure, the
  count of players they read is k + 1 less than before the sweep.
\<close>

theorem sweep_counts_down:
  "let gone = filter (is_expired now sv) (m_sessions (sv_sessions sv)); n = Count (sv_sessions sv)
   in m_backends (sv_scripts (sweep spy_vt now sv)) =
        map (\<lambda>seen. seen @ map (\<lambda>k. (sess_id (gone ! k), n - Suc k)) [0..<length gone])
          (m_backends (sv_scripts sv))"
  unfolding Let_def by (rule sweep_backends)

text \<open>
  Every peer that survives a sweep is sent one notice per departed player, in order, and nothing
  else.
\<close>

theorem sweep_notices:
  assumes "sm_inv (sv_sessions sv)" and "ids_inv (sv_sessions sv)"
    and "s \<in> set (m_sessions (sv_sessions (sweep vt now sv)))"
  shows "to_peer (sess_endpoint s) (sv_out (sweep vt now sv)) =
    to_peer (sess_endpoint s) (sv_out sv) @
      map (left_bytes \<circ> sess_id) (filter (is_expired now sv) (m_sessions (sv_sessions sv)))"
  using sweep_to_peer [of sv s now vt] assms by (simp add: sweep_sessions sm_inv_def ids_inv_def)

text \<open>A server with two players, the first of them silent since time 0.\<close>

definition two_players :: "(PlayerId \<times> nat) list server" where
  "two_players =
     \<lparr>sv_sessions = \<lparr>m_maxPlayers = 4, m_timeoutMs = 10, m_nextId = 3, m_sessions =
        [Session_default\<lparr>sess_id := 1, sess_username := ''a'', sess_endpoint := \<lparr>address = 1, port = 1\<rparr>\<rparr>,
         Session_default\<lparr>sess_id := 2, sess_username := ''b'', sess_endpoint := \<lparr>address = 1, port = 2\<rparr>, lastSeenMs := 95\<rparr>]\<rparr>,
      sv_scripts = mk_ScriptHost\<lparr>m_backends := [[]], m_kicks := [\<lparr>pk_playerId = 1, pk_reason = []\<rparr>]\<rparr>,
      sv_rejected = 0, sv_out = []\<rparr>"

lemma two_players_inv: "sm_inv (sv_sessions two_players)" "ids_inv (sv_sessions two_players)"
  by (simp_all add: two_players_def sm_inv_def ids_inv_def name_ok_def Session_default_def)

theorem sweep_notices_witness:
  "to_peer \<lparr>address = 1, port = 2\<rparr> (sv_out (sweep spy_vt 100 two_players)) = [left_bytes 1]"
  using sweep_notices [OF two_players_inv, of "m_sessions (sv_sessions two_players) ! 1" spy_vt 100]
  by (simp add: sweep_sessions is_expired_def expired_def two_players_def Session_default_def to_peer_def)

text \<open>
  A hello that is refused, or repeated, is answered with one datagram to its sender, which says
  whether it is accepted and otherwise why; no one else is told anything, no script runs, and the
  roster is not sent again.
\<close>

theorem hello_not_accepted:
  assumes "Decode Hello_T d Hello_default = (True, h)"
    and "Join e (hello_username h) (hello_version h) now (sv_sessions sv) = (r, p, m)" and "r \<noteq> Accepted"
  shows "HandleHello vt e d now sv = sv\<lparr>sv_sessions := m, sv_out := sv_out sv @ [(e, ack_bytes r)]\<rparr> \<and>
    Decode HelloAck_T (ack_bytes r) HelloAck_default =
      (True, \<lparr>ack_accepted = (r = AlreadyJoined), ack_version = kVersion,
              ack_reason = (if r = AlreadyJoined then [] else JoinResult_ToString r)\<rparr>)"
proof
  show "HandleHello vt e d now sv = sv\<lparr>sv_sessions := m, sv_out := sv_out sv @ [(e, ack_bytes r)]\<rparr>"
    using HandleHello_refused [OF assms] by (simp add: sends_def)
  let ?a = "\<lparr>ack_accepted = (r = AlreadyJoined), ack_version = kVersion,
      ack_reason = (if r = AlreadyJoined then [] else JoinResult_ToString r)\<rparr>"
  have "length (ack_reason ?a) \<le> 256" by (cases r) simp_all
  then have ok: "name_ok (ack_reason ?a)" "length (ack_reason ?a) \<le> 1189" by (simp_all add: name_ok_def)
  have "Encode HelloAck_T ?a = (True, ack_bytes r)"
    using assms(3) ok(2) by (cases r) (simp_all add: ack_bytes_def hello_ack.Encode_iff kMaxDatagram_def)
  from hello_ack.Decode_Encode [OF ok(1) this] show "Decode HelloAck_T (ack_bytes r) HelloAck_default = (True, ?a)" .
qed

theorem hello_not_accepted_witness:
  "let d = snd (Encode Hello_T \<lparr>hello_version = 1, hello_username = ''c''\<rparr>); e = \<lparr>address = 9, port = 9\<rparr>
   in sv_out (HandleHello spy_vt e d 100 two_players) = [(e, ack_bytes VersionMismatch)]"
proof -
  let ?h = "\<lparr>hello_version = 1, hello_username = ''c''\<rparr>" and ?e = "\<lparr>address = 9, port = 9\<rparr>"
  let ?d = "snd (Encode Hello_T ?h)"
  have "Decode Hello_T ?d Hello_default = (True, ?h)"
    by (rule hello.Decode_Encode) (simp_all add: name_ok_def hello.Encode_iff kMaxDatagram_def)
  moreover have "Join ?e (hello_username ?h) (hello_version ?h) 100 (sv_sessions two_players) =
      (VersionMismatch, kInvalidPlayer, sv_sessions two_players)"
    by (simp add: Join_def kVersion_def)
  ultimately have "HandleHello spy_vt ?e ?d 100 two_players =
      two_players\<lparr>sv_sessions := sv_sessions two_players,
        sv_out := sv_out two_players @ [(?e, ack_bytes VersionMismatch)]\<rparr>"
    using hello_not_accepted by blast
  then show ?thesis by (simp add: two_players_def)
qed

text \<open>
  C28: An accepted hello is answered in this order: the acknowledgement to the newcomer, one joined
  notice to the newcomer for every player who was there, and one joined notice about the newcomer to
  every player who was there; then the scripts are told, with the newcomer already in the list. (While ids are distinct: for fewer than
  2^32 - 1 joins.)
\<close>

theorem hello_accepted:
  assumes "sm_inv (sv_sessions sv)" and "ids_inv (sv_sessions sv)"
    and "Decode Hello_T d Hello_default = (True, h)"
    and "Join e (hello_username h) (hello_version h) now (sv_sessions sv) = (Accepted, p, m)"
  shows "let old = m_sessions (sv_sessions sv); sv' = HandleHello vt e d now sv
    in sv_out sv' = sv_out sv @ [(e, ack_bytes Accepted)] @
         map (\<lambda>s. (e, joined_bytes (sess_id s) (sess_username s))) old @
         map (\<lambda>s. (sess_endpoint s, joined_bytes p (hello_username h))) old \<and>
       sv_sessions sv' = m \<and> Players_Ids m = map sess_id old @ [p] \<and>
       sv_scripts sv' = ScriptHost_OnPlayerJoin vt p m (sv_scripts sv)"
proof (cases rule: Join_cases [of "hello_version h" e "hello_username h" now "sv_sessions sv"])
  case (accepted s)
  then have "Players_Ids m = map sess_id (m_sessions (sv_sessions sv)) @ [p]"
    using assms(4) by (auto simp: Players_Ids_def)
  then show ?thesis using HandleHello_accepted [OF assms, of vt] by (simp add: Let_def)
qed (use assms(4) in simp_all)

theorem hello_accepted_witness:
  "let d = snd (Encode Hello_T \<lparr>hello_version = 2, hello_username = ''c''\<rparr>); e = \<lparr>address = 9, port = 9\<rparr>
   in sv_out (HandleHello spy_vt e d 100 two_players) =
        [(e, ack_bytes Accepted), (e, joined_bytes 1 ''a''), (e, joined_bytes 2 ''b''),
         (\<lparr>address = 1, port = 1\<rparr>, joined_bytes 3 ''c''), (\<lparr>address = 1, port = 2\<rparr>, joined_bytes 3 ''c'')]"
proof -
  let ?h = "\<lparr>hello_version = 2, hello_username = ''c''\<rparr>" and ?e = "\<lparr>address = 9, port = 9\<rparr>"
  let ?d = "snd (Encode Hello_T ?h)"
  let ?j = "Join ?e (hello_username ?h) (hello_version ?h) 100 (sv_sessions two_players)"
  have d: "Decode Hello_T ?d Hello_default = (True, ?h)"
    by (rule hello.Decode_Encode) (simp_all add: name_ok_def hello.Encode_iff kMaxDatagram_def)
  have "?j = (Accepted, 3, snd (snd ?j))"
    by (simp add: Join_def kVersion_def two_players_def Find_endpoint_def kMaxStringSize_def Session_default_def)
  from hello_accepted [OF two_players_inv d this, of spy_vt] show ?thesis
    by (simp add: Let_def two_players_def Session_default_def)
qed

text \<open>
  C4: A position update of a player is relayed exactly when it decodes and its tick is newer than the
  last one taken; then to every other player once, under the id the sender is registered with, never
  back to the sender. Otherwise the handler does nothing at all. (While ids are distinct: for fewer than
  2^32 - 1 joins.)
\<close>

theorem state_relayed:
  assumes "sm_inv (sv_sessions sv)" and "ids_inv (sv_sessions sv)"
    and "i < Count (sv_sessions sv)" and "e = sess_endpoint (m_sessions (sv_sessions sv) ! i)"
  shows "let xs = m_sessions (sv_sessions sv); s = xs ! i; (ok, st) = Decode PlayerState_T d PlayerState_default
    in HandlePlayerState e d sv =
       (if ok \<and> (\<not> hasState s \<or> stateTick s < ps_tick st)
        then sv\<lparr>sv_sessions := (sv_sessions sv)\<lparr>m_sessions := xs[i := s\<lparr>hasState := True, stateTick := ps_tick st,
                   sess_position := fst (state_args st), sess_rotation := snd (state_args st)\<rparr>]\<rparr>,
                sv_out := sv_out sv @ map (\<lambda>s'. (sess_endpoint s', relay_bytes (sess_id s) st))
                   (filter (\<lambda>s'. sess_endpoint s' \<noteq> e) xs)\<rparr>
        else sv)"
proof -
  let ?xs = "m_sessions (sv_sessions sv)"
  have eps: "distinct (map sess_endpoint ?xs)" and ids: "distinct (map sess_id ?xs)"
    using assms(1,2) by (simp_all add: sm_inv_def ids_inv_def)
  have il: "i < length ?xs" using assms(3) by (simp add: Count_def)
  obtain j where j: "Find_endpoint e (sv_sessions sv) = Some j"
    using Find_endpoint_None [of e "sv_sessions sv"] il assms(4) by fastforce
  then have "j = i"
    using Find_endpoint_SomeD [OF j] il assms(4) nth_eq_iff_index_eq [OF eps, of j i] by simp
  with j have i: "Find_endpoint e (sv_sessions sv) = Some i" by simp
  obtain ok st where d: "Decode PlayerState_T d PlayerState_default = (ok, st)" by fastforce
  show ?thesis
  proof (cases ok)
    case False
    with d HandlePlayerState_silent(2) [of d e sv] show ?thesis by simp
  next
    case True
    with d HandlePlayerState_known [OF i _ ids eps, of d st] i show ?thesis
      by (cases "hasState (?xs ! i) \<and> ps_tick st \<le> stateTick (?xs ! i)")
        (auto simp: ApplyState_def sends_def Let_def)
  qed
qed

theorem state_relayed_witness:
  "let d = snd (Encode PlayerState_T \<lparr>ps_tick = 7, ps_position = \<lparr>vx = 1, vy = 2, vz = 3\<rparr>, ps_rotation = 4\<rparr>);
       st = \<lparr>ps_tick = 7, ps_position = \<lparr>vx = 1, vy = 2, vz = 3\<rparr>, ps_rotation = 4\<rparr>
   in sv_out (HandlePlayerState \<lparr>address = 1, port = 2\<rparr> d two_players) = [(\<lparr>address = 1, port = 1\<rparr>, relay_bytes 2 st)]"
proof -
  let ?st = "\<lparr>ps_tick = 7, ps_position = \<lparr>vx = 1, vy = 2, vz = 3\<rparr>, ps_rotation = 4\<rparr>"
  let ?d = "snd (Encode PlayerState_T ?st)" and ?e = "\<lparr>address = 1, port = 2\<rparr>"
  have d: "Decode PlayerState_T ?d PlayerState_default = (True, ?st)"
    by (rule player_state.Decode_Encode) (simp_all add: player_state.Encode_iff kMaxDatagram_def)
  have "1 < Count (sv_sessions two_players)" "?e = sess_endpoint (m_sessions (sv_sessions two_players) ! 1)"
    by (simp_all add: two_players_def Count_def Session_default_def)
  from state_relayed [OF two_players_inv this, of ?d] d show ?thesis
    by (simp add: Let_def) (simp add: two_players_def Session_default_def)
qed

text \<open>
  A ping is answered exactly when its sender has a session and it decodes, with one datagram, to
  the sender, that carries the same time stamp and is no longer than the ping: the server is no
  amplifier of pings, nor a reflector for strangers.
\<close>

theorem ping_answered:
  "let (ok, ping) = Decode Ping_T d Ping_default;
       known = (e \<in> sess_endpoint ` set (m_sessions (sv_sessions sv)))
   in HandlePing e d sv = sv\<lparr>sv_out := sv_out sv @ (if known \<and> ok then [(e, pong_bytes (ping_sentAt ping))] else [])\<rparr> \<and>
      Decode Pong_T (pong_bytes (ping_sentAt ping)) Pong_default = (True, \<lparr>pong_sentAt = ping_sentAt ping\<rparr>) \<and>
      length (pong_bytes (ping_sentAt ping)) \<le> (if ok then length d else 12)"
proof -
  obtain ok ping where d: "Decode Ping_T d Ping_default = (ok, ping)" by fastforce
  have enc: "Encode Pong_T \<lparr>pong_sentAt = t\<rparr> = (True, pong_bytes t)" for t
    by (simp add: pong_bytes_def pong.Encode_iff kMaxDatagram_def)
  have "length (pong_bytes t) = 12" for t
    using pong.Encode_hd(2) [OF enc] by simp
  moreover have "ok \<Longrightarrow> 12 \<le> length d" using ping.Decode_True [of d Ping_default ping] d by simp
  ultimately show ?thesis
    using pong.Decode_Encode [OF TrueI enc] d by (auto simp: HandlePing_eq sends_def)
qed

lemma Decode_header:
  "Decode T d m0 = (True, m) \<Longrightarrow> \<exists>h. PeekHeader d Header_default = (True, h) \<and> hdr_type h = kType T"
  by (auto simp: Decode_def PeekHeader_def split: prod.splits if_splits)

text \<open>
  C29: A peer without a session can obtain at most one datagram from the server with one of its own, and
  only with a hello: then it is the refusal that the hello is answered with, and nothing has changed. Any
  other datagram of it obtains nothing and changes nothing but the count of rejected datagrams. An
  accepted hello is the only way in. All that any datagram makes the server send goes to its sender or
  to peers with a session.
\<close>

theorem strangers:
  assumes "e \<notin> sess_endpoint ` set (m_sessions (sv_sessions sv))"
  shows "let sv' = handle_datagram vt now e d sv; (ok, h) = Decode Hello_T d Hello_default;
      (r, p, m) = Join e (hello_username h) (hello_version h) now (sv_sessions sv)
    in (if \<not> ok then sv' = sv \<or> sv' = sv\<lparr>sv_rejected := sv_rejected sv + 1\<rparr>
        else if r \<noteq> Accepted then sv' = sv\<lparr>sv_out := sv_out sv @ [(e, ack_bytes r)]\<rparr> \<and> m = sv_sessions sv
        else sv_sessions sv' = m) \<and>
       tells (insert e (peers sv)) sv sv'"
proof -
  have N: "Find_endpoint e (sv_sessions sv) = None" using assms by (simp add: Find_endpoint_None)
  then have t: "sv\<lparr>sv_sessions := snd (Touch e now (sv_sessions sv))\<rparr> = sv" by (simp add: Touch_def)
  obtain okh hd where p: "PeekHeader d Header_default = (okh, hd)" by fastforce
  have ping: "HandlePing e d sv = sv" using assms by (simp add: HandlePing_eq)
  have state: "HandlePlayerState e d sv = sv" by (rule HandlePlayerState_silent(1) [OF N])
  have to: "tells (insert e (peers sv)) sv (handle_datagram vt now e d sv)"
    by (rule handle_datagram_tells) auto
  obtain ok h where h: "Decode Hello_T d Hello_default = (ok, h)" by fastforce
  obtain r q m where j: "Join e (hello_username h) (hello_version h) now (sv_sessions sv) = (r, q, m)"
    using prod_cases3 by blast
  show ?thesis
  proof (cases ok)
    case False
    then have "handle_datagram vt now e d sv = sv \<or> handle_datagram vt now e d sv = sv\<lparr>sv_rejected := sv_rejected sv + 1\<rparr>"
      by (cases "hdr_type hd") (auto simp: handle_datagram_def p t ping state HandleHello_def h)
    then show ?thesis using to False by (simp add: h j)
  next
    case True
    with h have h': "Decode Hello_T d Hello_default = (True, h)" by simp
    from Decode_header [OF this] p have "okh" "hdr_type hd = Type_Hello" by (auto simp: Hello_T_def)
    then have hd: "handle_datagram vt now e d sv = HandleHello vt e d now sv"
      by (simp add: handle_datagram_def p t)
    show ?thesis
    proof (cases "r = Accepted")
      case False
      from j False N have "m = sv_sessions sv"
        by (cases rule: Join_cases [of "hello_version h" e "hello_username h" now "sv_sessions sv"]) auto
      with HandleHello_refused [OF h' j False] False hd True h j to show ?thesis
        by (simp add: sends_def)
    next
      case joined: True
      have "sv_sessions (HandleHello vt e d now sv) = m"
      proof -
        have f: "sv_sessions (fold (\<lambda>session sv. if sess_id session = q then sv
            else encode_and_send T (g session) e sv) xs sv') = sv_sessions sv'"
          for T :: "'m msg_traits" and g xs and sv' :: "'a server"
          by (induction xs arbitrary: sv') (simp_all add: encode_and_send_eq)
        show ?thesis using True by (simp add: HandleHello_def h j Let_def encode_and_send_eq [of HelloAck_T] Broadcast_eq f)
      qed
      with True joined hd h j to show ?thesis by simp
    qed
  qed
qed

theorem strangers_witness:
  "let sv' = handle_datagram spy_vt 100 \<lparr>address = 9, port = 9\<rparr> [3, 0, 0, 0] two_players
   in sv_sessions sv' = sv_sessions two_players \<and> sv_scripts sv' = sv_scripts two_players"
proof -
  have "\<not> fst (Decode Hello_T [3, 0, 0, 0] Hello_default)"
    by (rule hello.Decode_other_type [of _ Type_Ping]) (simp_all add: real_type_def)
  moreover have "\<lparr>address = 9, port = 9\<rparr> \<notin> sess_endpoint ` set (m_sessions (sv_sessions two_players))"
    by (simp add: two_players_def Session_default_def)
  ultimately show ?thesis
    using strangers [of "\<lparr>address = 9, port = 9\<rparr>" two_players spy_vt 100 "[3, 0, 0, 0]"] by (auto simp: Let_def)
qed

text \<open>
  C33: Running the queued kicks removes exactly the players that are on the queue and online, once each
  however often they are listed, also when that is everybody; every player who stays is sent one leave
  notice for each of them, in queue order, and nothing else; the scripts hear of each departure once, with
  its player gone; and what they queue meanwhile is what is on the queue afterwards, for the next turn.
\<close>

theorem kicks_exact:
  assumes "sm_inv (sv_sessions sv)" and "ids_inv (sv_sessions sv)"
  shows "let sv' = run_kicks vt sv; xs = m_sessions (sv_sessions sv); ks = map pk_playerId (m_kicks (sv_scripts sv));
      gone = kicked (map sess_id xs) ks
    in m_sessions (sv_sessions sv') = filter (\<lambda>s. sess_id s \<notin> set ks) xs \<and>
       (\<forall>s \<in> set xs. sess_id s \<notin> set ks \<longrightarrow>
          to_peer (sess_endpoint s) (sv_out sv') = to_peer (sess_endpoint s) (sv_out sv) @ map left_bytes gone) \<and>
       (m_kicks (sv_scripts sv'), m_backends (sv_scripts sv')) =
         departures vt gone (sv_sessions sv) (m_backends (sv_scripts sv))"
  using assms kicks_sessions [of "sv\<lparr>sv_scripts := (sv_scripts sv)\<lparr>m_kicks := []\<rparr>\<rparr>" vt "m_kicks (sv_scripts sv)"]
    kicks_to_peer [of "sv\<lparr>sv_scripts := (sv_scripts sv)\<lparr>m_kicks := []\<rparr>\<rparr>" _ "m_kicks (sv_scripts sv)" vt]
    kicks_departures [of "sv\<lparr>sv_scripts := (sv_scripts sv)\<lparr>m_kicks := []\<rparr>\<rparr>" vt "m_kicks (sv_scripts sv)"]
  by (simp add: run_kicks_def TakeKicks_def Let_def sm_inv_def split: prod.splits)

theorem kicks_exact_witness:
  "let sv' = run_kicks spy_vt two_players
   in map sess_id (m_sessions (sv_sessions sv')) = [2] \<and>
      to_peer \<lparr>address = 1, port = 2\<rparr> (sv_out sv') = [left_bytes 1]"
  using kicks_exact [OF two_players_inv, of spy_vt]
  by (simp add: two_players_def Session_default_def mk_ScriptHost_def to_peer_def Let_def)

end
