(* ===== verification/Float_Order.thy ===== *)
theory Float_Order imports
  Ieee_Float
  Complex_Main
begin

text \<open>
  Rounding is monotone: a larger exact value never rounds to a smaller float. From this: the
  conversion of integers is monotone, and the quotient of a smaller by a larger float is at most 1.
  The bit patterns of the floats that are not negative are ordered as their values.
\<close>

section \<open>Exact values as real numbers\<close>

definition val :: "nat \<Rightarrow> nat \<Rightarrow> int \<Rightarrow> real" where
  "val n d e = real n / real d * 2 powi e"

lemma val_pos: "0 < n \<Longrightarrow> 0 < d \<Longrightarrow> 0 < val n d e"
  by (simp add: val_def)

lemma powi_nat:
  assumes "e' \<le> e"
  shows "(2 :: real) ^ nat (e - e') = 2 powi e / 2 powi e'"
proof -
  have "(2 :: real) ^ nat (e - e') = 2 powi (e - e')" using assms by (simp add: power_int_def)
  also have "\<dots> = 2 powi e / 2 powi e'" by (rule power_int_diff) simp
  finally show ?thesis .
qed

lemma scale_val:
  assumes "0 < d" and "scale n d e e' = (a, b)"
  shows "0 < b" and "real a / real b = val n d e / 2 powi e'"
proof -
  show "0 < b" using assms by (auto simp: scale_def split: if_splits)
  show "real a / real b = val n d e / 2 powi e'"
  proof (cases "e' \<le> e")
    case True
    with assms powi_nat [OF True] show ?thesis by (auto simp: scale_def val_def)
  next
    case False
    then have "e \<le> e'" by simp
    from powi_nat [OF this] False assms show ?thesis by (auto simp: scale_def val_def)
  qed
qed

lemma bitlen_bounds: "0 < n \<Longrightarrow> 2 ^ (bitlen n - 1) \<le> n \<and> n < 2 ^ bitlen n \<and> 0 < bitlen n"
proof (induction n rule: less_induct)
  case (less n)
  show ?case
  proof (cases "n = 1")
    case True
    then show ?thesis by (simp add: bitlen.simps)
  next
    case False
    then have "2 ^ (bitlen (n div 2) - 1) \<le> n div 2 \<and> n div 2 < 2 ^ bitlen (n div 2) \<and> 0 < bitlen (n div 2)"
      using less by simp
    moreover obtain k where "bitlen (n div 2) = Suc k" using calculation by (cases "bitlen (n div 2)") auto
    ultimately show ?thesis using less.prems by (subst (1 2 3) bitlen.simps) auto
  qed
qed

section \<open>Rounding a quotient\<close>

lemma div_even_spec:
  assumes "0 < b"
  shows "2 * (div_even a b * b) \<le> 2 * a + b" and "2 * a \<le> 2 * (div_even a b * b) + b"
    and "2 * (div_even a b * b) = 2 * a + b \<or> 2 * a = 2 * (div_even a b * b) + b \<Longrightarrow> even (div_even a b)"
proof -
  obtain q r where q: "q = a div b" and r: "r = a mod b" by blast
  have a: "a = q * b + r" and rb: "r < b" using assms by (simp_all add: q r)
  have c: "div_even a b = (if 2 * r > b \<or> (2 * r = b \<and> odd q) then q + 1 else q)"
    by (simp add: div_even_def Let_def q r)
  show "2 * (div_even a b * b) \<le> 2 * a + b" "2 * a \<le> 2 * (div_even a b * b) + b"
    unfolding c using rb by (auto simp: a add_mult_distrib)
  show "2 * (div_even a b * b) = 2 * a + b \<or> 2 * a = 2 * (div_even a b * b) + b \<Longrightarrow> even (div_even a b)"
    unfolding c using rb by (auto simp: a add_mult_distrib split: if_splits)
qed

lemma div_even_mono:
  assumes b: "0 < b" and b': "0 < b'" and "a * b' \<le> a' * b"
  shows "div_even a b \<le> div_even a' b'"
proof (rule ccontr)
  define q q' P where "q = div_even a b" and "q' = div_even a' b'" and "P = b * b'"
  assume "\<not> div_even a b \<le> div_even a' b'"
  then have "q' + 1 \<le> q" by (simp add: q_def q'_def)
  then have 3: "q' * P + P \<le> q * P" using mult_right_mono [of "q' + 1" q P] by (simp add: add_mult_distrib)
  have 1: "2 * (q * P) \<le> 2 * (a * b') + P"
    using mult_right_mono [OF div_even_spec(1) [OF b, of a], of b'] by (simp add: q_def P_def algebra_simps)
  have 2: "2 * (a' * b) \<le> 2 * (q' * P) + P"
    using mult_right_mono [OF div_even_spec(2) [OF b', of a'], of b] by (simp add: q'_def P_def algebra_simps)
  from 1 2 3 assms(3) have "q * P = (q' + 1) * P" and e1: "2 * (q * P) = 2 * (a * b') + P"
    and e2: "2 * (a' * b) = 2 * (q' * P) + P" by (simp_all add: add_mult_distrib)
  moreover have "0 < P" using b b' by (simp add: P_def)
  ultimately have q: "q = q' + 1" by (simp only: mult_cancel2) simp
  from e1 have "2 * (q * b) * b' = (2 * a + b) * b'" by (simp add: P_def algebra_simps)
  then have "2 * (q * b) = 2 * a + b" using b' by simp
  then have "even q" using div_even_spec(3) [OF b, of a] by (simp add: q_def)
  moreover from e2 have "2 * a' * b = (2 * (q' * b') + b') * b" by (simp add: P_def algebra_simps)
  then have "2 * a' = 2 * (q' * b') + b'" using b by simp
  then have "even q'" using div_even_spec(3) [OF b', of a'] by (simp add: q'_def)
  ultimately show False using q by simp
qed

lemma div_even_le: "0 < b \<Longrightarrow> a \<le> k * b \<Longrightarrow> div_even a b \<le> k"
  using div_even_mono [of b 1 a k] by (simp add: div_even_def)

lemma div_even_ge: "0 < b \<Longrightarrow> k * b \<le> a \<Longrightarrow> k \<le> div_even a b"
  using div_even_mono [of 1 b k a] by (simp add: div_even_def)

section \<open>The unit of the result\<close>

lemma unit_exp_spec:
  assumes n: "0 < n" and d: "0 < d" and p: "0 < prec f"
  shows "lsb_min f \<le> unit_exp f n d e" and "val n d e < 2 ^ prec f * 2 powi unit_exp f n d e"
    and "lsb_min f < unit_exp f n d e \<Longrightarrow> 2 ^ (prec f - 1) * 2 powi unit_exp f n d e \<le> val n d e"
proof -
  define g where "g = e + int (bitlen n) - int (bitlen d) - int (prec f)"
  define e0 where "e0 = max (lsb_min f) g"
  obtain a b where ab: "scale n d e e0 = (a, b)" by fastforce
  have u: "unit_exp f n d e = (if a div b < 2 ^ prec f then e0 else e0 + 1)"
    unfolding unit_exp_def Let_def using ab by (simp add: e0_def g_def)
  note sv = scale_val [OF d ab]
  have "a div b < 2 ^ prec f \<longleftrightarrow> real a / real b < 2 ^ prec f"
  proof -
    have "a div b < 2 ^ prec f \<longleftrightarrow> a < 2 ^ prec f * b" using sv(1) by (simp add: div_less_iff_less_mult)
    also have "\<dots> \<longleftrightarrow> real a < real (2 ^ prec f * b)" by (simp only: of_nat_less_iff)
    also have "\<dots> \<longleftrightarrow> real a / real b < 2 ^ prec f" using sv(1) by (simp add: pos_divide_less_eq)
    finally show ?thesis .
  qed
  then have c: "a div b < 2 ^ prec f \<longleftrightarrow> val n d e < 2 ^ prec f * 2 powi e0"
    by (simp add: sv(2) pos_divide_less_eq)
  obtain i where i: "bitlen n = Suc i" "2 ^ i \<le> n" "n < 2 * 2 ^ i" using bitlen_bounds [OF n] by (cases "bitlen n") auto
  obtain j where j: "bitlen d = Suc j" "2 ^ j \<le> d" "d < 2 * 2 ^ j" using bitlen_bounds [OF d] by (cases "bitlen d") auto
  have "real (2 ^ i) \<le> real n" "real n < real (2 * 2 ^ i)" "real (2 ^ j) \<le> real d" "real d < real (2 * 2 ^ j)"
    using i(2,3) j(2,3) by (simp_all only: of_nat_le_iff of_nat_less_iff)
  then have ri: "(2 :: real) ^ i \<le> real n" "real n < 2 * 2 ^ i" and rj: "(2 :: real) ^ j \<le> real d" "real d < 2 * 2 ^ j"
    by simp_all
  define E where "E = (2 :: real) powi e"
  have E: "0 < E" by (simp add: E_def)
  have rd: "0 < real d" using d by simp
  have up: "val n d e < 2 * 2 ^ i / 2 ^ j * E"
  proof -
    have "real n / real d \<le> real n / 2 ^ j" using rj(1) d by (intro divide_left_mono) auto
    also have "\<dots> < 2 * 2 ^ i / 2 ^ j" using ri(2) by (intro divide_strict_right_mono) auto
    finally have "real n / real d * E < 2 * 2 ^ i / 2 ^ j * E" using E by (rule mult_strict_right_mono)
    then show ?thesis by (simp add: val_def E_def)
  qed
  have lo: "2 ^ i / (2 * 2 ^ j) * E < val n d e"
  proof -
    have "2 ^ i / (2 * 2 ^ j) \<le> real n / (2 * 2 ^ j)" using ri(1) by (intro divide_right_mono) auto
    also have "\<dots> < real n / real d" using rj(2) n rd by (intro divide_strict_left_mono) auto
    finally have "2 ^ i / (2 * 2 ^ j) * E < real n / real d * E" using E by (rule mult_strict_right_mono)
    then show ?thesis by (simp add: val_def E_def)
  qed
  have g: "2 powi g * 2 ^ prec f = 2 ^ i / 2 ^ j * E"
  proof -
    have "g = e + int i - int j - int (prec f)" by (simp add: g_def i(1) j(1))
    then show ?thesis by (simp add: power_int_diff power_int_add E_def)
  qed
  have "lsb_min f \<le> e0" by (simp add: e0_def)
  then show "lsb_min f \<le> unit_exp f n d e" by (simp add: u)
  have g0: "(2 :: real) powi g \<le> 2 powi e0" unfolding e0_def by (intro power_int_increasing) auto
  have below: "val n d e < 2 ^ prec f * 2 powi (e0 + 1)"
  proof -
    have "val n d e < 2 * (2 powi g * 2 ^ prec f)" unfolding g using up by (simp add: mult.assoc)
    also have "\<dots> \<le> 2 * (2 powi e0 * 2 ^ prec f)" using g0 by (intro mult_left_mono mult_right_mono) auto
    also have "\<dots> = 2 ^ prec f * 2 powi (e0 + 1)" by (simp add: power_int_add)
    finally show ?thesis .
  qed
  with c show "val n d e < 2 ^ prec f * 2 powi unit_exp f n d e" by (simp add: u)
  have half: "(2 :: real) ^ prec f = 2 * 2 ^ (prec f - 1)" using p by (cases "prec f") auto
  show "2 ^ (prec f - 1) * 2 powi unit_exp f n d e \<le> val n d e" if "lsb_min f < unit_exp f n d e"
  proof (cases "a div b < 2 ^ prec f")
    case True
    with that have "e0 = g" by (auto simp: u e0_def)
    have "2 * (2 ^ (prec f - 1) * 2 powi g) = 2 * (2 ^ i / (2 * 2 ^ j) * E)"
      using g unfolding half by (simp add: algebra_simps)
    then have "2 ^ (prec f - 1) * 2 powi g = 2 ^ i / (2 * 2 ^ j) * E" by (simp only: mult_cancel_left) simp
    with True lo \<open>e0 = g\<close> show ?thesis by (simp add: u)
  next
    case False
    with c half show ?thesis by (simp add: u power_int_add)
  qed
qed

section \<open>Rounding is monotone\<close>

text \<open>The magnitude before it is cut off at infinity.\<close>

definition mag :: "fmt \<Rightarrow> nat \<Rightarrow> nat \<Rightarrow> int \<Rightarrow> nat" where
  "mag f n d e =
     (let e' = unit_exp f n d e; (a, b) = scale n d e e' in nat (e' - lsb_min f) * 2 ^ (prec f - 1) + div_even a b)"

lemma round_mag_eq:
  "round_mag f n d e = (if n = 0 then 0 else min (mag f n d e) ((2 ^ ebits f - 1) * 2 ^ (prec f - 1)))"
  by (simp add: round_mag_def mag_def Let_def split: prod.splits)

lemma mag_mono:
  assumes n: "0 < n" and d: "0 < d" and n': "0 < n'" and d': "0 < d'" and p: "0 < prec f" and le: "val n d e \<le> val n' d' e'"
  shows "mag f n d e \<le> mag f n' d' e'"
proof -
  define E where "E = unit_exp f n d e"
  define E' where "E' = unit_exp f n' d' e'"
  obtain a b where ab: "scale n d e E = (a, b)" by fastforce
  obtain a' b' where ab': "scale n' d' e' E' = (a', b')" by fastforce
  note sv = scale_val [OF d ab] and sv' = scale_val [OF d' ab']
  note u = unit_exp_spec [OF n d p, of e, folded E_def] and u' = unit_exp_spec [OF n' d' p, of e', folded E'_def]
  have m: "mag f n d e = nat (E - lsb_min f) * 2 ^ (prec f - 1) + div_even a b"
    "mag f n' d' e' = nat (E' - lsb_min f) * 2 ^ (prec f - 1) + div_even a' b'"
    by (simp_all add: mag_def E_def E'_def ab [unfolded E_def] ab' [unfolded E'_def] Let_def)
  have half: "(2 :: real) ^ prec f = 2 * 2 ^ (prec f - 1)" "(2 :: nat) ^ prec f = 2 * 2 ^ (prec f - 1)"
    using p by (cases "prec f"; simp)+
  have le_E: "E \<le> E'"
  proof (rule ccontr)
    assume lt: "\<not> E \<le> E'"
    then have "(2 :: real) powi (E' + 1) \<le> 2 powi E" by (intro power_int_increasing) auto
    then have "2 ^ prec f * 2 powi E' \<le> (2 :: real) ^ (prec f - 1) * 2 powi E" by (simp add: half(1) power_int_add)
    also have "\<dots> \<le> val n d e" using u(3) u'(1) lt by simp
    finally show False using le u'(2) by simp
  qed
  show ?thesis
  proof (cases "E = E'")
    case True
    have "real a / real b \<le> real a' / real b'" using le by (simp add: sv(2) sv'(2) True divide_right_mono)
    then have "real a * real b' \<le> real a' * real b" using sv(1) sv'(1) by (simp add: field_simps)
    then have "a * b' \<le> a' * b" by (simp only: of_nat_le_iff flip: of_nat_mult)
    from div_even_mono [OF sv(1) sv'(1) this] show ?thesis by (simp add: m True)
  next
    case False
    with le_E have lt: "E + 1 \<le> E'" by simp
    have "real a / real b \<le> 2 ^ prec f" using u(2) by (simp add: sv(2) pos_divide_le_eq)
    then have "real a \<le> real (2 ^ prec f * b)" using sv(1) by (simp add: pos_divide_le_eq)
    then have "a \<le> 2 ^ prec f * b" by (simp only: of_nat_le_iff)
    from div_even_le [OF sv(1) this] have q: "div_even a b \<le> 2 * 2 ^ (prec f - 1)" by (simp only: half(2))
    have "2 ^ (prec f - 1) \<le> real a' / real b'" using u'(3) u(1) lt by (simp add: sv'(2) pos_le_divide_eq)
    then have "real (2 ^ (prec f - 1) * b') \<le> real a'" using sv'(1) by (simp add: pos_le_divide_eq)
    then have "2 ^ (prec f - 1) * b' \<le> a'" by (simp only: of_nat_le_iff)
    from div_even_ge [OF sv'(1) this] have q': "2 ^ (prec f - 1) \<le> div_even a' b'" .
    have "nat (E - lsb_min f) + 1 \<le> nat (E' - lsb_min f)" using lt u(1) by simp
    then have "(nat (E - lsb_min f) + 1) * 2 ^ (prec f - 1) \<le> nat (E' - lsb_min f) * 2 ^ (prec f - 1)"
      by (rule mult_right_mono) simp
    with q q' show ?thesis by (simp add: m)
  qed
qed

theorem round_mag_mono:
  assumes "0 < d" and "0 < d'" and "0 < prec f" and "val n d e \<le> val n' d' e'"
  shows "round_mag f n d e \<le> round_mag f n' d' e'"
proof (cases "n = 0")
  case False
  then have "0 < val n d e" using assms(1) by (simp add: val_pos)
  with assms(4) have "0 < val n' d' e'" by simp
  then have "n' \<noteq> 0" by (cases "n' = 0") (simp_all add: val_def)
  with False assms mag_mono [of n d n' d' f e e'] show ?thesis by (auto simp: round_mag_eq min_def)
qed (simp add: round_mag_eq)

lemma round_mag_bound: "round_mag f n d e \<le> (2 ^ ebits f - 1) * 2 ^ (prec f - 1)"
  by (simp add: round_mag_eq)

section \<open>The value of a pattern\<close>

text \<open>A finite pattern without sign, as the numerator and the exponent it decodes to.\<close>

definition finite_bits :: "fmt \<Rightarrow> nat \<Rightarrow> bool" where
  "finite_bits f b \<longleftrightarrow> b < (2 ^ ebits f - 1) * 2 ^ (prec f - 1)"

definition num_of :: "fmt \<Rightarrow> nat \<Rightarrow> nat" where
  "num_of f b = (let p = prec f - 1 in if b div 2 ^ p = 0 then b mod 2 ^ p else b mod 2 ^ p + 2 ^ p)"

definition exp_of :: "fmt \<Rightarrow> nat \<Rightarrow> int" where
  "exp_of f b = (let ex = b div 2 ^ (prec f - 1) in if ex = 0 then lsb_min f else lsb_min f + int ex - 1)"

lemma decode_finite: "finite_bits f b \<Longrightarrow> decode f b = XFrac False (num_of f b) 1 (exp_of f b)"
proof -
  assume "finite_bits f b"
  then have ex: "b div 2 ^ (prec f - 1) < 2 ^ ebits f - 1" by (simp add: finite_bits_def div_less_iff_less_mult)
  then have "b div 2 ^ (prec f - 1) < 2 ^ ebits f" by simp
  moreover have "b div 2 ^ (prec f - 1 + ebits f) = (b div 2 ^ (prec f - 1)) div 2 ^ ebits f"
    by (simp add: power_add div_mult2_eq)
  ultimately have "b div 2 ^ (prec f - 1 + ebits f) = 0" by simp
  with ex show ?thesis by (simp add: decode_def num_of_def exp_of_def Let_def)
qed

lemma value_of:
  fixes f :: fmt
  defines "P \<equiv> 2 ^ (prec f - 1)"
  shows "val (num_of f b) 1 (exp_of f b) =
    (if b div P = 0 then real (b mod P) else real (b mod P + P) * 2 ^ (b div P - 1)) * 2 powi lsb_min f"
proof (cases "b div P")
  case (Suc x)
  have "(2 :: real) powi (lsb_min f + int (Suc x) - 1) = 2 powi lsb_min f * 2 ^ x"
    by (simp add: power_int_add)
  with Suc show ?thesis by (simp add: val_def num_of_def exp_of_def Let_def P_def)
qed (simp add: val_def num_of_def exp_of_def Let_def P_def)

lemma value_mono:
  assumes "b \<le> b'"
  shows "val (num_of f b) 1 (exp_of f b) \<le> val (num_of f b') 1 (exp_of f b')"
proof -
  define P where "P = (2 :: nat) ^ (prec f - 1)"
  have P: "0 < P" by (simp add: P_def)
  define g :: "nat \<Rightarrow> nat" where "g = (\<lambda>b. if b div P = 0 then b mod P else (b mod P + P) * 2 ^ (b div P - 1))"
  have v: "val (num_of f c) 1 (exp_of f c) = real (g c) * 2 powi lsb_min f" for c
    unfolding value_of g_def P_def [symmetric] by simp
  have "g b \<le> g b'"
  proof (cases "b div P = b' div P")
    case True
    have "b mod P \<le> b' mod P" using assms True
      by (metis add_le_cancel_left div_mult_mod_eq)
    with True show ?thesis by (simp add: g_def)
  next
    case False
    then have lt: "b div P < b' div P" using assms by (simp add: div_le_mono le_neq_implies_less)
    then obtain y where y: "b' div P = Suc y" by (cases "b' div P") auto
    with lt have xy: "b div P \<le> y" by simp
    have m: "b mod P < P" using P by simp
    have "g b \<le> P * 2 ^ (b div P)"
    proof (cases "b div P")
      case (Suc x)
      have "(b mod P + P) * 2 ^ x \<le> (2 * P) * 2 ^ x" using m by (intro mult_right_mono) auto
      with Suc show ?thesis by (simp add: g_def)
    qed (use m in \<open>simp add: g_def\<close>)
    also have "\<dots> \<le> P * 2 ^ y" using xy by simp
    also have "\<dots> \<le> g b'" by (simp add: g_def y)
    finally show ?thesis .
  qed
  then show ?thesis unfolding v by (intro mult_right_mono) auto
qed

section \<open>Binary32\<close>

lemma binary32_facts:
  "0 < prec binary32" "(2 ^ ebits binary32 - 1) * 2 ^ (prec binary32 - 1) = (0x7F800000 :: nat)"
  by (simp_all add: binary32_def)

definition f32_finite :: "f32 \<Rightarrow> bool" where "f32_finite a \<longleftrightarrow> unat a < 0x7F800000"

lemma f32_finite_bits: "f32_finite a = finite_bits binary32 (unat a)"
  by (simp only: f32_finite_def finite_bits_def binary32_facts)

lemma unat_round: "unat (word_of_nat (round_mag binary32 n d e) :: f32) = round_mag binary32 n d e"
proof -
  have "round_mag binary32 n d e \<le> 0x7F800000" using round_mag_bound [of binary32 n d e] by (simp only: binary32_facts)
  then show ?thesis by (simp add: unsigned_of_nat take_bit_nat_eq_self)
qed

lemma f32_of_u64_unat: "unat (f32_of_u64 n) = round_mag binary32 (unat n) 1 0"
  by (simp add: f32_of_u64_def round_exact_def sign_bit_def unat_round)

lemma f32_of_u64_mono: "m \<le> n \<Longrightarrow> unat (f32_of_u64 m) \<le> unat (f32_of_u64 n)"
  unfolding f32_of_u64_unat
  using word_le_nat_alt [of m n] by (intro round_mag_mono) (simp_all add: val_def binary32_facts del: of_nat_unat)

lemma bitlen_one [simp]: "bitlen (Suc 0) = 1"
  by (simp add: bitlen.simps)

lemma round_one: "round_mag binary32 1 1 0 = 0x3F800000"
  by (simp add: round_mag_def unit_exp_def scale_def lsb_min_def binary32_def div_even_def)

text \<open>The float after the largest that an integer of 64 bits is converted to: 2 to the 64.\<close>

lemma round_max: "round_mag binary32 1 1 64 = 0x5F800000"
  by (simp add: round_mag_def unit_exp_def scale_def lsb_min_def binary32_def div_even_def)

lemma f32_of_u64_finite: "f32_finite (f32_of_u64 n)"
proof -
  have "real (unat n) < real (2 ^ 64)" using unat_u64_bound [of n] by (simp only: of_nat_less_iff)
  then have "real (unat n) \<le> 2 ^ 64" by simp
  then have "round_mag binary32 (unat n) 1 0 \<le> round_mag binary32 1 1 64"
    by (intro round_mag_mono) (simp_all add: val_def binary32_facts del: of_nat_unat)
  then have "round_mag binary32 (unat n) 1 0 \<le> 0x5F800000" by (simp only: round_max)
  then show ?thesis unfolding f32_finite_def f32_of_u64_unat by simp
qed

text \<open>The quotient of two finite floats without sign, of which the second is larger and not zero.\<close>

lemma f32_div_le_one:
  assumes "f32_finite b" and "unat a \<le> unat b" and "unat b \<noteq> 0"
  shows "unat (f32_div a b) \<le> 0x3F800000"
proof -
  let ?n = "num_of binary32 (unat a)" and ?e = "exp_of binary32 (unat a)"
  let ?m = "num_of binary32 (unat b)" and ?g = "exp_of binary32 (unat b)"
  have fa: "finite_bits binary32 (unat a)" and fb: "finite_bits binary32 (unat b)"
    using assms by (auto simp: f32_finite_bits finite_bits_def)
  have m0: "?m \<noteq> 0"
    using assms(3) div_mult_mod_eq [of "unat b" "2 ^ (prec binary32 - 1)"] by (auto simp: num_of_def Let_def)
  have d: "f32_div a b = word_of_nat (round_mag binary32 ?n ?m (?e - ?g))"
    using m0 by (simp add: f32_div_def f32_op_def lift2_def decode_finite [OF fa] decode_finite [OF fb]
        x_div_def round_exact_def sign_bit_def)
  have "val ?n 1 ?e \<le> val ?m 1 ?g" by (rule value_mono) (rule assms(2))
  then have "val ?n ?m (?e - ?g) \<le> val 1 1 0"
    using m0 by (simp add: val_def power_int_diff field_simps)
  then have "round_mag binary32 ?n ?m (?e - ?g) \<le> round_mag binary32 1 1 0"
    using m0 by (intro round_mag_mono) (simp_all add: binary32_facts)
  then show ?thesis by (simp only: d unat_round round_one)
qed

lemma f32_of_u64_pos: "n \<noteq> 0 \<Longrightarrow> unat (f32_of_u64 n) \<noteq> 0"
proof -
  assume "n \<noteq> 0"
  then have "1 \<le> unat n" using unat_gt_0 [of n] by linarith
  then have "round_mag binary32 1 1 0 \<le> round_mag binary32 (unat n) 1 0"
    by (intro round_mag_mono) (simp_all add: val_def binary32_facts del: of_nat_unat)
  then show ?thesis unfolding f32_of_u64_unat by (simp only: round_one)
qed

end
