(* ===== verification/World_Draw.thy ===== *)
theory World_Draw imports
  World_Bodies
  Float_Order
begin

text \<open>
  What the tick of src/src/client/WorldSystem.cpp draws and sends: where the interpolation puts a body
  and how often the local state is sent.
\<close>

section \<open>The samples around the render time\<close>

lemma surrounding_while:
  "surrounding r b xs =
     (if takeWhile (\<lambda>s. smp_localMs s \<le> r) xs = [] then b else Some (List.last (takeWhile (\<lambda>s. smp_localMs s \<le> r) xs)),
      case dropWhile (\<lambda>s. smp_localMs s \<le> r) xs of [] \<Rightarrow> None | a # _ \<Rightarrow> Some a)"
  by (induction xs arbitrary: b) auto

text \<open>In a sorted window both exist exactly when the render time is within it, and they are neighbours.\<close>

lemma surrounding_within:
  assumes "xs \<noteq> []" and "sorted (map smp_localMs xs)"
    and "smp_localMs (List.hd xs) \<le> r" and "r < smp_localMs (List.last xs)"
  shows "\<exists>i. Suc i < length xs \<and> surrounding r b xs = (Some (xs ! i), Some (xs ! Suc i)) \<and>
    smp_localMs (xs ! i) \<le> r \<and> r < smp_localMs (xs ! Suc i)"
  using assms
proof (induction xs arbitrary: b)
  case (Cons x xs)
  then have "xs \<noteq> []" by auto
  then obtain y ys where xs: "xs = y # ys" by (cases xs) auto
  show ?case
  proof (cases "smp_localMs y \<le> r")
    case True
    with Cons.IH [of "Some x"] Cons.prems xs obtain i where "Suc i < length xs"
      and "surrounding r (Some x) xs = (Some (xs ! i), Some (xs ! Suc i))"
      and "smp_localMs (xs ! i) \<le> r" and "r < smp_localMs (xs ! Suc i)" by auto
    with Cons.prems show ?thesis by (intro exI [of _ "Suc i"]) simp
  next
    case False
    with Cons.prems xs show ?thesis by (intro exI [of _ 0]) simp
  qed
qed simp

lemma surrounding_outside:
  assumes "xs \<noteq> []" and "sorted (map smp_localMs xs)"
    and "\<not> (smp_localMs (List.hd xs) \<le> r \<and> r < smp_localMs (List.last xs))"
  shows "fst (surrounding r None xs) = None \<or> snd (surrounding r None xs) = None"
proof (cases "smp_localMs (List.hd xs) \<le> r")
  case True
  have le: "smp_localMs s \<le> smp_localMs (List.last xs)" if "s \<in> set xs" for s
  proof -
    from that obtain k where k: "k < length xs" "s = xs ! k" by (auto simp: in_set_conv_nth)
    with sorted_nth_mono [OF assms(2), of k "length xs - 1"] assms(1) show ?thesis by (simp add: last_conv_nth)
  qed
  have "smp_localMs s \<le> r" if "s \<in> set xs" for s
    using le [OF that] True assms(3) by auto
  then have d: "dropWhile (\<lambda>s. smp_localMs s \<le> r) xs = []" by (simp add: dropWhile_eq_Nil_conv)
  have "snd (surrounding r None xs) = None" unfolding surrounding_while by (simp only: d snd_conv list.case)
  then show ?thesis ..
next
  case False
  with assms(1) have "takeWhile (\<lambda>s. smp_localMs s \<le> r) xs = []" by (cases xs) auto
  then show ?thesis by (simp add: surrounding_while)
qed

text \<open>The fraction of the way, as a float, is between 0 and 1: the pattern of 1 is an upper bound.\<close>

lemma interpolation_t_bound:
  assumes "smp_localMs before \<le> r" and "r < smp_localMs after"
  shows "unat (interpolation_t r before after) \<le> unat f32_one"
proof -
  have nz: "smp_localMs after - smp_localMs before \<noteq> 0" using assms by auto
  have "unat (r - smp_localMs before) = unat r - unat (smp_localMs before)"
    "unat (smp_localMs after - smp_localMs before) = unat (smp_localMs after) - unat (smp_localMs before)"
    using assms by (simp_all add: unat_sub word_le_nat_alt word_less_nat_alt)
  then have le: "r - smp_localMs before \<le> smp_localMs after - smp_localMs before"
    using assms by (simp add: word_le_nat_alt word_less_nat_alt)
  from f32_div_le_one [OF f32_of_u64_finite f32_of_u64_mono [OF le] f32_of_u64_pos [OF nz]]
  show ?thesis by (simp add: interpolation_t_def f32_one_def)
qed

section \<open>The local state\<close>

lemma HandleDatagram_statesSent [simp]: "m_statesSent (HandleDatagram us d c) = m_statesSent c"
proof -
  have "m_statesSent (client_effect us m c) = m_statesSent c" for m
    by (cases m) (simp_all add: on_ack_def on_event_def on_state_def malformed_def split: prod.splits)
  then show ?thesis by (simp add: HandleDatagram_effect malformed_def split: option.splits)
qed

lemma SendState_count:
  "m_statesSent (snd (SendState os x y z r c)) = m_statesSent c \<or>
   m_statesSent (snd (SendState os x y z r c)) = m_statesSent c + 1"
  by (auto simp: SendState_def client_send_def Let_def split: prod.splits bool.splits option.splits)

lemma SendLocalState_step:
  "ws_net (SendLocalState E os now w) = ws_net w \<and>
     m_lastStateSentMs (SendLocalState E os now w) = m_lastStateSentMs w \<or>
   66 \<le> now - m_lastStateSentMs w \<and> m_lastStateSentMs (SendLocalState E os now w) = now \<and>
     m_statesSent (ws_net (SendLocalState E os now w)) \<in> {m_statesSent (ws_net w), m_statesSent (ws_net w) + 1}"
  using SendState_count by (auto simp: SendLocalState_def kStateSendIntervalMs_def Let_def not_less)

lemma Update_send_step:
  fixes w :: "'e world"
  assumes w'_def: "w' = OnMultiplayerUpdate E os order tk w"
  shows "m_statesSent (ws_net w') = m_statesSent (ws_net w) \<and> m_lastStateSentMs w' = m_lastStateSentMs w \<or>
   66 \<le> tk_nowMs tk - m_lastStateSentMs w \<and> m_lastStateSentMs w' = tk_nowMs tk \<and>
     m_statesSent (ws_net w') \<in> {m_statesSent (ws_net w), m_statesSent (ws_net w) + 1}"
proof -
  let ?f = "\<lambda>w :: 'e world. w\<lparr>m_multiplayerTicks := m_multiplayerTicks w + 1\<rparr>"
  let ?v = "PumpRemotePlayers E order (tk_nowMs tk) (RunTick tk ?f w)"
  have "m_statesSent (ws_net (RunTick tk ?f w)) = m_statesSent (ws_net w)"
    by (rule net_core_fields(4) [OF RunTick_frame(8)]) simp
  then have "m_statesSent (ws_net ?v) = m_statesSent (ws_net w)" "m_lastStateSentMs ?v = m_lastStateSentMs w"
    by (simp_all add: RunTick_frame)
  with SendLocalState_step [of E os "tk_nowMs tk" ?v] show ?thesis
    by (auto simp: w'_def OnMultiplayerUpdate_def)
qed

text \<open>The states sent and the time of the last one, between two points of a run.\<close>

definition send_progress :: "nat \<Rightarrow> 'e world \<Rightarrow> 'e world \<Rightarrow> bool" where
  "send_progress k w w' \<longleftrightarrow> m_statesSent (ws_net w') = m_statesSent (ws_net w) + of_nat k \<and>
     m_lastStateSentMs w \<le> m_lastStateSentMs w' \<and>
     66 * k \<le> unat (m_lastStateSentMs w') - unat (m_lastStateSentMs w)"

lemma send_progress_0 [simp]: "send_progress 0 w w"
  by (simp add: send_progress_def)

lemma send_progress_trans: "send_progress j w w' \<Longrightarrow> send_progress k w' w'' \<Longrightarrow> send_progress (j + k) w w''"
  by (auto simp: send_progress_def word_le_nat_alt)

lemma Update_progress:
  assumes "m_lastStateSentMs w \<le> tk_nowMs tk"
  shows "\<exists>k. send_progress k w (OnMultiplayerUpdate E os order tk w) \<and>
    m_lastStateSentMs (OnMultiplayerUpdate E os order tk w) \<in> {m_lastStateSentMs w, tk_nowMs tk}"
proof -
  let ?w = "OnMultiplayerUpdate E os order tk w"
  have u: "unat (tk_nowMs tk - m_lastStateSentMs w) = unat (tk_nowMs tk) - unat (m_lastStateSentMs w)"
    using assms by (simp add: unat_sub word_le_nat_alt)
  from Update_send_step [OF refl, of E os order tk w] show ?thesis
  proof (elim disjE conjE insertE)
    assume "m_statesSent (ws_net ?w) = m_statesSent (ws_net w)" "m_lastStateSentMs ?w = m_lastStateSentMs w"
    then show ?thesis by (intro exI [of _ 0]) (simp add: send_progress_def)
  next
    assume "m_statesSent (ws_net ?w) = m_statesSent (ws_net w)" "m_lastStateSentMs ?w = tk_nowMs tk"
    with assms show ?thesis by (intro exI [of _ 0]) (simp add: send_progress_def)
  next
    assume "66 \<le> tk_nowMs tk - m_lastStateSentMs w" "m_lastStateSentMs ?w = tk_nowMs tk"
      "m_statesSent (ws_net ?w) = m_statesSent (ws_net w) + 1"
    with assms u show ?thesis by (intro exI [of _ 1]) (simp add: send_progress_def word_le_nat_alt)
  qed simp
qed

lemma world_step_unsent:
  assumes "op_times op = []" and "case op of W_connect _ _ _ \<Rightarrow> False | _ \<Rightarrow> True"
  shows "send_progress 0 w (world_step S op w)"
proof -
  have s: "m_lastStateSentMs w' = m_lastStateSentMs w \<and> m_statesSent (ws_net w') = m_statesSent (ws_net w) \<Longrightarrow>
      send_progress 0 w w'" for w' :: "'a world"
    by (simp add: send_progress_def)
  have k: "m_statesSent (ws_net (RunTick tk f w)) = m_statesSent (ws_net w)" if "tick_counter f" for tk and f :: "'a world \<Rightarrow> 'a world"
    by (rule net_core_fields(4) [OF RunTick_frame(8) [OF that]])
  from assms show ?thesis
    by (cases op) (auto intro!: s simp: OnFrameBegin_def RunTick_frame k OnWorldAttached_def OnWorldDetached_def
        SpawnProp_def SpawnNpc_def TrackSpawned_def DespawnAll_def PostTasksFromThread_def WorldSystem_Disconnect_def
        NetClient_Disconnect_def SetMoveMode_def SetBodyKind_def SetBodyTemplate_def SetInterpolation_def Let_def
        split: prod.splits option.splits)
qed

text \<open>The times of a run are the times of its updates.\<close>

lemma op_times_cases: "op_times op = [] \<or> (\<exists>tk. op = W_update tk \<and> op_times op = [tk_nowMs tk])"
  by (cases op) simp_all

abbreviation keeps_connection :: "world_op \<Rightarrow> bool" where
  "keeps_connection op \<equiv> (case op of W_connect _ _ _ \<Rightarrow> False | _ \<Rightarrow> True)"

lemma world_run_Cons: "world_run S (op # ops) w = world_run S ops (world_step S op w)"
  by (simp add: world_run_def)

text \<open>One operation sends at most once, and then at its time.\<close>

lemma world_step_progress:
  assumes "keeps_connection op" and "sorted (m_lastStateSentMs w # op_times op)"
  shows "\<exists>j. send_progress j w (world_step S op w) \<and>
    (j = 0 \<and> m_lastStateSentMs (world_step S op w) = m_lastStateSentMs w \<or>
     j \<le> 1 \<and> op_times op = [m_lastStateSentMs (world_step S op w)])"
proof (cases "op_times op = []")
  case True
  have t: "m_lastStateSentMs (RunTick tk f w) = m_lastStateSentMs w" if "tick_counter f" for tk and f :: "'a world \<Rightarrow> 'a world"
    by (rule RunTick_frame(6) [OF that])
  from True assms(1) have "m_lastStateSentMs (world_step S op w) = m_lastStateSentMs w"
    by (cases op) (auto simp: t OnFrameBegin_def OnWorldAttached_def OnWorldDetached_def SpawnProp_def SpawnNpc_def
      TrackSpawned_def DespawnAll_def PostTasksFromThread_def WorldSystem_Disconnect_def SetMoveMode_def SetBodyKind_def
      SetBodyTemplate_def SetInterpolation_def Let_def split: prod.splits option.splits)
  with world_step_unsent [OF True assms(1), of w S] show ?thesis by blast
next
  case False
  with op_times_cases [of op] obtain tk where tk: "op = W_update tk" by auto
  let ?w = "OnMultiplayerUpdate (set_engine S) (set_sendto S) (set_snapshots S) tk w"
  have le: "unat (m_lastStateSentMs w) \<le> unat (tk_nowMs tk)" using assms(2) tk by (simp add: word_le_nat_alt)
  then have u: "unat (tk_nowMs tk - m_lastStateSentMs w) = unat (tk_nowMs tk) - unat (m_lastStateSentMs w)"
    by (rule unat_sub [OF word_le_nat_alt [THEN iffD2]])
  from Update_send_step [OF refl, of "set_engine S" "set_sendto S" "set_snapshots S" tk w]
  consider "m_statesSent (ws_net ?w) = m_statesSent (ws_net w)" "m_lastStateSentMs ?w = m_lastStateSentMs w"
    | "m_statesSent (ws_net ?w) = m_statesSent (ws_net w)" "m_lastStateSentMs ?w = tk_nowMs tk"
    | "66 \<le> tk_nowMs tk - m_lastStateSentMs w" "m_lastStateSentMs ?w = tk_nowMs tk"
      "m_statesSent (ws_net ?w) = m_statesSent (ws_net w) + 1" by blast
  then show ?thesis
  proof cases
    case 3
    with le u tk show ?thesis by (intro exI [of _ 1]) (simp add: send_progress_def word_le_nat_alt)
  qed (use le tk in \<open>auto intro!: exI [of _ 0] simp: send_progress_def word_le_nat_alt\<close>)
qed

lemma run_progress:
  assumes "list_all keeps_connection ops" and "sorted (m_lastStateSentMs w # concat (map op_times ops))"
  shows "\<exists>k. send_progress k w (world_run S ops w) \<and>
    m_lastStateSentMs (world_run S ops w) \<le> List.last (m_lastStateSentMs w # concat (map op_times ops))"
  using assms
proof (induction ops arbitrary: w)
  case Nil
  then show ?case by (intro exI [of _ 0]) (simp add: world_run_def)
next
  case (Cons op ops)
  let ?w = "world_step S op w" and ?ts = "concat (map op_times ops)"
  have "sorted (m_lastStateSentMs w # op_times op)" using Cons.prems(2) by (simp add: sorted_append)
  with Cons.prems(1) world_step_progress [of op w S] obtain j where j: "send_progress j w ?w"
    and l: "m_lastStateSentMs ?w = m_lastStateSentMs w \<or> op_times op = [m_lastStateSentMs ?w]" by auto
  have sorted: "sorted (m_lastStateSentMs ?w # ?ts)"
    and last: "List.last (m_lastStateSentMs ?w # ?ts) \<le> List.last (m_lastStateSentMs w # op_times op @ ?ts)"
    using l Cons.prems(2) op_times_cases [of op] by (auto simp: sorted_append)
  from Cons.IH [OF _ sorted] Cons.prems(1) obtain k where k: "send_progress k ?w (world_run S ops ?w)"
    and r: "m_lastStateSentMs (world_run S ops ?w) \<le> List.last (m_lastStateSentMs ?w # ?ts)" by auto
  have "concat (map op_times (op # ops)) = op_times op @ ?ts" by simp
  with send_progress_trans [OF j k] order_trans [OF r last] show ?case by (metis world_run_Cons)
qed

text \<open>From the first time on: one more than what fits.\<close>

lemma run_rate:
  assumes "list_all keeps_connection ops" and "sorted (m_lastStateSentMs w # concat (map op_times ops))"
    and "\<forall>t \<in> set (concat (map op_times ops)). T \<le> t"
  shows "\<exists>k. m_statesSent (ws_net (world_run S ops w)) = m_statesSent (ws_net w) + of_nat k \<and>
    66 * k \<le> unat (List.last (T # concat (map op_times ops))) - unat T + 66"
  using assms
proof (induction ops arbitrary: w)
  case Nil
  then show ?case by (intro exI [of _ 0]) (simp add: world_run_def)
next
  case (Cons op ops)
  let ?w = "world_step S op w" and ?ts = "concat (map op_times ops)"
  have "sorted (m_lastStateSentMs w # op_times op)" using Cons.prems(2) by (simp add: sorted_append)
  with Cons.prems(1) world_step_progress [of op w S] obtain j where j: "send_progress j w ?w"
    and l: "j = 0 \<and> m_lastStateSentMs ?w = m_lastStateSentMs w \<or> j \<le> 1 \<and> op_times op = [m_lastStateSentMs ?w]" by auto
  have sorted: "sorted (m_lastStateSentMs ?w # ?ts)"
    using l Cons.prems(2) op_times_cases [of op] by (auto simp: sorted_append)
  from l show ?case
  proof (elim disjE conjE)
    assume "j = 0" and same: "m_lastStateSentMs ?w = m_lastStateSentMs w"
    with j have sent: "m_statesSent (ws_net ?w) = m_statesSent (ws_net w)" by (simp add: send_progress_def)
    from Cons.IH [OF _ sorted] Cons.prems obtain k where k: "m_statesSent (ws_net (world_run S ops ?w)) = m_statesSent (ws_net ?w) + of_nat k"
      "66 * k \<le> unat (List.last (T # ?ts)) - unat T + 66" by auto
    have "List.last (T # ?ts) \<le> List.last (T # op_times op @ ?ts)" using Cons.prems(3) op_times_cases [of op] by auto
    with k sent show ?thesis by (intro exI [of _ k]) (auto simp: world_run_Cons word_le_nat_alt)
  next
    assume "j \<le> 1" and op: "op_times op = [m_lastStateSentMs ?w]"
    from run_progress [OF _ sorted, of S] Cons.prems(1) obtain k where k: "send_progress k ?w (world_run S ops ?w)"
      and r: "m_lastStateSentMs (world_run S ops ?w) \<le> List.last (m_lastStateSentMs ?w # ?ts)" by auto
    have T: "T \<le> m_lastStateSentMs ?w" using Cons.prems(3) op by simp
    have last: "List.last (T # op_times op @ ?ts) = List.last (m_lastStateSentMs ?w # ?ts)" by (simp add: op)
    have "66 * k \<le> unat (List.last (T # op_times op @ ?ts)) - unat T"
      using k r T unfolding last send_progress_def word_le_nat_alt by linarith
    with send_progress_trans [OF j k] \<open>j \<le> 1\<close> show ?thesis
      by (intro exI [of _ "j + k"]) (simp add: world_run_Cons send_progress_def)
  qed
qed

section \<open>Properties\<close>

text \<open>
  C24: With its window in order, a body is drawn between two neighbouring samples, one not after the
  render time and one after it, at a fraction of the way that never exceeds 1, exactly when the render
  time is within the window. Otherwise, also when every sample is still to come, it is drawn at the
  newest one with no velocity and the frame counts as starved.
\<close>

theorem interpolation_brackets:
  assumes "xs \<noteq> []" and "sorted (map smp_localMs xs)"
  shows "let r = render_time now; newest = List.last xs in
    case interpolate now xs s of (starved, target, velocity) \<Rightarrow>
      if smp_localMs (List.hd xs) \<le> r \<and> r < smp_localMs newest
      then \<not> starved \<and>
        (\<exists>i. let a = xs ! i; b = xs ! Suc i; t = interpolation_t r a b in
          Suc i < length xs \<and> smp_localMs a \<le> r \<and> r < smp_localMs b \<and> unat t \<le> unat f32_one \<and>
          target = s\<lparr>snap_x := lerp (smp_x a) (smp_x b) t, snap_y := lerp (smp_y a) (smp_y b) t,
            snap_z := lerp (smp_z a) (smp_z b) t, snap_rotation := LerpAngleDegrees (smp_rotation a) (smp_rotation b) t\<rparr>)
      else starved \<and> velocity = \<lparr>v3_X = 0, v3_Y = 0, v3_Z = 0\<rparr> \<and>
        target = s\<lparr>snap_x := smp_x newest, snap_y := smp_y newest, snap_z := smp_z newest,
          snap_rotation := smp_rotation newest\<rparr>"
proof -
  let ?r = "render_time now"
  show ?thesis
  proof (cases "smp_localMs (List.hd xs) \<le> ?r \<and> ?r < smp_localMs (List.last xs)")
    case True
    with surrounding_within [OF assms, of ?r None] obtain i where i: "Suc i < length xs"
      "surrounding ?r None xs = (Some (xs ! i), Some (xs ! Suc i))"
      "smp_localMs (xs ! i) \<le> ?r" "?r < smp_localMs (xs ! Suc i)" by blast
    then have "smp_localMs (xs ! i) < smp_localMs (xs ! Suc i)" by simp
    with True i interpolation_t_bound [OF i(3,4)] show ?thesis
      by (auto simp: interpolate_def Let_def intro!: exI [of _ i])
  next
    case False
    from surrounding_outside [OF assms False] False show ?thesis
      by (auto simp: interpolate_def Let_def split: prod.splits option.splits)
  qed
qed

theorem interpolation_brackets_witness:
  "let smp = (\<lambda>ms x. \<lparr>smp_localMs = ms, smp_x = x, smp_y = 0, smp_z = 0, smp_rotation = 0\<rparr>)
   in \<not> fst (interpolate 1133 [smp 1000 0, smp 1066 f32_one] RemoteSnapshot_default) \<and>
      fst (interpolate 1090 [smp 1000 0, smp 1066 f32_one] RemoteSnapshot_default)"
  using interpolation_brackets [of "let smp = (\<lambda>ms x. \<lparr>smp_localMs = ms, smp_x = x, smp_y = 0, smp_z = 0, smp_rotation = 0\<rparr>)
      in [smp 1000 0, smp 1066 f32_one]" 1133 RemoteSnapshot_default]
    interpolation_brackets [of "let smp = (\<lambda>ms x. \<lparr>smp_localMs = ms, smp_x = x, smp_y = 0, smp_z = 0, smp_rotation = 0\<rparr>)
      in [smp 1000 0, smp 1066 f32_one]" 1090 RemoteSnapshot_default]
  by (simp add: Let_def render_time_def kInterpolationDelayMs_def split: prod.splits)

text \<open>A game that always has a player away from the origin, and a client that is connected.\<close>

definition walker :: "DynamicEntitySpec list setting" where
  "walker = test_setting\<lparr>set_engine := test_engine\<lparr>en_PlayerSystem := \<lambda>_. True, en_LocalPlayer := \<lambda>_. Some 1,
     en_WorldPosition := \<lambda>_ _. \<lparr>vec_X = f32_one, vec_Y = 0, vec_Z = 0, vec_W = 0\<rparr>\<rparr>\<rparr>"

definition online_client :: NetClient where
  "online_client = fresh_client\<lparr>m_state := Connected, m_socket := \<lparr>m_handle = 5, m_open = True\<rparr>\<rparr>"

lemma SendState_online:
  assumes "m_state c = Connected"
  shows "m_state (snd (SendState os x y z r c)) = Connected" and "m_tasks (snd (SendState os x y z r c)) = m_tasks c"
    and "m_statesSent (snd (SendState os x y z r c)) = m_statesSent c + 1"
proof -
  let ?st = "\<lparr>ps_tick = m_stateTick c + 1, ps_position = \<lparr>vx = x, vy = y, vz = z\<rparr>, ps_rotation = r\<rparr>"
  have "fst (Encode PlayerState_T ?st)" by (simp add: player_state.Encode_iff kMaxDatagram_def)
  then obtain d where "Encode PlayerState_T ?st = (True, d)" by (cases "Encode PlayerState_T ?st") auto
  then show "m_state (snd (SendState os x y z r c)) = Connected" and "m_tasks (snd (SendState os x y z r c)) = m_tasks c"
    and "m_statesSent (snd (SendState os x y z r c)) = m_statesSent c + 1"
    using assms by (simp_all add: SendState_def client_send_def Let_def split: prod.splits bool.splits option.splits)
qed

lemma one_not_zero: "\<not> f32_is_zero f32_one"
  by (simp add: f32_is_zero_def f32_one_def decode_def binary32_def x_is_zero_def)

lemma walker_update:
  assumes "m_bodies w = []" "m_events (ws_net w) = []" "m_tasks (ws_net w) = []" and "m_state (ws_net w) = Connected"
  shows "let w' = world_step walker (W_update (test_tick ms)) w; late = 66 \<le> ms - m_lastStateSentMs w in
    m_bodies w' = [] \<and> m_events (ws_net w') = [] \<and> m_tasks (ws_net w') = [] \<and> m_state (ws_net w') = Connected \<and>
    m_lastStateSentMs w' = (if late then ms else m_lastStateSentMs w) \<and>
    m_statesSent (ws_net w') = m_statesSent (ws_net w) + (if late then 1 else 0)"
  using assms
  by (cases w) (simp add: Let_def OnMultiplayerUpdate_def RunTick_def tick_enter_def tick_own_def tick_ran_def tick_leave_def
    drain_tasks_def Drain_def Drain_take_def PumpRemotePlayers_def TakeEvents_def test_tick_def SendLocalState_def GetPlayerPosition_def
    GetLocalPlayer_def walker_def test_engine_def test_setting_def kStateSendIntervalMs_def SendState_online one_not_zero not_less)

lemma walker_run:
  "m_statesSent (ws_net (world_run walker (map (\<lambda>ms. W_update (test_tick ms)) [1000, 1016, 1033, 1050, 1066])
      (mk_WorldSystem [] online_client))) = 2"
proof -
  let ?w0 = "mk_WorldSystem ([] :: DynamicEntitySpec list) online_client"
  let ?u = "\<lambda>ms. world_step walker (W_update (test_tick ms))"
  note st = walker_update [unfolded Let_def]
  have 0: "m_bodies ?w0 = []" "m_events (ws_net ?w0) = []" "m_tasks (ws_net ?w0) = []" "m_state (ws_net ?w0) = Connected"
    "m_lastStateSentMs ?w0 = 0" "m_statesSent (ws_net ?w0) = 0"
    by (simp_all add: mk_WorldSystem_def online_client_def fresh_client_def mk_NetClient_def)
  note 1 = st [OF 0(1-4), of 1000, simplified 0]
  note 2 = st [of "?u 1000 ?w0" 1016, simplified 1]
  note 3 = st [of "?u 1016 (?u 1000 ?w0)" 1033, simplified 2]
  note 4 = st [of "?u 1033 (?u 1016 (?u 1000 ?w0))" 1050, simplified 3]
  note 5 = st [of "?u 1050 (?u 1033 (?u 1016 (?u 1000 ?w0)))" 1066, simplified 4]
  show ?thesis using 5 by (simp add: world_run_def del: world_step.simps)
qed

text \<open>
  C27: However often the game updates, the local state is sent at most once in 66 ms: over any stretch of
  a run, with the clock monotonic and the connection not replaced, the number of states sent is at most
  one more than its length divided by 66 ms.
\<close>

theorem send_rate:
  assumes "list_all (\<lambda>op. case op of W_connect _ _ _ \<Rightarrow> False | _ \<Rightarrow> True) ops"
    and "sorted (m_lastStateSentMs w # concat (map op_times ops))" and "concat (map op_times ops) \<noteq> []"
  shows "66 * unat (m_statesSent (ws_net (world_run S ops w)) - m_statesSent (ws_net w)) \<le>
    unat (List.last (concat (map op_times ops))) - unat (List.hd (concat (map op_times ops))) + 66"
proof -
  let ?ts = "concat (map op_times ops)"
  obtain T ts where ts: "?ts = T # ts" using assms(3) by (cases ?ts) auto
  with assms(2) have "\<forall>t \<in> set ?ts. T \<le> t" by simp
  from run_rate [OF assms(1,2) this, of S] obtain k where
    k: "m_statesSent (ws_net (world_run S ops w)) = m_statesSent (ws_net w) + of_nat k"
    "66 * k \<le> unat (List.last (T # ?ts)) - unat T + 66" by blast
  have "unat (of_nat k :: u64) \<le> k" by (simp add: unsigned_of_nat take_bit_nat_less_eq_self)
  with k show ?thesis by (simp add: ts)
qed

theorem send_rate_witness:
  "let w' = world_run walker (map (\<lambda>ms. W_update (test_tick ms)) [1000, 1016, 1033, 1050, 1066]) (mk_WorldSystem [] online_client)
   in m_statesSent (ws_net w') = 2 \<and> 66 * unat (m_statesSent (ws_net w') - m_statesSent online_client) \<le> 132"
  using walker_run
    send_rate [of "map (\<lambda>ms. W_update (test_tick ms)) [1000, 1016, 1033, 1050, 1066]" "mk_WorldSystem [] online_client" walker]
  by (simp add: test_tick_def mk_WorldSystem_def)

end
