(* ===== verification/Client_Server.thy ===== *)
theory Client_Server imports
  Server_Main
  World_Draw
begin

text \<open>
  What the server sends, and where it has it from: the server's half of the whole system, which is put
  together in Client_System. Every datagram of the server parses as a message to a client; each notice
  of a join, a leave or a state is about the owner of a player id, the name and the endpoint that said
  hello, and what it says of him he said.
\<close>

section \<open>What the datagrams say\<close>

lemma parse_acks: "\<exists>a. parse (ack_bytes r) = Some (M_HelloAck a)"
proof -
  let ?a = "\<lparr>ack_accepted = (r = Accepted \<or> r = AlreadyJoined), ack_version = kVersion,
     ack_reason = (if r = Accepted \<or> r = AlreadyJoined then [] else JoinResult_ToString r)\<rparr>"
  have "length (ack_reason ?a) \<le> 256" by (cases r) simp_all
  then have ok: "message_ok (M_HelloAck ?a)" by (simp add: message_ok_def name_ok_def)
  have "Encode_message (M_HelloAck ?a) = (True, ack_bytes r)"
    by (cases r) (simp_all add: ack_bytes_def hello_ack.Encode_iff kMaxDatagram_def)
  from parse_Encode [OF ok this] show ?thesis by blast
qed

lemma parse_pong: "parse (pong_bytes t) = Some (M_Pong \<lparr>pong_sentAt = t\<rparr>)"
  by (rule parse_Encode) (simp_all add: message_ok_def name_ok_def pong_bytes_def pong.Encode_iff kMaxDatagram_def)

lemma parse_left: "parse (left_bytes p) = Some (M_NotifyPlayerLeft \<lparr>npl_playerId = p\<rparr>)"
  by (rule parse_Encode) (simp_all add: message_ok_def name_ok_def left_bytes_def notify_left.Encode_iff kMaxDatagram_def)

lemma parse_joined:
  "name_ok u \<Longrightarrow> parse (joined_bytes p u) = Some (M_NotifyPlayerJoined \<lparr>npj_playerId = p, npj_username = u\<rparr>)"
  by (rule parse_Encode)
    (simp_all add: message_ok_def name_ok_def joined_bytes_def notify_joined.Encode_iff kMaxDatagram_def)

lemma parse_relay:
  "parse (relay_bytes p st) = Some (M_NotifyPlayerState \<lparr>nps_playerId = p, nps_tick = ps_tick st,
     nps_position = ps_position st, nps_rotation = ps_rotation st\<rparr>)"
  using parse_state_bytes [of "\<lparr>nps_playerId = p, nps_tick = ps_tick st,
     nps_position = ps_position st, nps_rotation = ps_rotation st\<rparr>"]
  by (simp add: state_bytes_def relay_bytes_def)

text \<open>What the server takes a datagram for is what it parses to.\<close>

lemma parse_server:
  assumes "PeekHeader d Header_default = (True, h)"
  shows "hdr_type h = Type_Hello \<Longrightarrow> Decode Hello_T d Hello_default = (True, x) \<Longrightarrow> parse d = Some (M_Hello x)"
    and "hdr_type h = Type_PlayerState \<Longrightarrow> Decode PlayerState_T d PlayerState_default = (True, y) \<Longrightarrow>
      parse d = Some (M_PlayerState y)"
  using assms by (simp_all add: parse_def Decode_as_def decoded_def)

section \<open>Where what the server sends comes from\<close>

text \<open>
  The owners: the rows the session list ever had, which player id was given, under which name, to which
  endpoint. \<open>said e m\<close> stands for: the endpoint sent a datagram that says \<open>m\<close>. What the server sends is one of
  the five messages for clients.
\<close>

type_synonym owners = "(PlayerId \<times> string \<times> Endpoint) set"
type_synonym saying = "Endpoint \<Rightarrow> message \<Rightarrow> bool"

definition owned_by_other :: "owners \<Rightarrow> Endpoint \<Rightarrow> PlayerId \<Rightarrow> string \<Rightarrow> Endpoint \<Rightarrow> bool" where
  "owned_by_other G e p u a \<longleftrightarrow> (p, u, a) \<in> G \<and> a \<noteq> e"

definition sourced :: "owners \<Rightarrow> saying \<Rightarrow> Endpoint \<Rightarrow> message \<Rightarrow> bool" where
  "sourced G said e m =
     (case m of
        M_NotifyPlayerState n \<Rightarrow>
          (\<exists>u a st. owned_by_other G e (nps_playerId n) u a \<and> said a (M_PlayerState st) \<and>
             payload n = (ps_tick st, state_args st))
      | M_NotifyPlayerJoined j \<Rightarrow> (\<exists>a. owned_by_other G e (npj_playerId j) (npj_username j) a)
      | M_NotifyPlayerLeft l \<Rightarrow> (\<exists>u a. owned_by_other G e (npl_playerId l) u a)
      | M_HelloAck a \<Rightarrow> True
      | M_Pong t \<Rightarrow> True
      | _ \<Rightarrow> False)"

definition sourced_bytes :: "owners \<Rightarrow> saying \<Rightarrow> Endpoint \<times> u8 list \<Rightarrow> bool" where
  "sourced_bytes G said x = (case parse (snd x) of None \<Rightarrow> False | Some m \<Rightarrow> sourced G said (fst x) m)"

lemma sourced_mono:
  assumes "sourced G said e m" and "G \<subseteq> G'" and "\<And>a m. said a m \<Longrightarrow> said' a m"
  shows "sourced G' said' e m"
  using assms unfolding sourced_def owned_by_other_def
  by (cases m) (simp_all, (metis subsetD assms(3))+)

lemma sourced_bytes_mono:
  "sourced_bytes G said x \<Longrightarrow> G \<subseteq> G' \<Longrightarrow> (\<And>a m. said a m \<Longrightarrow> said' a m) \<Longrightarrow> sourced_bytes G' said' x"
  by (auto simp: sourced_bytes_def intro: sourced_mono split: option.splits)

lemma sourced_type:
  "sourced_bytes G said x \<Longrightarrow> \<exists>m. parse (snd x) = Some m \<and>
     type_of m \<in> {Type_HelloAck, Type_Pong, Type_NotifyPlayerState, Type_NotifyPlayerJoined, Type_NotifyPlayerLeft}"
proof -
  assume x: "sourced_bytes G said x"
  then obtain m where "parse (snd x) = Some m" "sourced G said (fst x) m"
    by (auto simp: sourced_bytes_def split: option.splits)
  then show ?thesis by (cases m) (simp_all add: sourced_def)
qed

lemma sourced_bytes_simps:
  "sourced_bytes G said (e, ack_bytes r)" "sourced_bytes G said (e, pong_bytes t)"
  "sourced_bytes G said (e, left_bytes p) \<longleftrightarrow> (\<exists>u a. owned_by_other G e p u a)"
  "name_ok u \<Longrightarrow> sourced_bytes G said (e, joined_bytes p u) \<longleftrightarrow> (\<exists>a. owned_by_other G e p u a)"
  "sourced_bytes G said (e, relay_bytes p st) \<longleftrightarrow>
     (\<exists>u a st'. owned_by_other G e p u a \<and> said a (M_PlayerState st') \<and>
        (ps_tick st, state_args st) = (ps_tick st', state_args st'))"
  using parse_acks [of r]
  by (auto simp: sourced_bytes_def sourced_def parse_pong parse_left parse_joined parse_relay payload_def state_args_def)

text \<open>What holds of the server: everybody online is an owner who said hello, and all it sent is sourced.\<close>

definition server_sourced :: "owners \<Rightarrow> saying \<Rightarrow> 'b server \<Rightarrow> bool" where
  "server_sourced G said sv \<longleftrightarrow>
     sm_inv (sv_sessions sv) \<and> ids_inv (sv_sessions sv) \<and> set (rows (sv_sessions sv)) \<subseteq> G \<and>
     list_all (sourced_bytes G said) (sv_out sv)"

lemma server_sourced_scripts [simp]: "server_sourced G said (sv\<lparr>sv_scripts := h\<rparr>) = server_sourced G said sv"
  by (simp add: server_sourced_def)

lemma server_sourced_sends:
  "server_sourced G said sv \<Longrightarrow> list_all (sourced_bytes G said) ds \<Longrightarrow> server_sourced G said (sends ds sv)"
  by (simp add: server_sourced_def)

lemma row_in: "s \<in> set (m_sessions m) \<Longrightarrow> (sess_id s, sess_username s, sess_endpoint s) \<in> set (rows m)"
  by (auto simp: rows_def)

lemma left_sourced:
  assumes "server_sourced G said sv" and "(p, u, a) \<in> G" and "a \<notin> sess_endpoint ` set (m_sessions (sv_sessions sv))"
  shows "server_sourced G said (Broadcast NotifyPlayerLeft_T \<lparr>npl_playerId = p\<rparr> p sv)"
  unfolding Broadcast_eq
proof (rule server_sourced_sends [OF assms(1)])
  show "list_all (sourced_bytes G said) (concat (map (\<lambda>s. map (Pair (sess_endpoint s))
      (datagram_of NotifyPlayerLeft_T \<lparr>npl_playerId = p\<rparr>)) (filter (\<lambda>s. sess_id s \<noteq> p) (m_sessions (sv_sessions sv)))))"
    using assms(2,3) by (fastforce simp: list_all_iff datagrams sourced_bytes_simps owned_by_other_def)
qed

lemma erased_endpoint:
  "distinct (map sess_endpoint xs) \<Longrightarrow> i < length xs \<Longrightarrow> sess_endpoint (xs ! i) \<notin> sess_endpoint ` set (erase i xs)"
proof (induction xs arbitrary: i)
  case (Cons x xs)
  then show ?case by (cases i) (auto simp: erase_def, metis image_eqI nth_mem)
qed simp

lemma dropped_sourced:
  assumes "server_sourced G said sv" and "i < length (m_sessions (sv_sessions sv))"
  shows "let s = m_sessions (sv_sessions sv) ! i;
      sv1 = sv\<lparr>sv_sessions := (sv_sessions sv)\<lparr>m_sessions := erase i (m_sessions (sv_sessions sv))\<rparr>\<rparr>
    in server_sourced G said (Broadcast NotifyPlayerLeft_T \<lparr>npl_playerId = sess_id s\<rparr> (sess_id s) sv1)"
  unfolding Let_def
proof (rule left_sourced)
  let ?xs = "m_sessions (sv_sessions sv)"
  show "server_sourced G said (sv\<lparr>sv_sessions := (sv_sessions sv)\<lparr>m_sessions := erase i ?xs\<rparr>\<rparr>)"
    using assms erase_subset [of i "rows (sv_sessions sv)"]
    by (auto simp: server_sourced_def rows_erase intro!: erase_inv erase_ids)
  show "(sess_id (?xs ! i), sess_username (?xs ! i), sess_endpoint (?xs ! i)) \<in> G"
    using assms row_in [of "?xs ! i" "sv_sessions sv"] by (auto simp: server_sourced_def)
  show "sess_endpoint (?xs ! i) \<notin> sess_endpoint `
      set (m_sessions (sv_sessions (sv\<lparr>sv_sessions := (sv_sessions sv)\<lparr>m_sessions := erase i ?xs\<rparr>\<rparr>)))"
    using assms erased_endpoint [of ?xs i] by (simp add: server_sourced_def sm_inv_def)
qed

lemma sweep_sourced: "server_sourced G said sv \<Longrightarrow> server_sourced G said (sweep vt now sv)"
proof (induction vt now sv rule: sweep.induct)
  case (1 vt now sv)
  show ?case
  proof (cases "fst (TakeNextTimedOut now (sv_sessions sv))")
    case None
    then have "TakeNextTimedOut now (sv_sessions sv) = (None, sv_sessions sv)"
      using TakeNextTimedOut_None_same [of now "sv_sessions sv"] by (cases "TakeNextTimedOut now (sv_sessions sv)") auto
    with "1.prems" show ?thesis by (subst sweep.simps) simp
  next
    case (Some s)
    then obtain m where t: "TakeNextTimedOut now (sv_sessions sv) = (Some s, m)"
      by (cases "TakeNextTimedOut now (sv_sessions sv)") auto
    from rows_TakeNextTimedOut [OF t] obtain i where i: "i < length (m_sessions (sv_sessions sv))"
      "s = m_sessions (sv_sessions sv) ! i"
      "m = (sv_sessions sv)\<lparr>m_sessions := erase i (m_sessions (sv_sessions sv))\<rparr>" by auto
    have "server_sourced G said (timed_out_body vt s (sv\<lparr>sv_sessions := m\<rparr>))"
      using dropped_sourced [OF "1.prems" i(1)] i by (simp add: timed_out_body_def Let_def)
    from "1.IH" [OF t [symmetric] refl this] t show ?thesis by (subst sweep.simps) simp
  qed
qed

lemma kick_sourced: "server_sourced G said sv \<Longrightarrow> server_sourced G said (kick_body vt k sv)"
proof (cases "Find_id (pk_playerId k) (sv_sessions sv)")
  case (Some i)
  assume sv: "server_sourced G said sv"
  note f = Find_id_SomeD [OF Some]
  from Some f have r: "snd (Remove (pk_playerId k) (sv_sessions sv)) =
      (sv_sessions sv)\<lparr>m_sessions := erase i (m_sessions (sv_sessions sv))\<rparr>"
    by (simp add: Remove_def Find_id_def split: if_splits)
  show ?thesis
    using dropped_sourced [OF sv conjunct1 [OF f]] f by (simp add: kick_body_def Some r Let_def)
qed (simp add: kick_body_def)

lemma run_kicks_sourced: "server_sourced G said sv \<Longrightarrow> server_sourced G said (run_kicks vt sv)"
proof -
  have "server_sourced G said sv \<Longrightarrow> server_sourced G said (fold (kick_body vt) ks sv)" for ks and sv :: "'a server"
    by (rule fold_inv [where P = "server_sourced G said"]) (rule kick_sourced)
  then show "server_sourced G said sv \<Longrightarrow> server_sourced G said (run_kicks vt sv)"
    by (simp add: run_kicks_def split: prod.splits)
qed

text \<open>A datagram. Its sender is an owner from then on if it was let in.\<close>

lemma HandleHello_sourced:
  assumes sv: "server_sourced G said sv" and d: "Decode Hello_T d Hello_default = (True, h)"
  shows "server_sourced (G \<union> set (rows (sv_sessions (HandleHello vt e d now sv)))) said (HandleHello vt e d now sv)
    \<or> unat (m_nextId (sv_sessions sv)) \<ge> 2 ^ 32 - 1"
proof (cases "unat (m_nextId (sv_sessions sv)) < 2 ^ 32 - 1")
  case bound: True
  let ?old = "m_sessions (sv_sessions sv)"
  obtain r p m where j: "Join e (hello_username h) (hello_version h) now (sv_sessions sv) = (r, p, m)"
    using prod_cases3 by blast
  have inv: "sm_inv (sv_sessions sv)" "ids_inv (sv_sessions sv)" using sv by (simp_all add: server_sourced_def)
  have m: "sm_inv m" "ids_inv m"
    using Join_inv [OF inv(1), of e "hello_username h" "hello_version h" now] Join_ids [OF inv(2) bound, of e "hello_username h" "hello_version h" now] j
    by simp_all
  have old: "list_all (sourced_bytes (G \<union> G') said) (sv_out sv)" for G'
    using sv by (auto simp: server_sourced_def list_all_iff intro: sourced_bytes_mono)
  show ?thesis
  proof (cases "r = Accepted")
    case False
    with HandleHello_refused [OF d j False, of vt] m old show ?thesis
      by (simp add: server_sourced_def sourced_bytes_simps)
  next
    case True
    note j = j [unfolded True]
    show ?thesis
    proof (cases rule: Join_cases [of "hello_version h" e "hello_username h" now "sv_sessions sv"])
      case (accepted s)
      let ?G = "G \<union> set (rows m)"
      have e: "e \<notin> sess_endpoint ` set ?old" using accepted(2) by (simp add: Find_endpoint_None)
      have mine: "(p, hello_username h, e) \<in> ?G" using j accepted by (auto simp: rows_def)
      have "list_all (sourced_bytes ?G said)
          (map (\<lambda>s. (e, joined_bytes (sess_id s) (sess_username s))) ?old)"
        using e inv(1) sv row_in [of _ "sv_sessions sv"]
        by (fastforce simp: list_all_iff sourced_bytes_simps owned_by_other_def server_sourced_def sm_inv_def)
      moreover have "list_all (sourced_bytes ?G said) (map (\<lambda>s. (sess_endpoint s, joined_bytes p (hello_username h))) ?old)"
        using e mine accepted(4) by (auto simp: list_all_iff sourced_bytes_simps owned_by_other_def)
      ultimately show ?thesis
        using HandleHello_accepted [OF inv d j, of vt] m old by (simp add: server_sourced_def sourced_bytes_simps)
    qed (use j in simp_all)
  qed
qed simp

lemma HandlePlayerState_sourced:
  assumes sv: "server_sourced G said sv" and d: "Decode PlayerState_T d PlayerState_default = (True, st)"
    and said: "said e (M_PlayerState st)"
  shows "server_sourced G said (HandlePlayerState e d sv)"
proof (cases "Find_endpoint e (sv_sessions sv)")
  case None
  with sv show ?thesis by (simp add: HandlePlayerState_silent(1))
next
  case (Some i)
  let ?xs = "m_sessions (sv_sessions sv)"
  let ?ds = "map (\<lambda>s. (sess_endpoint s, relay_bytes (sess_id (?xs ! i)) st)) (filter (\<lambda>s. sess_endpoint s \<noteq> e) ?xs)"
  have inv: "distinct (map sess_id ?xs)" "distinct (map sess_endpoint ?xs)"
    using sv by (simp_all add: server_sourced_def sm_inv_def ids_inv_def)
  obtain ok m where a: "ApplyState e (ps_tick st) (fst (state_args st)) (snd (state_args st)) (sv_sessions sv) = (ok, m)"
    by fastforce
  have "rows m = rows (sv_sessions sv)" "m_nextId m = m_nextId (sv_sessions sv)" "m_maxPlayers m = m_maxPlayers (sv_sessions sv)"
    using a rows_ApplyState [of e "ps_tick st" "fst (state_args st)" "snd (state_args st)" "sv_sessions sv"]
      config_simps(4,5) [of e "ps_tick st" "fst (state_args st)" "snd (state_args st)" "sv_sessions sv"] by simp_all
  then have m: "server_sourced G said (sv\<lparr>sv_sessions := m\<rparr>)"
    using sv by (simp add: server_sourced_def sm_inv_rows ids_inv_rows)
  have "(sess_id (?xs ! i), sess_username (?xs ! i), e) \<in> G"
    using Find_endpoint_SomeD [OF Some] row_in [of "?xs ! i" "sv_sessions sv"] sv by (auto simp: server_sourced_def)
  with said have "list_all (sourced_bytes G said) ?ds"
    by (force simp: list_all_iff sourced_bytes_simps owned_by_other_def)
  from server_sourced_sends [OF m this] sv show ?thesis
    by (simp add: HandlePlayerState_known [OF Some d inv] a)
qed

lemma handle_datagram_sourced:
  assumes sv: "server_sourced G said sv" and said: "\<And>m. parse d = Some m \<Longrightarrow> said e m"
    and bound: "unat (m_nextId (sv_sessions sv)) < 2 ^ 32 - 1"
  shows "server_sourced (G \<union> set (rows (sv_sessions (handle_datagram vt now e d sv)))) said (handle_datagram vt now e d sv)"
proof -
  obtain ok h where p: "PeekHeader d Header_default = (ok, h)" by fastforce
  let ?sv = "sv\<lparr>sv_sessions := snd (Touch e now (sv_sessions sv))\<rparr>"
  have up: "server_sourced G said sv' \<Longrightarrow> server_sourced (G \<union> G') said sv'" for sv' :: "'a server" and G'
    by (auto simp: server_sourced_def list_all_iff intro: sourced_bytes_mono)
  have t: "server_sourced G said ?sv"
    using sv by (simp add: server_sourced_def Touch_inv Touch_ids rows_Touch)
  have tr: "server_sourced G said (sv'\<lparr>sv_rejected := n\<rparr>) = server_sourced G said sv'" for sv' :: "'a server" and n G
    by (simp add: server_sourced_def)
  have hello: "server_sourced (G \<union> set (rows (sv_sessions (HandleHello vt e d now ?sv)))) said (HandleHello vt e d now ?sv)"
  proof (cases "fst (Decode Hello_T d Hello_default)")
    case True
    then obtain x where "Decode Hello_T d Hello_default = (True, x)" by (metis prod.collapse)
    from HandleHello_sourced [OF t this, of vt e now] bound show ?thesis by (simp add: config_simps)
  next
    case False
    then obtain x where "Decode Hello_T d Hello_default = (False, x)" by (metis prod.collapse)
    then show ?thesis using up [OF t] by (simp add: HandleHello_def)
  qed
  have ping: "server_sourced G said (HandlePing e d ?sv)"
    using t by (simp add: HandlePing_eq server_sourced_def sourced_bytes_simps)
  have state: "server_sourced G said (HandlePlayerState e d ?sv)" if "ok" "hdr_type h = Type_PlayerState"
  proof (cases "fst (Decode PlayerState_T d PlayerState_default)")
    case True
    then obtain x where x: "Decode PlayerState_T d PlayerState_default = (True, x)" by (metis prod.collapse)
    with p that have "said e (M_PlayerState x)" by (intro said parse_server(2) [of d h]) simp_all
    from HandlePlayerState_sourced [of G said ?sv, OF t x this] show ?thesis .
  next
    case False
    from HandlePlayerState_silent(2) [OF this, of e ?sv] t show ?thesis by simp
  qed
  show ?thesis
    using hello up [OF ping] up [OF state] up [OF t] up [OF sv]
    by (cases ok; cases "hdr_type h") (simp_all add: handle_datagram_def p Let_def tr)
qed

lemma steps_nextId: "steps_to k m m' \<Longrightarrow> unat (m_nextId m') \<le> unat (m_nextId m) + k"
proof -
  have "unat (m_nextId (fold session_step ops m)) \<le> unat (m_nextId m) + length (filter is_Join ops)" for ops
  proof (induction ops arbitrary: m)
    case (Cons op ops)
    show ?case using Cons [of "session_step op m"] session_step_nextId [of op m] by (simp split: if_splits)
  qed simp
  then show "steps_to k m m' \<Longrightarrow> unat (m_nextId m') \<le> unat (m_nextId m) + k"
    unfolding steps_to_def by (fastforce intro: order_trans)
qed

lemma loop_body_sourced:
  assumes "server_sourced G said sv" and "unat (m_nextId (sv_sessions sv)) < 2 ^ 32 - 1"
    and "\<And>r b m. received = Some (r, b) \<Longrightarrow> parse (take (rcv_size r) b) = Some m \<Longrightarrow> said (rcv_from r) m"
  shows "server_sourced (G \<union> set (rows (sv_sessions (loop_body vt (now, received) sv)))) said (loop_body vt (now, received) sv)"
proof -
  let ?sv1 = "sweep vt now sv"
  let ?sv3 = "run_kicks vt (?sv1\<lparr>sv_scripts := ScriptHost_OnTick vt now (sv_sessions ?sv1) (sv_scripts ?sv1)\<rparr>)"
  have s3: "server_sourced G said ?sv3" using assms(1) by (simp add: run_kicks_sourced sweep_sourced)
  have "steps_to 0 (sv_sessions ?sv1) (sv_sessions ?sv3)"
    using run_kicks_steps [of "?sv1\<lparr>sv_scripts := ScriptHost_OnTick vt now (sv_sessions ?sv1) (sv_scripts ?sv1)\<rparr>" vt]
    by simp
  from steps_nextId [OF steps_trans [OF sweep_steps this, of 0]] assms(2) have b: "unat (m_nextId (sv_sessions ?sv3)) < 2 ^ 32 - 1" by simp
  show ?thesis
  proof (cases received)
    case None
    with s3 show ?thesis
      by (auto simp: loop_body_def Let_def server_sourced_def list_all_iff intro: sourced_bytes_mono)
  next
    case (Some x)
    with handle_datagram_sourced [OF s3 _ b, of "take (rcv_size (fst x)) (snd x)" "rcv_from (fst x)" vt now] assms(3) [of "fst x" "snd x"]
    show ?thesis by (cases x) (simp add: loop_body_def Let_def)
  qed
qed

end
