(* ===== verification/Client_System.thy ===== *)
theory Client_System imports
  Client_Server
begin

text \<open>
  The whole system: the server of Server_Main and the clients of Net_Client, joined by the network.

  A datagram may be lost, duplicated and delayed, so what is on its way needs no state of its own: the
  network may at any time deliver, again or for the first time, any datagram that was ever handed to a
  socket, and both programs' models keep these. It does not forge a source address; but some of the
  endpoints may be rogue, that is, run a program of their own and send anything. A client is named by
  the endpoint of its socket; one whose next socket gets another endpoint is another client.
\<close>

section \<open>What a client has came from the server\<close>

text \<open>The datagrams for the server: a header of one of the three types that it handles.\<close>

definition server_bound :: "u8 list \<Rightarrow> bool" where
  "server_bound d \<longleftrightarrow> length d \<le> kMaxDatagram \<and> (\<exists>h. PeekHeader d Header_default = (True, h) \<and>
     hdr_type h \<in> {Type_Hello, Type_Ping, Type_PlayerState})"

lemma Encode_server_bound:
  assumes "Encode_message m = (True, d)" and "type_of m \<in> {Type_Hello, Type_Ping, Type_PlayerState}"
  shows "server_bound d"
proof -
  have "d = enc_Header (header_for m) @ body_of m" using assms(1) by (simp add: Encode_message_eq split: if_splits)
  then have "PeekHeader d Header_default = (True, header_for m)"
    using type_of_real [of m] by (simp add: PeekHeader_True header_for_def Header_default_def)
  moreover have "length d \<le> kMaxDatagram"
    using assms by (cases m) (auto dest: hello.Encode_hd(3) ping.Encode_hd(3) player_state.Encode_hd(3))
  ultimately show ?thesis using assms(2) by (auto simp: server_bound_def header_for_def)
qed

definition event_sourced :: "owners \<Rightarrow> Endpoint \<Rightarrow> RemoteEvent \<Rightarrow> bool" where
  "event_sourced G e ev \<longleftrightarrow>
     (\<exists>u a. owned_by_other G e (ev_playerId ev) u a \<and> (ev_joined ev \<longrightarrow> ev_username ev = u))"

definition snapshot_sourced :: "owners \<Rightarrow> saying \<Rightarrow> Endpoint \<Rightarrow> PlayerId \<Rightarrow> RemoteSnapshot \<Rightarrow> bool" where
  "snapshot_sourced G said e p x \<longleftrightarrow>
     (\<exists>u a st. owned_by_other G e p u a \<and> said a (M_PlayerState st) \<and> x = mk_snapshot (ps_tick st) (state_args st))"

definition client_sourced :: "owners \<Rightarrow> saying \<Rightarrow> Endpoint \<Rightarrow> Endpoint \<Rightarrow> NetClient \<Rightarrow> bool" where
  "client_sourced G said srv e c \<longleftrightarrow>
     m_server c = srv \<and> m_malformed c = 0 \<and> list_all (\<lambda>x. fst x = srv \<and> server_bound (snd x)) (nc_out c) \<and> list_all (event_sourced G e) (m_events c) \<and>
     (\<forall>p x. map_of (m_remote c) p = Some x \<longrightarrow> snapshot_sourced G said e p x)"

lemma client_sourced_mono:
  assumes "client_sourced G said srv e c" and "G \<subseteq> G'" and "\<And>a m. said a m \<Longrightarrow> said' a m"
  shows "client_sourced G' said' srv e c"
proof -
  have "owned_by_other G e p u a \<Longrightarrow> owned_by_other G' e p u a" for p u a
    using assms(2) by (auto simp: owned_by_other_def)
  then show ?thesis using assms
    unfolding client_sourced_def event_sourced_def snapshot_sourced_def list_all_iff by meson
qed

text \<open>An operation that leaves everything but what it sends alone, and sends to the server.\<close>

definition only_sends :: "NetClient \<Rightarrow> NetClient \<Rightarrow> bool" where
  "only_sends c c' \<longleftrightarrow> m_server c' = m_server c \<and> m_events c' = m_events c \<and> m_remote c' = m_remote c \<and>
     m_malformed c' = m_malformed c \<and>
     (\<exists>ds. nc_out c' = nc_out c @ ds \<and> list_all (\<lambda>x. fst x = m_server c \<and> server_bound (snd x)) ds)"

lemma only_sends_simps [simp]:
  "only_sends c c" "only_sends c (c'\<lparr>m_sent := n\<rparr>) = only_sends c c'"
  "only_sends c (c'\<lparr>m_helloAttempts := n\<rparr>) = only_sends c c'" "only_sends c (c'\<lparr>m_stateTick := n\<rparr>) = only_sends c c'"
  "only_sends c (c'\<lparr>m_statesSent := n\<rparr>) = only_sends c c'" "only_sends c (SetError e c') = only_sends c c'"
  "only_sends c (c'\<lparr>m_state := st\<rparr>) = only_sends c c'"
  by (simp_all add: only_sends_def SetError_def)

lemma client_send_only: "only_sends c c' \<Longrightarrow> server_bound d \<Longrightarrow> only_sends c (snd (client_send os d c'))"
  by (auto simp: only_sends_def client_send_def UdpSocket_SendTo_def)

lemma Encode_bound:
  "Encode Hello_T h = (True, d) \<Longrightarrow> server_bound d" "Encode Ping_T p = (True, d) \<Longrightarrow> server_bound d"
  "Encode PlayerState_T st = (True, d) \<Longrightarrow> server_bound d"
  using Encode_server_bound [of "M_Hello h" d] Encode_server_bound [of "M_Ping p" d]
    Encode_server_bound [of "M_PlayerState st" d] by simp_all

lemma send_only:
  "only_sends c (snd (SendHello os c))" "only_sends c (snd (SendPing os us c))"
  "only_sends c (snd (SendState os x y z r c))"
  by (auto simp: SendHello_def SendPing_def SendState_def Let_def Encode_bound intro!: client_send_only split: prod.splits bool.splits)

lemma run_timers_only: "run_timers os now us (c, l) = (go, c', l') \<Longrightarrow> only_sends c c'"
  by (auto simp: run_timers_def Let_def intro: send_only split: NetState.splits if_splits prod.splits)

lemma only_sends_sourced: "only_sends c c' \<Longrightarrow> client_sourced G said srv e c \<Longrightarrow> client_sourced G said srv e c'"
  by (auto simp: only_sends_def client_sourced_def)

lemma only_sends_out: "only_sends c c' \<Longrightarrow> set (nc_out c) \<subseteq> set (nc_out c')"
  by (auto simp: only_sends_def)

lemma HandleDatagram_sourced:
  assumes c: "client_sourced G said srv e c" and d: "sourced_bytes G said (e, d)"
  shows "client_sourced G said srv e (HandleDatagram us d c)"
proof (cases "parse d")
  case None
  with d show ?thesis by (simp add: sourced_bytes_def)
next
  case (Some m)
  with d have src: "sourced G said e m" by (simp add: sourced_bytes_def)
  have "client_sourced G said srv e (client_effect us m c)"
  proof (cases m)
    case (M_NotifyPlayerState n)
    let ?x = "mk_snapshot (nps_tick n) ((vx (nps_position n), vy (nps_position n), vz (nps_position n)), nps_rotation n)"
    have "snapshot_sourced G said e (nps_playerId n) ?x"
      using src by (force simp: M_NotifyPlayerState sourced_def snapshot_sourced_def payload_def)
    moreover have "m_remote (client_effect us m c) = snd (put_snapshot (nps_playerId n) ?x (m_remote c))"
      "m_server (client_effect us m c) = m_server c" "m_malformed (client_effect us m c) = m_malformed c"
      "nc_out (client_effect us m c) = nc_out c" "m_events (client_effect us m c) = m_events c"
      by (simp_all add: M_NotifyPlayerState on_state_def case_prod_beta)
    ultimately show ?thesis
      using c unfolding client_sourced_def by (simp add: put_snapshot_map)
  next
    case (M_NotifyPlayerLeft l)
    with c src show ?thesis
      by (auto simp: on_event_def client_sourced_def sourced_def event_sourced_def delete_conv' split: if_splits)
  next
    case (M_NotifyPlayerJoined j)
    with c src show ?thesis by (auto simp: on_event_def client_sourced_def sourced_def event_sourced_def)
  qed (use c src in \<open>simp_all add: on_ack_def sourced_def client_sourced_def\<close>)
  with Some show ?thesis by (simp add: HandleDatagram_effect)
qed

lemma run_receive_sourced:
  assumes "client_sourced G said srv e c" and "run_receive now us received (c, l) = (c', l')"
    and "\<And>r b. received = Some (r, b) \<Longrightarrow> rcv_from r = srv \<Longrightarrow> sourced_bytes G said (e, take (rcv_size r) b)"
  shows "client_sourced G said srv e c'" "nc_out c' = nc_out c"
proof -
  have m: "client_sourced G said srv e (c\<lparr>m_received := n\<rparr>)" "m_server c = srv" for n
    using assms(1) by (simp_all add: client_sourced_def)
  show "client_sourced G said srv e c'" "nc_out c' = nc_out c"
    using assms m by (auto simp: run_receive_def HandleDatagram_sourced split: option.splits if_splits)
qed

lemma Connect_sourced:
  assumes "client_sourced G said srv e c" and "srv = Loopback aPort" and "NetClient_Connect h aPort name c = (ok, c')"
  shows "client_sourced G said srv e c'" "nc_out c' = nc_out c"
  using assms
  by (auto simp: NetClient_Connect_def NetClient_Disconnect_def SetError_def client_sourced_def Let_def
      split: if_splits prod.splits bool.splits)

section \<open>The system\<close>

record 'b system =
  sy_server :: "'b server"
  sy_client :: "Endpoint \<Rightarrow> NetClient \<times> run_locals"
  sy_polls :: "Endpoint \<Rightarrow> u64 option"
  sy_owners :: owners

definition said_in :: "Endpoint \<Rightarrow> Endpoint set \<Rightarrow> 'b system \<Rightarrow> saying" where
  "said_in srv rogue s a m \<longleftrightarrow>
     a \<in> rogue \<or> (\<exists>d. (srv, d) \<in> set (nc_out (fst (sy_client s a))) \<and> parse d = Some m)"

text \<open>
  The steps: a turn of the server's loop, at any time, with no datagram or with one that its sender did
  send; the two halves of a turn of a client's network thread, the timers and what the poll returns
  (sy_polls holds the time of a turn that polls); and, between any of these, the calls of the game
  thread. The owners grow by the rows of the session list.
\<close>

inductive system_step :: "'b IBackend \<Rightarrow> Endpoint \<Rightarrow> Endpoint set \<Rightarrow> 'b system \<Rightarrow> 'b system \<Rightarrow> bool"
  for vt srv rogue where
  Server_turn:
    "(\<And>r b. received = Some (r, b) \<Longrightarrow> rcv_from r \<in> rogue \<or>
       (srv, take (rcv_size r) b) \<in> set (nc_out (fst (sy_client s (rcv_from r))))) \<Longrightarrow>
     sv' = loop_body vt (now, received) (sy_server s) \<Longrightarrow>
     system_step vt srv rogue s (s\<lparr>sy_server := sv', sy_owners := sy_owners s \<union> set (rows (sv_sessions sv'))\<rparr>)"
| Client_timers:
    "e \<notin> rogue \<Longrightarrow> sy_polls s e = None \<Longrightarrow> run_timers os now us (sy_client s e) = (go, x) \<Longrightarrow>
     system_step vt srv rogue s (s\<lparr>sy_client := (sy_client s)(e := x),
       sy_polls := (sy_polls s)(e := if go then Some now else None)\<rparr>)"
| Client_receive:
    "e \<notin> rogue \<Longrightarrow> sy_polls s e = Some now \<Longrightarrow>
     (\<And>r b. received = Some (r, b) \<Longrightarrow> rcv_from r = srv \<Longrightarrow> (e, take (rcv_size r) b) \<in> set (sv_out (sy_server s))) \<Longrightarrow>
     run_receive now us received (sy_client s e) = x \<Longrightarrow>
     system_step vt srv rogue s (s\<lparr>sy_client := (sy_client s)(e := x), sy_polls := (sy_polls s)(e := None)\<rparr>)"
| Game_SendState:
    "e \<notin> rogue \<Longrightarrow> sy_client s e = (c, l) \<Longrightarrow>
     system_step vt srv rogue s (s\<lparr>sy_client := (sy_client s)(e := (snd (SendState os x y z r c), l))\<rparr>)"
| Game_TakeEvents:
    "e \<notin> rogue \<Longrightarrow> sy_client s e = (c, l) \<Longrightarrow>
     system_step vt srv rogue s (s\<lparr>sy_client := (sy_client s)(e := (snd (TakeEvents c), l))\<rparr>)"
| Game_Disconnect:
    "e \<notin> rogue \<Longrightarrow> sy_client s e = (c, l) \<Longrightarrow>
     system_step vt srv rogue s (s\<lparr>sy_client := (sy_client s)(e := (NetClient_Disconnect c, l)), sy_polls := (sy_polls s)(e := None)\<rparr>)"
| Game_Connect:
    "e \<notin> rogue \<Longrightarrow> sy_client s e = (c, l) \<Longrightarrow> srv = Loopback aPort \<Longrightarrow> NetClient_Connect h aPort name c = (ok, c') \<Longrightarrow>
     system_step vt srv rogue s (s\<lparr>sy_client := (sy_client s)(e := (c', run_start now)), sy_polls := (sy_polls s)(e := None)\<rparr>)"

text \<open>A system that starts: the server before its loop, every client as Connect leaves it.\<close>

definition system_start :: "'b IBackend \<Rightarrow> Endpoint \<Rightarrow> 'b system \<Rightarrow> bool" where
  "system_start vt srv s \<longleftrightarrow>
     srv = Loopback (port srv) \<and> (\<exists>b. sy_server s = server_start vt b) \<and> sy_owners s = {} \<and>
     sy_polls s = (\<lambda>_. None) \<and>
     (\<forall>e. \<exists>h name c now. NetClient_Connect h (port srv) name c = (True, fst (sy_client s e)) \<and> nc_out c = [] \<and>
        snd (sy_client s e) = run_start now)"

inductive system_reach :: "'b IBackend \<Rightarrow> Endpoint \<Rightarrow> Endpoint set \<Rightarrow> nat \<Rightarrow> 'b system \<Rightarrow> bool"
  for vt srv rogue where
  Reach_start: "system_start vt srv s \<Longrightarrow> system_reach vt srv rogue 0 s"
| Reach_step: "system_reach vt srv rogue n s \<Longrightarrow> system_step vt srv rogue s s' \<Longrightarrow> system_reach vt srv rogue (Suc n) s'"

text \<open>The owners: an id belongs to one name at one endpoint, which said so.\<close>

definition owners_ok :: "owners \<Rightarrow> saying \<Rightarrow> PlayerId \<Rightarrow> bool" where
  "owners_ok G said next \<longleftrightarrow>
     (\<forall>p u a. (p, u, a) \<in> G \<longrightarrow> unat p < unat next \<and> (\<exists>h. said a (M_Hello h) \<and> hello_username h = u) \<and>
        (\<forall>u' a'. (p, u', a') \<in> G \<longrightarrow> u' = u \<and> a' = a))"

lemma steps_0_nextId: "steps_to 0 m m' \<Longrightarrow> m_nextId m' = m_nextId m"
proof -
  have "filter is_Join ops = [] \<Longrightarrow> m_nextId (fold session_step ops m) = m_nextId m" for ops
  proof (induction ops arbitrary: m)
    case (Cons op ops)
    then have "m_nextId (session_step op m) = m_nextId m" by (cases op) (simp_all add: sess_simps)
    with Cons show ?case by (simp split: if_splits)
  qed simp
  then show "steps_to 0 m m' \<Longrightarrow> m_nextId m' = m_nextId m" by (auto simp: steps_to_def)
qed

text \<open>A datagram adds at most one row, for its sender, under the next id, with the name that its hello gives.\<close>

lemma rows_snoc:
  "rows (m\<lparr>m_nextId := k, m_sessions := xs @ [s]\<rparr>) =
     rows (m\<lparr>m_nextId := k, m_sessions := xs\<rparr>) @ [(sess_id s, sess_username s, sess_endpoint s)]"
  "rows (m\<lparr>m_nextId := k\<rparr>) = rows m"
  by (simp_all add: rows_def)

lemma handle_datagram_rows:
  assumes "unat (m_nextId (sv_sessions sv)) < 2 ^ 32 - 1"
  shows "let m = sv_sessions sv; m' = sv_sessions (handle_datagram vt now e d sv) in
    (rows m' = rows m \<and> m_nextId m' = m_nextId m) \<or>
    (\<exists>h. parse d = Some (M_Hello h) \<and> rows m' = rows m @ [(m_nextId m, hello_username h, e)] \<and>
       m_nextId m' = m_nextId m + 1)"
proof -
  obtain ok hd where p: "PeekHeader d Header_default = (ok, hd)" by fastforce
  let ?sv = "sv\<lparr>sv_sessions := snd (Touch e now (sv_sessions sv))\<rparr>"
  have state: "rows (sv_sessions (HandlePlayerState e d sv')) = rows (sv_sessions sv') \<and>
      m_nextId (sv_sessions (HandlePlayerState e d sv')) = m_nextId (sv_sessions sv')" for sv' :: "'a server"
  proof -
    have "rows m = rows (sv_sessions sv') \<and> m_nextId m = m_nextId (sv_sessions sv')"
      if "ApplyState e k q r (sv_sessions sv') = (b, m)" for k q r b m
      using rows_ApplyState [of e k q r "sv_sessions sv'"] config_simps(5) [of e k q r "sv_sessions sv'"] that by simp
    then show ?thesis by (auto simp: HandlePlayerState_def Let_def Broadcast_eq split: option.splits prod.splits)
  qed
  have hello: "(rows m' = rows m \<and> m_nextId m' = m_nextId m) \<or>
      (\<exists>h. parse d = Some (M_Hello h) \<and> rows m' = rows m @ [(m_nextId m, hello_username h, e)] \<and>
        m_nextId m' = m_nextId m + 1)"
    if "ok" "hdr_type hd = Type_Hello" and m: "m = sv_sessions ?sv" "m' = sv_sessions (HandleHello vt e d now ?sv)" for m m'
  proof (cases "fst (Decode Hello_T d Hello_default)")
    case False
    then obtain h where "Decode Hello_T d Hello_default = (False, h)" by (metis prod.collapse)
    with m show ?thesis by (simp add: HandleHello_def)
  next
    case True
    then obtain h where h: "Decode Hello_T d Hello_default = (True, h)" by (metis prod.collapse)
    with p that have ph: "parse d = Some (M_Hello h)" by (intro parse_server(1) [of d hd]) simp_all
    obtain r q m1 where j: "Join e (hello_username h) (hello_version h) now m = (r, q, m1)" using prod_cases3 by blast
    have f: "sv_sessions (fold (\<lambda>session sv. if sess_id session = q then sv
        else encode_and_send T (g session) e sv) xs sv') = sv_sessions sv'"
      for T :: "'m msg_traits" and g xs and sv' :: "'a server"
      by (induction xs arbitrary: sv') (simp_all add: encode_and_send_eq)
    have "m' = m1" using m j h by (simp add: HandleHello_def Let_def encode_and_send_eq [of HelloAck_T] Broadcast_eq f)
    with j ph show ?thesis
      by (cases rule: Join_cases [of "hello_version h" e "hello_username h" now m])
        (auto simp: rows_Touch config_simps rows_snoc)
  qed
  show ?thesis
    using hello [OF _ _ refl refl] state [of ?sv]
    by (cases ok; cases "hdr_type hd")
      (simp_all add: handle_datagram_def p Let_def rows_Touch config_simps HandlePing_sessions)
qed

lemma run_kicks_sessions:
  "ids_inv (sv_sessions sv) \<Longrightarrow> sv_sessions (run_kicks vt sv) = (sv_sessions sv)\<lparr>m_sessions :=
     filter (\<lambda>s. sess_id s \<notin> pk_playerId ` set (m_kicks (sv_scripts sv))) (m_sessions (sv_sessions sv))\<rparr>"
  using kicks_sessions [of "sv\<lparr>sv_scripts := snd (TakeKicks (sv_scripts sv))\<rparr>" vt "m_kicks (sv_scripts sv)"]
  by (simp add: run_kicks_def TakeKicks_def)

lemma loop_body_rows:
  assumes "ids_inv (sv_sessions sv)" and "unat (m_nextId (sv_sessions sv)) < 2 ^ 32 - 1"
  shows "let m = sv_sessions sv; m' = sv_sessions (loop_body vt (now, received) sv) in
    (set (rows m') \<subseteq> set (rows m) \<and> m_nextId m' = m_nextId m) \<or>
    (\<exists>h r b. received = Some (r, b) \<and> parse (take (rcv_size r) b) = Some (M_Hello h) \<and>
       set (rows m') \<subseteq> insert (m_nextId m, hello_username h, rcv_from r) (set (rows m)) \<and> m_nextId m' = m_nextId m + 1)"
proof -
  let ?sv1 = "sweep vt now sv"
  let ?sv2 = "?sv1\<lparr>sv_scripts := ScriptHost_OnTick vt now (sv_sessions ?sv1) (sv_scripts ?sv1)\<rparr>"
  let ?sv3 = "run_kicks vt ?sv2"
  have "steps_to 0 (sv_sessions ?sv1) (sv_sessions ?sv3)" using run_kicks_steps [of ?sv2 vt] by simp
  from steps_0_nextId [OF steps_trans [OF sweep_steps this, of 0]]
  have n: "m_nextId (sv_sessions ?sv3) = m_nextId (sv_sessions sv)" by simp
  have i: "ids_inv (sv_sessions ?sv1)" unfolding sweep_sessions by (rule ids_filter [OF assms(1)])
  have "sv_sessions ?sv3 = (sv_sessions ?sv1)\<lparr>m_sessions := filter (\<lambda>s. sess_id s \<notin> pk_playerId ` set (m_kicks (sv_scripts ?sv2)))
      (m_sessions (sv_sessions ?sv1))\<rparr>"
    using run_kicks_sessions [of ?sv2 vt] i by simp
  then have r: "set (rows (sv_sessions ?sv3)) \<subseteq> set (rows (sv_sessions sv))"
    by (auto simp: rows_def sweep_sessions)
  show ?thesis
  proof (cases received)
    case None
    with r n show ?thesis by (simp add: loop_body_def Let_def)
  next
    case (Some x)
    have "loop_body vt (now, received) sv = handle_datagram vt now (rcv_from (fst x)) (take (rcv_size (fst x)) (snd x)) ?sv3"
      by (simp add: loop_body_def Let_def Some case_prod_beta)
    with handle_datagram_rows [of ?sv3 vt now "rcv_from (fst x)" "take (rcv_size (fst x)) (snd x)"] assms(2) n r Some
    show ?thesis by (cases x) (auto simp: Let_def)
  qed
qed

text \<open>What counts as rejected.\<close>

lemma sweep_rejected: "sv_rejected (sweep vt now sv) = sv_rejected sv"
proof (induction vt now sv rule: sweep.induct)
  case (1 vt now sv)
  then show ?case
    by (subst sweep.simps) (auto simp: timed_out_body_def Broadcast_eq Let_def split: prod.splits option.splits)
qed

lemma run_kicks_rejected: "sv_rejected (run_kicks vt sv) = sv_rejected sv"
proof -
  have "sv_rejected (kick_body vt k sv) = sv_rejected sv" for k and sv :: "'a server"
    by (auto simp: kick_body_def Broadcast_eq Let_def split: option.splits)
  then have "sv_rejected (fold (kick_body vt) ks sv) = sv_rejected sv" for ks and sv :: "'a server"
    by (induction ks arbitrary: sv) simp_all
  then show ?thesis by (simp add: run_kicks_def TakeKicks_def)
qed

lemma handle_datagram_rejected: "server_bound d \<Longrightarrow> sv_rejected (handle_datagram vt now e d sv) = sv_rejected sv"
proof -
  have f: "sv_rejected (fold (\<lambda>session sv. if sess_id session = q then sv else encode_and_send T (g session) e sv) xs sv') =
      sv_rejected sv'" for T :: "'m msg_traits" and g xs q and sv' :: "'a server"
    by (induction xs arbitrary: sv') (simp_all add: encode_and_send_eq)
  have "sv_rejected (HandleHello vt e d now sv') = sv_rejected sv'" for sv'
    by (auto simp: HandleHello_def Let_def encode_and_send_eq [of HelloAck_T] Broadcast_eq f split: prod.splits)
  moreover have "sv_rejected (HandlePlayerState e d sv') = sv_rejected sv'" for sv' :: "'a server"
    by (auto simp: HandlePlayerState_def Let_def Broadcast_eq split: option.splits prod.splits)
  moreover have "sv_rejected (HandlePing e d sv') = sv_rejected sv'" for sv' :: "'a server"
    by (simp add: HandlePing_eq)
  ultimately show "server_bound d \<Longrightarrow> sv_rejected (handle_datagram vt now e d sv) = sv_rejected sv"
    by (auto simp: server_bound_def handle_datagram_def)
qed

lemma loop_body_rejected:
  "(\<And>r b. received = Some (r, b) \<Longrightarrow> server_bound (take (rcv_size r) b)) \<Longrightarrow>
   sv_rejected (loop_body vt (now, received) sv) = sv_rejected sv"
  by (cases received) (auto simp: loop_body_def Let_def handle_datagram_rejected run_kicks_rejected sweep_rejected)

definition system_ok :: "Endpoint \<Rightarrow> Endpoint set \<Rightarrow> nat \<Rightarrow> 'b system \<Rightarrow> bool" where
  "system_ok srv rogue n s \<longleftrightarrow>
     (let said = said_in srv rogue s; G = sy_owners s; next = m_nextId (sv_sessions (sy_server s))
      in server_sourced G said (sy_server s) \<and> owners_ok G said next \<and> unat next \<le> Suc n \<and>
         (rogue = {} \<longrightarrow> sv_rejected (sy_server s) = 0) \<and>
         (\<forall>e. e \<notin> rogue \<longrightarrow> client_sourced G said srv e (fst (sy_client s e))))"

lemma owners_ok_mono:
  "owners_ok G said k \<Longrightarrow> (\<And>a m. said a m \<Longrightarrow> said' a m) \<Longrightarrow> owners_ok G said' k"
  unfolding owners_ok_def by meson

lemma owners_ok_subset: "owners_ok G said k \<Longrightarrow> G' \<subseteq> G \<Longrightarrow> owners_ok G' said k"
  unfolding owners_ok_def by (meson subsetD)

lemma owners_ok_insert:
  assumes "owners_ok G said k" and "said a (M_Hello h)" and "unat k' = unat k + 1"
  shows "owners_ok (insert (k, hello_username h, a) G) said k'"
proof -
  have old: "unat p < unat k" if "(p, u, b) \<in> G" for p u b using assms(1) that unfolding owners_ok_def by blast
  then have new: "(k, u, b) \<notin> G" for u b by (metis less_irrefl)
  show ?thesis
    unfolding owners_ok_def assms(3)
  proof (intro allI impI)
    fix p u b
    assume m: "(p, u, b) \<in> insert (k, hello_username h, a) G"
    show "unat p < unat k + 1 \<and> (\<exists>h. said b (M_Hello h) \<and> hello_username h = u) \<and>
        (\<forall>u' a'. (p, u', a') \<in> insert (k, hello_username h, a) G \<longrightarrow> u' = u \<and> a' = b)"
    proof (cases "p = k")
      case True
      with m new assms(2) show ?thesis by auto
    next
      case False
      with m have g: "(p, u, b) \<in> G" by simp
      then have "(\<exists>h. said b (M_Hello h) \<and> hello_username h = u) \<and> (\<forall>u' a'. (p, u', a') \<in> G \<longrightarrow> u' = u \<and> a' = b)"
        using assms(1) unfolding owners_ok_def by blast
      with False old [OF g] show ?thesis by simp
    qed
  qed
qed

lemma server_sourced_mono:
  "server_sourced G said sv \<Longrightarrow> (\<And>a m. said a m \<Longrightarrow> said' a m) \<Longrightarrow> server_sourced G said' sv"
  by (auto simp: server_sourced_def list_all_iff intro: sourced_bytes_mono)

lemma fresh_system:
  "NetClient_Connect (Some 5) 11780 name fresh_client = (True, c0) \<Longrightarrow>
   system_start vt (Loopback 11780) \<lparr>sy_server = server_start vt b, sy_client = (\<lambda>_. (c0, run_start 0)), sy_polls = (\<lambda>_. None), sy_owners = {}\<rparr>"
proof -
  assume c0: "NetClient_Connect (Some 5) 11780 name fresh_client = (True, c0)"
  have "port (Loopback 11780) = 11780" "nc_out fresh_client = []" by (simp_all add: Loopback_def fresh_client_def mk_NetClient_def)
  with c0 show ?thesis
    unfolding system_start_def by (intro conjI allI exI [of _ "Some 5"] exI [of _ name] exI [of _ fresh_client] exI [of _ 0]) auto
qed

lemma Connect_malformed: "NetClient_Connect h aPort name c = (True, c0) \<Longrightarrow> m_malformed c0 = 0"
  by (auto simp: NetClient_Connect_def SetError_def Let_def split: if_splits prod.splits bool.splits)

lemma system_ok_start: "system_start vt srv s \<Longrightarrow> system_ok srv rogue 0 s"
proof -
  assume s: "system_start vt srv s"
  then obtain b where b: "sy_server s = server_start vt b" by (auto simp: system_start_def)
  have "client_sourced G said srv e (fst (sy_client s e))" for G said e
  proof -
    from s have srv: "srv = Loopback (port srv)"
      and "\<exists>h name c now. NetClient_Connect h (port srv) name c = (True, fst (sy_client s e)) \<and> nc_out c = [] \<and>
        snd (sy_client s e) = run_start now"
      unfolding system_start_def by blast+
    then obtain h name c where "NetClient_Connect h (port srv) name c = (True, fst (sy_client s e))" "nc_out c = []" by blast
    note this srv
    with Connect_start [OF this(1)] Connect_malformed [OF this(1)] show ?thesis by (simp add: client_sourced_def)
  qed
  moreover have "sv_out (server_start vt b) = []" "sv_rejected (server_start vt b) = 0" by (simp_all add: server_start_def Let_def)
  ultimately show ?thesis
    using s mk_SessionManager_inv [of kMaxPlayers kTimeoutMs]
    by (simp add: system_ok_def Let_def b server_sourced_def server_start_sessions owners_ok_def system_start_def rows_def)
      (simp add: mk_SessionManager_def)
qed

lemma client_step_ok:
  assumes "system_ok srv rogue n s" and "sy_client s e = (c, l)" and "e \<notin> rogue"
    and "client_sourced (sy_owners s) (said_in srv rogue s) srv e c \<Longrightarrow>
      client_sourced (sy_owners s) (said_in srv rogue s) srv e (fst x) \<and> set (nc_out c) \<subseteq> set (nc_out (fst x))"
  shows "system_ok srv rogue (Suc n) (s\<lparr>sy_client := (sy_client s)(e := x), sy_polls := q\<rparr>)"
    and "system_ok srv rogue (Suc n) (s\<lparr>sy_client := (sy_client s)(e := x)\<rparr>)"
proof -
  have "client_sourced (sy_owners s) (said_in srv rogue s) srv e c"
    using assms(1-3) by (simp add: system_ok_def Let_def) (metis fst_conv)
  note x = assms(4) [OF this]
  have ok: "system_ok srv rogue (Suc n) (s\<lparr>sy_client := (sy_client s)(e := x), sy_polls := q\<rparr>)" for q
  proof -
    let ?s = "s\<lparr>sy_client := (sy_client s)(e := x), sy_polls := q\<rparr>"
    have said: "said_in srv rogue s a m \<Longrightarrow> said_in srv rogue ?s a m" for a m
      using assms(2) x by (auto simp: said_in_def)
    show ?thesis using assms(1,3) x
      by (auto simp: system_ok_def Let_def intro: server_sourced_mono [OF _ said] owners_ok_mono [OF _ said]
          client_sourced_mono [OF _ _ said])
  qed
  then show "system_ok srv rogue (Suc n) (s\<lparr>sy_client := (sy_client s)(e := x), sy_polls := q\<rparr>)" .
  from ok [of "sy_polls s"] show "system_ok srv rogue (Suc n) (s\<lparr>sy_client := (sy_client s)(e := x)\<rparr>)" by simp
qed

lemma server_turn_ok:
  assumes ok: "system_ok srv rogue n s" and n: "Suc n < 2 ^ 32 - 1"
    and r: "\<And>r b. received = Some (r, b) \<Longrightarrow> rcv_from r \<in> rogue \<or>
       (srv, take (rcv_size r) b) \<in> set (nc_out (fst (sy_client s (rcv_from r))))"
    and sv': "sv' = loop_body vt (now, received) (sy_server s)"
  shows "system_ok srv rogue (Suc n) (s\<lparr>sy_server := sv', sy_owners := sy_owners s \<union> set (rows (sv_sessions sv'))\<rparr>)"
proof -
  let ?said = "said_in srv rogue s" and ?G = "sy_owners s" and ?m = "sv_sessions (sy_server s)"
  let ?s = "s\<lparr>sy_server := sv', sy_owners := ?G \<union> set (rows (sv_sessions sv'))\<rparr>"
  have said: "said_in srv rogue ?s = ?said" by (simp add: said_in_def fun_eq_iff)
  have sv: "server_sourced ?G ?said (sy_server s)" and own: "owners_ok ?G ?said (m_nextId ?m)"
    and nx: "unat (m_nextId ?m) \<le> Suc n" and cl: "\<And>e. e \<notin> rogue \<Longrightarrow> client_sourced ?G ?said srv e (fst (sy_client s e))"
    using ok by (simp_all add: system_ok_def Let_def)
  have sent: "?said (rcv_from r) m" if "received = Some (r, b)" "parse (take (rcv_size r) b) = Some m" for r b m
    using r [OF that(1)] that(2) by (auto simp: said_in_def)
  have lt: "unat (m_nextId ?m) < 2 ^ 32 - 1" using nx n by simp
  have "server_sourced (?G \<union> set (rows (sv_sessions sv'))) ?said sv'"
    using loop_body_sourced [OF sv lt sent] sv' by simp
  moreover have "owners_ok (?G \<union> set (rows (sv_sessions sv'))) ?said (m_nextId (sv_sessions sv')) \<and>
      unat (m_nextId (sv_sessions sv')) \<le> Suc (Suc n)"
  proof -
    have "set (rows ?m) \<subseteq> ?G" and "ids_inv ?m" using sv by (simp_all add: server_sourced_def)
    from loop_body_rows [OF this(2) lt, of vt now received] show ?thesis
      unfolding sv' [symmetric] Let_def
    proof (elim disjE exE conjE)
      assume "set (rows (sv_sessions sv')) \<subseteq> set (rows ?m)" "m_nextId (sv_sessions sv') = m_nextId ?m"
      with own nx \<open>set (rows ?m) \<subseteq> ?G\<close> show ?thesis by (simp add: Un_absorb2)
    next
      fix h r b
      assume x: "received = Some (r, b)" "parse (take (rcv_size r) b) = Some (M_Hello h)"
        "set (rows (sv_sessions sv')) \<subseteq> insert (m_nextId ?m, hello_username h, rcv_from r) (set (rows ?m))"
        "m_nextId (sv_sessions sv') = m_nextId ?m + 1"
      have up: "unat (m_nextId ?m + 1) = unat (m_nextId ?m) + 1" using lt by (simp add: unat_word_ariths)
      have sub: "?G \<union> set (rows (sv_sessions sv')) \<subseteq> insert (m_nextId ?m, hello_username h, rcv_from r) ?G"
        using x(3) \<open>set (rows ?m) \<subseteq> ?G\<close> by auto
      from owners_ok_subset [OF owners_ok_insert [OF own sent [OF x(1,2)] up] sub]
      have "owners_ok (?G \<union> set (rows (sv_sessions sv'))) ?said (m_nextId ?m + 1)" .
      with up nx x(4) show ?thesis by simp
    qed
  qed
  moreover have "client_sourced (?G \<union> set (rows (sv_sessions sv'))) ?said srv e (fst (sy_client s e))" if "e \<notin> rogue" for e
    by (rule client_sourced_mono [OF cl [OF that]]) simp_all
  moreover have "rogue = {} \<longrightarrow> sv_rejected sv' = 0"
  proof
    assume none: "rogue = {}"
    have "server_bound (take (rcv_size r) b)" if "received = Some (r, b)" for r b
      using r [OF that] cl [of "rcv_from r"] none by (auto simp: client_sourced_def list_all_iff)
    from loop_body_rejected [OF this, of received vt now "sy_server s"] sv' ok none show "sv_rejected sv' = 0"
      by (simp add: system_ok_def Let_def)
  qed
  ultimately show ?thesis by (simp add: system_ok_def Let_def said)
qed

lemma system_reach_ok: "system_reach vt srv rogue n s \<Longrightarrow> n < 2 ^ 32 - 1 \<Longrightarrow> system_ok srv rogue n s"
proof (induction rule: system_reach.induct)
  case (Reach_step n s s')
  then have ok: "system_ok srv rogue n s" by simp
  from Reach_step.hyps(2) show ?case
  proof cases
    case (Server_turn received sv' now)
    with server_turn_ok [OF ok _ Server_turn(2,3)] Reach_step.prems show ?thesis by simp
  next
    case (Client_timers e os now us go x)
    obtain c l where c: "sy_client s e = (c, l)" by fastforce
    obtain c' l' where x: "x = (c', l')" by fastforce
    from Client_timers(4) c x have "only_sends c c'" by (simp add: run_timers_only)
    with client_step_ok(1) [OF ok c Client_timers(2)] Client_timers(1) x show ?thesis
      by (simp add: only_sends_sourced only_sends_out)
  next
    case (Client_receive e now received us x)
    obtain c l where c: "sy_client s e = (c, l)" by fastforce
    have "sourced_bytes (sy_owners s) (said_in srv rogue s) (e, take (rcv_size r) b)"
      if "received = Some (r, b)" "rcv_from r = srv" for r b
      using ok Client_receive(4) [OF that] by (auto simp: system_ok_def Let_def server_sourced_def list_all_iff)
    note r = run_receive_sourced [OF _ _ this]
    show ?thesis unfolding Client_receive(1)
      by (rule client_step_ok(1) [OF ok c Client_receive(2)])
        (use r Client_receive(5) c in \<open>metis prod.collapse subset_refl\<close>)
  next
    case (Game_SendState e c l os x y z r)
    with client_step_ok(2) [OF ok Game_SendState(3,2)] send_only(3) [of c os x y z r] show ?thesis
      by (simp add: only_sends_sourced only_sends_out)
  next
    case (Game_TakeEvents e c l)
    with client_step_ok(2) [OF ok Game_TakeEvents(3,2)] show ?thesis
      by (simp add: TakeEvents_def client_sourced_def)
  next
    case (Game_Disconnect e c l)
    with client_step_ok(1) [OF ok Game_Disconnect(3,2)] show ?thesis
      by (simp add: NetClient_Disconnect_def client_sourced_def)
  next
    case (Game_Connect e c l aPort h name okc c' now)
    with client_step_ok(1) [OF ok Game_Connect(3,2)] Connect_sourced [OF _ Game_Connect(4,5)] show ?thesis by simp
  qed
qed (simp add: system_ok_start)

section \<open>From one end to the other\<close>

lemma parse_hello: "name_ok u \<Longrightarrow> parse (hello_bytes u) = Some (M_Hello \<lparr>hello_version = kVersion, hello_username = u\<rparr>)"
  by (rule parse_Encode) (simp_all add: message_ok_def name_ok_def hello_bytes_def hello.Encode_iff kMaxDatagram_def)

text \<open>A datagram that parses reaches its handler, with the sender's session touched first.\<close>

lemma handle_parsed:
  "parse d = Some (M_Hello h) \<Longrightarrow> Decode Hello_T d Hello_default = (True, h) \<and>
     handle_datagram vt now e d sv = HandleHello vt e d now (sv\<lparr>sv_sessions := snd (Touch e now (sv_sessions sv))\<rparr>)"
  "parse d = Some (M_PlayerState st) \<Longrightarrow> Decode PlayerState_T d PlayerState_default = (True, st) \<and>
     handle_datagram vt now e d sv = HandlePlayerState e d (sv\<lparr>sv_sessions := snd (Touch e now (sv_sessions sv))\<rparr>)"
  by (auto simp: parse_def handle_datagram_def Decode_as_def decoded_def split: prod.splits if_splits Type.splits)

lemma Touch_stranger: "e \<notin> sess_endpoint ` set (m_sessions m) \<Longrightarrow> snd (Touch e now m) = m"
  by (simp add: Touch_def Find_endpoint_None [THEN iffD2])

lemma fold_datagram_events:
  "m_events (fold (HandleDatagram us) ds c) = m_events c @ concat (map announces ds)"
  by (induction ds arbitrary: c) (simp_all add: HandleDatagram_events)

lemma fold_datagram_state:
  "m_state (fold (HandleDatagram us) ds c) = fold (\<lambda>d s. ack_result s (ack_of (parse d))) ds (m_state c)"
  by (induction ds arbitrary: c) (simp_all add: HandleDatagram_state)

lemma acks_connect:
  assumes "\<forall>d \<in> set ds. ack_of (parse d) = None \<or> ack_accepted (the (ack_of (parse d)))"
  shows "fold (\<lambda>d s. ack_result s (ack_of (parse d))) ds s =
    (if \<exists>d \<in> set ds. ack_of (parse d) \<noteq> None then Connected else s)"
  using assms by (induction ds arbitrary: s) (auto simp: ack_result_def split: option.splits)

lemma ack_bytes_accepted: "ack_of (parse (ack_bytes Accepted)) = Some \<lparr>ack_accepted = True, ack_version = kVersion, ack_reason = []\<rparr>"
proof -
  have "parse (ack_bytes Accepted) = Some (M_HelloAck \<lparr>ack_accepted = True, ack_version = kVersion, ack_reason = []\<rparr>)"
    by (rule parse_Encode) (simp_all add: message_ok_def name_ok_def ack_bytes_def hello_ack.Encode_iff kMaxDatagram_def)
  then show ?thesis by (simp add: ack_of_def)
qed

text \<open>What the datagrams of the server announce to a client.\<close>

definition join_event :: "Session \<Rightarrow> RemoteEvent" where
  "join_event s = \<lparr>ev_joined = True, ev_playerId = sess_id s, ev_username = sess_username s\<rparr>"

definition leave_event :: "PlayerId \<Rightarrow> RemoteEvent" where
  "leave_event p = \<lparr>ev_joined = False, ev_playerId = p, ev_username = []\<rparr>"

lemma announces_server:
  "announces (ack_bytes r) = []" "announces (relay_bytes p st) = []" "announces (pong_bytes t) = []"
  "announces (left_bytes p) = [leave_event p]"
  "name_ok (sess_username s) \<Longrightarrow> announces (joined_bytes (sess_id s) (sess_username s)) = [join_event s]"
  using parse_acks [of r]
  by (auto simp: announces_def parse_relay parse_pong parse_left parse_joined leave_event_def join_event_def)

lemma to_peer_map:
  "to_peer e (map (\<lambda>x. (f x, g x)) xs) = map g (filter (\<lambda>x. f x = e) xs)"
  by (simp add: to_peer_def filter_map comp_def)

lemma to_peer_one:
  "distinct (map f xs) \<Longrightarrow> x \<in> set xs \<Longrightarrow> to_peer (f x) (map (\<lambda>y. (f y, g y)) xs) = [g x]"
  using filter_unique [of f xs x "\<lambda>_. True"] by (simp add: to_peer_map)

text \<open>What the server sent on account of a datagram.\<close>

definition answers :: "'b server \<Rightarrow> 'b server \<Rightarrow> (Endpoint \<times> u8 list) list" where
  "answers sv sv' = drop (length (sv_out sv)) (sv_out sv')"

lemma sweep_appends: "\<exists>ds. sv_out (sweep vt now sv) = sv_out sv @ ds"
  using sweep_tells [of sv "peers sv" vt now] by (auto simp: tells_def)

text \<open>What one sweep tells a peer that survives it.\<close>

lemma sweep_answers:
  assumes "sm_inv (sv_sessions sv)" and "ids_inv (sv_sessions sv)"
    and "s \<in> set (m_sessions (sv_sessions sv))" and "\<not> is_expired now sv s"
  shows "to_peer (sess_endpoint s) (answers sv (sweep vt now sv)) =
    map (left_bytes \<circ> sess_id) (filter (is_expired now sv) (m_sessions (sv_sessions sv)))"
proof -
  obtain ds where "sv_out (sweep vt now sv) = sv_out sv @ ds" using sweep_appends by blast
  with sweep_to_peer [of sv s now vt] assms show ?thesis by (simp add: answers_def sm_inv_def ids_inv_def)
qed

lemma hello_answers:
  assumes inv: "sm_inv (sv_sessions sv)" "ids_inv (sv_sessions sv)"
    and u: "u \<noteq> []" "name_ok u" "u \<notin> sess_username ` set (m_sessions (sv_sessions sv))"
    and e: "e \<notin> sess_endpoint ` set (m_sessions (sv_sessions sv))"
    and room: "Count (sv_sessions sv) < m_maxPlayers (sv_sessions sv)"
  shows "let old = m_sessions (sv_sessions sv); p = m_nextId (sv_sessions sv);
      sv' = handle_datagram vt now e (hello_bytes u) sv
    in answers sv sv' = [(e, ack_bytes Accepted)] @ map (\<lambda>s. (e, joined_bytes (sess_id s) (sess_username s))) old @
         map (\<lambda>s. (sess_endpoint s, joined_bytes p u)) old \<and>
       (p, u, e) \<in> set (rows (sv_sessions sv'))"
proof -
  let ?h = "\<lparr>hello_version = kVersion, hello_username = u\<rparr>"
  note h = handle_parsed(1) [OF parse_hello [OF u(2)], of vt now e sv]
  have t: "sv\<lparr>sv_sessions := snd (Touch e now (sv_sessions sv))\<rparr> = sv" by (simp add: Touch_stranger [OF e])
  show ?thesis
  proof (cases rule: Join_cases [of kVersion e u now "sv_sessions sv"])
    case (accepted s)
    then have j: "Join e (hello_username ?h) (hello_version ?h) now (sv_sessions sv) =
        (Accepted, m_nextId (sv_sessions sv), (sv_sessions sv)\<lparr>m_nextId := m_nextId (sv_sessions sv) + 1,
          m_sessions := m_sessions (sv_sessions sv) @ [s]\<rparr>)" by simp
    from HandleHello_accepted [OF inv conjunct1 [OF h] j, of vt] h t accepted
    show ?thesis by (simp add: Let_def answers_def rows_snoc)
  qed (use u e room in \<open>simp_all add: Find_endpoint_None [symmetric]\<close>)
qed

lemma state_answers:
  assumes inv: "sm_inv (sv_sessions sv)" "ids_inv (sv_sessions sv)"
    and i: "i < Count (sv_sessions sv)" and d: "parse d = Some (M_PlayerState st)"
    and new: "\<not> hasState (m_sessions (sv_sessions sv) ! i) \<or> stateTick (m_sessions (sv_sessions sv) ! i) < ps_tick st"
  shows "let xs = m_sessions (sv_sessions sv); e = sess_endpoint (xs ! i) in
    answers sv (handle_datagram vt now e d sv) =
      map (\<lambda>s. (sess_endpoint s, relay_bytes (sess_id (xs ! i)) st)) (filter (\<lambda>s. sess_endpoint s \<noteq> e) xs)"
proof -
  let ?xs = "m_sessions (sv_sessions sv)"
  let ?e = "sess_endpoint (?xs ! i)" and ?ys = "?xs[i := (?xs ! i)\<lparr>lastSeenMs := now\<rparr>]"
  let ?sv = "sv\<lparr>sv_sessions := snd (Touch ?e now (sv_sessions sv))\<rparr>"
  have il: "i < length ?xs" using i by (simp add: Count_def)
  have eps: "distinct (map sess_endpoint ?xs)" and ids: "distinct (map sess_id ?xs)"
    using inv by (simp_all add: sm_inv_def ids_inv_def)
  obtain j where j: "Find_endpoint ?e (sv_sessions sv) = Some j"
    using Find_endpoint_None [of ?e "sv_sessions sv"] il by fastforce
  then have "j = i" using Find_endpoint_SomeD [OF j] il nth_eq_iff_index_eq [OF eps, of j i] by simp
  with j have f: "Find_endpoint ?e (sv_sessions sv) = Some i" by simp
  then have t: "sv_sessions ?sv = (sv_sessions sv)\<lparr>m_sessions := ?ys\<rparr>" by (simp add: Touch_def)
  have col: "map sess_endpoint ?ys = map sess_endpoint ?xs" "map sess_id ?ys = map sess_id ?xs"
    using il by (simp_all add: map_list_update_same)
  then have f': "Find_endpoint ?e (sv_sessions ?sv) = Some i"
    using Find_endpoint_update [OF f, of "(?xs ! i)\<lparr>lastSeenMs := now\<rparr>"] by (simp add: t)
  note k = HandlePlayerState_known [OF f' conjunct1 [OF handle_parsed(2) [OF d]]]
  have "HandlePlayerState ?e d ?sv = (case ApplyState ?e (ps_tick st) (fst (state_args st)) (snd (state_args st)) (sv_sessions ?sv) of
       (applied, m) \<Rightarrow> if applied
         then sends (map (\<lambda>s. (sess_endpoint s, relay_bytes (sess_id (m_sessions (sv_sessions ?sv) ! i)) st))
                (filter (\<lambda>s. sess_endpoint s \<noteq> ?e) (m_sessions (sv_sessions ?sv)))) (?sv\<lparr>sv_sessions := m\<rparr>)
         else ?sv)"
    by (rule k) (use eps ids t col in simp_all)
  moreover have "fst (ApplyState ?e (ps_tick st) (fst (state_args st)) (snd (state_args st)) (sv_sessions ?sv))"
    using f' new il by (auto simp: ApplyState_def t Let_def)
  moreover have "map (\<lambda>s. (sess_endpoint s, b)) (filter (\<lambda>s. sess_endpoint s \<noteq> ?e) ?ys) =
      map (\<lambda>s. (sess_endpoint s, b)) (filter (\<lambda>s. sess_endpoint s \<noteq> ?e) ?xs)" for b :: "u8 list"
  proof -
    have c: "map (\<lambda>s. (sess_endpoint s, b)) (filter (\<lambda>s. sess_endpoint s \<noteq> ?e) zs) =
        map (\<lambda>a. (a, b)) (filter (\<lambda>a. a \<noteq> ?e) (map sess_endpoint zs))" for zs
      by (simp add: filter_map comp_def)
    show ?thesis using c [of ?ys] c [of ?xs] unfolding col by simp
  qed
  ultimately show ?thesis
    using handle_parsed(2) [OF d, of vt now ?e sv] il
    by (simp add: Let_def answers_def t case_prod_beta)
qed

lemma SendState_bytes:
  assumes "m_state c = Connected" and "m_open (m_socket c)"
  shows "\<exists>d. nc_out (snd (SendState os x y z r c)) = nc_out c @ [(m_server c, d)] \<and>
    parse d = Some (M_PlayerState \<lparr>ps_tick = m_stateTick c + 1, ps_position = \<lparr>vx = x, vy = y, vz = z\<rparr>, ps_rotation = r\<rparr>)"
proof -
  let ?st = "\<lparr>ps_tick = m_stateTick c + 1, ps_position = \<lparr>vx = x, vy = y, vz = z\<rparr>, ps_rotation = r\<rparr>"
  have e: "Encode PlayerState_T ?st = (True, snd (Encode PlayerState_T ?st))"
    by (simp add: player_state.Encode_iff kMaxDatagram_def)
  have "parse (snd (Encode PlayerState_T ?st)) = Some (M_PlayerState ?st)"
    using e by (intro parse_Encode) (simp_all add: message_ok_def name_ok_def)
  moreover have "nc_out (snd (SendState os x y z r c)) = nc_out c @ [(m_server c, snd (Encode PlayerState_T ?st))]"
    using assms by (simp add: SendState_def Let_def client_send_def UdpSocket_SendTo_def)
      (subst e, simp add: client_send_def UdpSocket_SendTo_def)
  ultimately show ?thesis by blast
qed

text \<open>What a world makes of datagrams followed by an update.\<close>

lemma world_datagrams:
  "ws_net (world_run S (map (W_datagram us) ds) w) = fold (HandleDatagram us) ds (ws_net w)"
  "m_bodies (world_run S (map (W_datagram us) ds) w) = m_bodies w"
  by (induction ds arbitrary: w) (simp_all add: world_run_def)

lemma world_bodies_after:
  "fst ` set (m_bodies (world_run S (map (W_datagram us) ds @ [W_update tk]) w)) =
     roster (m_events (ws_net w) @ concat (map announces ds)) (fst ` set (m_bodies w))"
  "m_events (ws_net (world_run S (map (W_datagram us) ds @ [W_update tk]) w)) = []"
proof -
  have "world_run S (xs @ [W_update tk]) w = world_step S (W_update tk) (world_run S xs w)" for xs
    by (simp add: world_run_def)
  with roster_step_world [of "world_run S (map (W_datagram us) ds) w" "W_update tk" S]
  show "fst ` set (m_bodies (world_run S (map (W_datagram us) ds @ [W_update tk]) w)) =
      roster (m_events (ws_net w) @ concat (map announces ds)) (fst ` set (m_bodies w))"
    "m_events (ws_net (world_run S (map (W_datagram us) ds @ [W_update tk]) w)) = []"
    by (simp_all add: abs_bodies_def world_datagrams fold_datagram_events)
qed

lemma roster_joins: "list_all ev_joined es \<Longrightarrow> roster es K = K \<union> ev_playerId ` set es"
  by (induction es arbitrary: K) (auto simp: roster_def)

lemma roster_leaves: "list_all (\<lambda>e. \<not> ev_joined e) es \<Longrightarrow> roster es K = K - ev_playerId ` set es"
  by (induction es arbitrary: K) (auto simp: roster_def)

end
