(* ===== verification/Kick_Chain.thy ===== *)
theory Kick_Chain imports
  Client_System
begin

text \<open>
  A kick, from the script to the players: OnTick of src/src/server/Script.hpp, the queue of
  ScriptHost.cpp and the loop of src/src/server/main.cpp, one turn of which carries it out.
\<close>

lemma set_kicked: "set (kicked online ps) = set online \<inter> set ps"
  by (induction online ps rule: kicked.induct) auto

lemma kicks_of_member:
  assumes "Call_Kick p reason \<in> set cs" and "Find_id p m \<noteq> None"
  shows "p \<in> pk_playerId ` set (kicks_of m cs)"
  using assms by (induction cs) (auto simp: kicks_of_def map_filter_simps split: host_call.splits option.splits)

lemma Find_id_online:
  assumes "ids_inv m" and "p \<in> sess_id ` set (m_sessions m)"
  shows "Find_id p m \<noteq> None"
proof -
  from assms(2) obtain s where s: "s \<in> set (m_sessions m)" "sess_id s = p" by auto
  with assms(1) have "0 < unat p" by (auto simp: ids_inv_def)
  then have "p \<noteq> kInvalidPlayer" by (auto simp: kInvalidPlayer_def)
  then show ?thesis using s by (auto simp: Find_id_def find_if_None)
qed

text \<open>The turn up to its kicks: who is still there, and what each of them is told.\<close>

lemma turn_kicks:
  fixes sv :: "'b server" and vt :: "'b IBackend" and now :: u64
  assumes inv: "sm_inv (sv_sessions sv)" "ids_inv (sv_sessions sv)"
  defines "sv1 \<equiv> sweep vt now sv"
  defines "sv2 \<equiv> sv1\<lparr>sv_scripts := ScriptHost_OnTick vt now (sv_sessions sv1) (sv_scripts sv1)\<rparr>"
  defines "ks \<equiv> m_kicks (sv_scripts sv2)"
  shows "m_sessions (sv_sessions (run_kicks vt sv2)) =
      filter (\<lambda>s. \<not> is_expired now sv s \<and> sess_id s \<notin> pk_playerId ` set ks) (m_sessions (sv_sessions sv))"
    and "\<lbrakk>r \<in> set (m_sessions (sv_sessions sv)); \<not> is_expired now sv r; sess_id r \<notin> pk_playerId ` set ks\<rbrakk> \<Longrightarrow>
      to_peer (sess_endpoint r) (sv_out (run_kicks vt sv2)) = to_peer (sess_endpoint r) (sv_out sv) @
        map (left_bytes \<circ> sess_id) (filter (is_expired now sv) (m_sessions (sv_sessions sv))) @
        map left_bytes (kicked (map sess_id (m_sessions (sv_sessions sv1))) (map pk_playerId ks))"
proof -
  have d: "distinct (map sess_endpoint (m_sessions (sv_sessions sv)))" "distinct (map sess_id (m_sessions (sv_sessions sv)))"
    using inv by (simp_all add: sm_inv_def ids_inv_def)
  have s1: "sv_sessions sv1 = (sv_sessions sv)\<lparr>m_sessions := filter (\<lambda>s. \<not> is_expired now sv s) (m_sessions (sv_sessions sv))\<rparr>"
    unfolding sv1_def by (rule sweep_sessions)
  have i1: "ids_inv (sv_sessions sv1)" unfolding s1 by (rule ids_filter [OF inv(2)])
  show "m_sessions (sv_sessions (run_kicks vt sv2)) =
      filter (\<lambda>s. \<not> is_expired now sv s \<and> sess_id s \<notin> pk_playerId ` set ks) (m_sessions (sv_sessions sv))"
    using run_kicks_sessions [of sv2 vt] i1 by (simp add: sv2_def s1 ks_def conj_commute)
  assume r: "r \<in> set (m_sessions (sv_sessions sv))" "\<not> is_expired now sv r" "sess_id r \<notin> pk_playerId ` set ks"
  let ?sv = "sv2\<lparr>sv_scripts := snd (TakeKicks (sv_scripts sv2))\<rparr>"
  have "to_peer (sess_endpoint r) (sv_out (fold (kick_body vt) ks ?sv)) = to_peer (sess_endpoint r) (sv_out ?sv) @
      map left_bytes (kicked (map sess_id (m_sessions (sv_sessions ?sv))) (map pk_playerId ks))"
    by (rule kicks_to_peer) (use i1 r d in \<open>simp_all add: sv2_def s1 distinct_map_filter\<close>)
  moreover have "to_peer (sess_endpoint r) (sv_out sv1) = to_peer (sess_endpoint r) (sv_out sv) @
      map (left_bytes \<circ> sess_id) (filter (is_expired now sv) (m_sessions (sv_sessions sv)))"
    unfolding sv1_def by (rule sweep_to_peer [OF d r(1,2)])
  ultimately show "to_peer (sess_endpoint r) (sv_out (run_kicks vt sv2)) = to_peer (sess_endpoint r) (sv_out sv) @
        map (left_bytes \<circ> sess_id) (filter (is_expired now sv) (m_sessions (sv_sessions sv))) @
        map left_bytes (kicked (map sess_id (m_sessions (sv_sessions sv1))) (map pk_playerId ks))"
    by (simp add: run_kicks_def TakeKicks_def ks_def) (simp add: sv2_def)
qed

section \<open>Properties\<close>

text \<open>
  C40: A kick takes effect in the turn in which it is asked for. When some backend kicks a player who is
  online in its OnTick, then after the same turn of the loop, whatever datagram it also handles, no
  session has his id, and everybody who was online before the turn and still is has been sent in it that
  he left. (While ids are distinct, and the id counter does not wrap.)
\<close>

theorem kick_same_turn:
  assumes "sm_inv (sv_sessions sv)" and "ids_inv (sv_sessions sv)" and "unat (m_nextId (sv_sessions sv)) < 2 ^ 32 - 1"
    and "b \<in> set (m_backends (sv_scripts (sweep vt now sv)))"
    and "Call_Kick p reason \<in> set (snd (be_OnTick vt now (sv_sessions (sweep vt now sv)) b))"
    and "p \<in> sess_id ` set (m_sessions (sv_sessions sv))"
  shows "let sv' = loop_body vt (now, received) sv; online = sess_id ` set (m_sessions (sv_sessions sv'))
    in p \<notin> online \<and>
       (\<forall>r \<in> set (m_sessions (sv_sessions sv)). sess_id r \<in> online \<longrightarrow>
          left_bytes p \<in> set (to_peer (sess_endpoint r) (answers sv sv')))"
proof -
  let ?xs = "m_sessions (sv_sessions sv)"
  let ?sv1 = "sweep vt now sv"
  let ?sv2 = "?sv1\<lparr>sv_scripts := ScriptHost_OnTick vt now (sv_sessions ?sv1) (sv_scripts ?sv1)\<rparr>"
  let ?sv3 = "run_kicks vt ?sv2" and ?ks = "m_kicks (sv_scripts ?sv2)"
  let ?sv' = "loop_body vt (now, received) sv"
  note tk = turn_kicks [where sv = sv and vt = vt and now = now, OF assms(1,2)]
  have s1: "m_sessions (sv_sessions ?sv1) = filter (\<lambda>s. \<not> is_expired now sv s) ?xs" by (simp add: sweep_sessions)
  have i1: "ids_inv (sv_sessions ?sv1)" unfolding sweep_sessions by (rule ids_filter [OF assms(2)])
  have queued: "p \<in> pk_playerId ` set ?ks" if "p \<in> sess_id ` set (m_sessions (sv_sessions ?sv1))"
  proof -
    let ?calls = "concat (map (snd \<circ> be_OnTick vt now (sv_sessions ?sv1)) (m_backends (sv_scripts ?sv1)))"
    have "Call_Kick p reason \<in> set ?calls" using assms(4,5) by auto
    from kicks_of_member [OF this Find_id_online [OF i1 that]] show ?thesis
      by (auto simp: ScriptHost_OnTick_def dispatch_kicks)
  qed
  have s3: "m_sessions (sv_sessions ?sv3) = filter (\<lambda>s. \<not> is_expired now sv s \<and> sess_id s \<notin> pk_playerId ` set ?ks) ?xs"
    by (rule tk(1))
  have n3: "m_nextId (sv_sessions ?sv3) = m_nextId (sv_sessions sv)"
  proof -
    have "steps_to 0 (sv_sessions ?sv1) (sv_sessions ?sv3)" using run_kicks_steps [of ?sv2 vt] by simp
    from steps_0_nextId [OF steps_trans [OF sweep_steps this, of 0]] show ?thesis by simp
  qed
  obtain ds where out: "sv_out ?sv' = sv_out ?sv3 @ ds"
    and online: "sess_id ` set (m_sessions (sv_sessions ?sv')) \<subseteq>
      insert (m_nextId (sv_sessions sv)) (sess_id ` set (m_sessions (sv_sessions ?sv3)))"
  proof (cases received)
    case None
    then have "?sv' = ?sv3" by (simp add: loop_body_def Let_def)
    with that [of "[]"] show thesis by auto
  next
    case (Some x)
    obtain e d where l: "?sv' = handle_datagram vt now e d ?sv3"
      by (cases x) (auto simp: loop_body_def Let_def Some)
    have "tells (insert e (peers ?sv3)) ?sv3 (handle_datagram vt now e d ?sv3)" by (rule handle_datagram_tells) auto
    then obtain ds where "sv_out ?sv' = sv_out ?sv3 @ ds" by (auto simp: tells_def l)
    moreover have "set (rows (sv_sessions ?sv')) \<subseteq> set (rows (sv_sessions ?sv3)) \<or>
        (\<exists>u. set (rows (sv_sessions ?sv')) \<subseteq> insert (m_nextId (sv_sessions sv), u, e) (set (rows (sv_sessions ?sv3))))"
      using handle_datagram_rows [of ?sv3 vt now e d] assms(3) n3 by (auto simp: l Let_def)
    then have "sess_id ` set (m_sessions (sv_sessions ?sv')) \<subseteq>
        insert (m_nextId (sv_sessions sv)) (sess_id ` set (m_sessions (sv_sessions ?sv3)))"
      by (force simp: rows_def)
    ultimately show thesis by (rule that)
  qed
  have old: "q \<in> sess_id ` set (m_sessions (sv_sessions ?sv3))"
    if "q \<in> sess_id ` set ?xs" "q \<in> sess_id ` set (m_sessions (sv_sessions ?sv'))" for q
  proof -
    have "q \<noteq> m_nextId (sv_sessions sv)" using that(1) assms(2) by (auto simp: ids_inv_def)
    with subsetD [OF online that(2)] show ?thesis by blast
  qed
  have gone: "p \<notin> sess_id ` set (m_sessions (sv_sessions ?sv3))"
    using queued by (auto simp: s3 s1)
  have told: "left_bytes p \<in> set (to_peer (sess_endpoint r) (answers sv ?sv'))"
    if r: "r \<in> set ?xs" "sess_id r \<in> sess_id ` set (m_sessions (sv_sessions ?sv'))" for r
  proof -
    from old [OF _ r(2)] r(1) obtain r' where r': "r' \<in> set ?xs" "\<not> is_expired now sv r'" "sess_id r' \<notin> pk_playerId ` set ?ks"
      "sess_id r' = sess_id r" by (auto simp: s3)
    with r(1) assms(2) have "r' = r" by (auto simp: ids_inv_def distinct_map inj_on_def)
    with r' have c: "\<not> is_expired now sv r" "sess_id r \<notin> pk_playerId ` set ?ks" by simp_all
    from sweep_appends [of vt now sv] obtain a where a: "sv_out ?sv1 = sv_out sv @ a" ..
    from run_kicks_tells [of ?sv2 "peers ?sv2" vt] obtain a' where a': "sv_out ?sv3 = sv_out ?sv2 @ a'" by (auto simp: tells_def)
    have ans: "answers sv ?sv' = a @ a' @ ds" using a a' out by (simp add: answers_def)
    have "to_peer (sess_endpoint r) (a @ a') = map (left_bytes \<circ> sess_id) (filter (is_expired now sv) ?xs) @
        map left_bytes (kicked (map sess_id (m_sessions (sv_sessions ?sv1))) (map pk_playerId ?ks))"
      using tk(2) [OF r(1) c] a a' by simp
    moreover have "p \<in> sess_id ` set (filter (is_expired now sv) ?xs) \<or>
        p \<in> set (kicked (map sess_id (m_sessions (sv_sessions ?sv1))) (map pk_playerId ?ks))"
      using assms(6) queued by (auto simp: set_kicked s1)
    ultimately have "left_bytes p \<in> set (to_peer (sess_endpoint r) (a @ a'))" by (auto simp: image_iff)
    then show ?thesis by (auto simp: ans)
  qed
  show ?thesis using gone old [OF assms(6)] told by (auto simp: Let_def)
qed

text \<open>Two players, the first of whom a script kicks at every tick.\<close>

definition kicker_vt :: "(PlayerId \<times> nat) list IBackend" where
  "kicker_vt = spy_vt\<lparr>be_OnTick := \<lambda>now m b. (b, [Call_Kick 1 ''bye''])\<rparr>"

theorem kick_same_turn_witness:
  "1 \<notin> sess_id ` set (m_sessions (sv_sessions (loop_body kicker_vt (5, None) two_players)))"
proof -
  have "sweep kicker_vt 5 two_players = two_players"
    by (subst sweep.simps) (simp add: TakeNextTimedOut_def expired_def two_players_def Session_default_def)
  then show ?thesis
    using kick_same_turn [OF two_players_inv, of "[]" kicker_vt 5 1 "''bye''" None]
    by (simp add: Let_def kicker_vt_def) (simp add: two_players_def mk_ScriptHost_def Session_default_def)
qed

end
