(* ===== verification/Lua_Backend.thy ===== *)
theory Lua_Backend imports
  Script_Host
  "HOL-Library.Char_ord"
  "HOL-Library.List_Lexorder"
begin

text \<open>
  src/src/server/LuaBackend.cpp: the backend that loads the .lua files of a directory and
  dispatches server events to the handlers they registered.

  The Lua interpreter (sol2) is not part of the program. It is a record of functions, lua_vm: what
  running a file or calling a handler does, given what the script can read of the players, as the
  sequence of API calls the script made and whether it ended in an error. Everything between those
  API calls and the server is modelled: the binding of the API, the handler table, Fire,
  LoadScripts.

  Fire iterates over the vector of handlers of an event. A handler that calls cybermp.on for the
  same event pushes to that vector while it is being iterated; push_back invalidates the iterators
  of the loop and the C++ has no defined behaviour from there on. Such a run is \<^const>\<open>None\<close>.
\<close>

section \<open>The interpreter as a parameter\<close>

text \<open>
  A Lua value as Describe and the binding of cybermp.on look at it: 'h are functions, 'd floating
  point numbers; every other kind of value is seen by its type name alone.
\<close>

datatype ('h, 'd) lua_value =
    Lua_string string
  | Lua_number 'd
  | Lua_boolean bool
  | Lua_function 'h
  | Lua_other string

text \<open>The calls of the API with an effect. Kick carries the id the player table was built for.\<close>

datatype ('h, 'd) api_call =
    Api_log "('h, 'd) lua_value"
  | Api_warn "('h, 'd) lua_value"
  | Api_on string "('h, 'd) lua_value"
  | Api_kick PlayerId "string option"

text \<open>What a script reads: players.count, players.ids, players.find.\<close>

record lua_player =
  lp_id :: PlayerId
  lp_name :: string
  lp_address :: string

record lua_view =
  lv_count :: nat
  lv_ids :: "PlayerId list"
  lv_find :: "PlayerId \<Rightarrow> lua_player option"

text \<open>An event argument is a player id or a time.\<close>

datatype lua_arg = Arg_player PlayerId | Arg_time u64

text \<open>The result of a protected call: the API calls made, the new Lua state, the error if any.\<close>

record ('l, 'h, 'd) lua_vm =
  vm_run_file :: "string \<Rightarrow> lua_view \<Rightarrow> 'l \<Rightarrow> ('h, 'd) api_call list \<times> 'l \<times> string option"
  vm_call :: "'h \<Rightarrow> lua_arg \<Rightarrow> lua_view \<Rightarrow> 'l \<Rightarrow> ('h, 'd) api_call list \<times> 'l \<times> string option"
  vm_format :: "'d \<Rightarrow> string"

record ('l, 'h) LuaBackend =
  m_scriptDir :: string
  m_lua :: 'l
  m_handlers :: "string \<Rightarrow> 'h list option"

section \<open>The API\<close>

definition Describe :: "('l, 'h, 'd) lua_vm \<Rightarrow> ('h, 'd) lua_value \<Rightarrow> string" where
  "Describe vm v =
     (case v of
        Lua_string s \<Rightarrow> s
      | Lua_number d \<Rightarrow> vm_format vm d
      | Lua_boolean b \<Rightarrow> (if b then ''true'' else ''false'')
      | Lua_function _ \<Rightarrow> ''function''
      | Lua_other tn \<Rightarrow> tn)"

fun lua_type_name :: "('h, 'd) lua_value \<Rightarrow> string" where
  "lua_type_name (Lua_string _) = ''string''"
| "lua_type_name (Lua_number _) = ''number''"
| "lua_type_name (Lua_boolean _) = ''boolean''"
| "lua_type_name (Lua_function _) = ''function''"
| "lua_type_name (Lua_other tn) = tn"

definition quoted :: "string \<Rightarrow> string" where
  "quoted s = [char_of (39 :: nat)] @ s @ [char_of (39 :: nat)]"

definition players_find :: "SessionManager \<Rightarrow> PlayerId \<Rightarrow> lua_player option" where
  "players_find m p =
     (case Players_Find p m of
        None \<Rightarrow> None
      | Some i \<Rightarrow> Some \<lparr>lp_id = PlayerView_GetId m i, lp_name = PlayerView_GetUsername m i,
                         lp_address = PlayerView_GetAddress m i\<rparr>)"

definition lua_view_of :: "SessionManager \<Rightarrow> lua_view" where
  "lua_view_of m = \<lparr>lv_count = Players_Count m, lv_ids = Players_Ids m, lv_find = players_find m\<rparr>"

text \<open>BindApi: the effect of one API call on the backend and through the boundary.\<close>

definition api_apply ::
  "('l, 'h, 'd) lua_vm \<Rightarrow> ('h, 'd) api_call \<Rightarrow> ('l, 'h) LuaBackend \<Rightarrow> ('l, 'h) LuaBackend \<times> host_call list" where
  "api_apply vm c b =
     (case c of
        Api_log v \<Rightarrow> (b, [Call_Info (Describe vm v)])
      | Api_warn v \<Rightarrow> (b, [Call_Warn (Describe vm v)])
      | Api_on aEvent aHandler \<Rightarrow>
          (case aHandler of
             Lua_function h \<Rightarrow>
               (b\<lparr>m_handlers := (m_handlers b)(aEvent \<mapsto>
                    (case m_handlers b aEvent of None \<Rightarrow> [] | Some hs \<Rightarrow> hs) @ [h])\<rparr>, [])
           | _ \<Rightarrow> (b, [Call_Error (''cybermp.on('' @ quoted aEvent @
                        ''): second argument must be a function, got '' @ lua_type_name aHandler)]))
      | Api_kick p aReason \<Rightarrow>
          (b, [Call_Kick p (case aReason of None \<Rightarrow> ''kicked by script'' | Some r \<Rightarrow> r)]))"

fun api_apply_all ::
  "('l, 'h, 'd) lua_vm \<Rightarrow> ('h, 'd) api_call list \<Rightarrow> ('l, 'h) LuaBackend \<Rightarrow> ('l, 'h) LuaBackend \<times> host_call list" where
  "api_apply_all vm [] b = (b, [])"
| "api_apply_all vm (c # cs) b =
     (case api_apply vm c b of (b1, out1) \<Rightarrow>
       (case api_apply_all vm cs b1 of (b2, out2) \<Rightarrow> (b2, out1 @ out2)))"

section \<open>Fire and the event callbacks\<close>

text \<open>The loop over the handlers that were in the vector when it started.\<close>

fun fire_loop ::
  "('l, 'h, 'd) lua_vm \<Rightarrow> string \<Rightarrow> lua_arg \<Rightarrow> SessionManager \<Rightarrow> 'h list \<Rightarrow> ('l, 'h) LuaBackend \<Rightarrow>
     (('l, 'h) LuaBackend \<times> host_call list) option" where
  "fire_loop vm aEvent arg m [] b = Some (b, [])"
| "fire_loop vm aEvent arg m (h # hs) b =
     (case vm_call vm h arg (lua_view_of m) (m_lua b) of
        (calls, l', result) \<Rightarrow>
          (case api_apply_all vm calls (b\<lparr>m_lua := l'\<rparr>) of
             (b1, out1) \<Rightarrow>
               if m_handlers b1 aEvent \<noteq> m_handlers b aEvent then None
               else
                 (let err = (case result of None \<Rightarrow> [] | Some e \<Rightarrow> [Call_Error (aEvent @ '' handler: '' @ e)])
                  in case fire_loop vm aEvent arg m hs b1 of
                       None \<Rightarrow> None
                     | Some (b2, out2) \<Rightarrow> Some (b2, out1 @ err @ out2))))"

definition Fire ::
  "('l, 'h, 'd) lua_vm \<Rightarrow> string \<Rightarrow> lua_arg \<Rightarrow> SessionManager \<Rightarrow> ('l, 'h) LuaBackend \<Rightarrow>
     (('l, 'h) LuaBackend \<times> host_call list) option" where
  "Fire vm aEvent arg m b =
     (case m_handlers b aEvent of
        None \<Rightarrow> Some (b, [])
      | Some hs \<Rightarrow> fire_loop vm aEvent arg m hs b)"

definition LuaBackend_OnPlayerJoin where
  "LuaBackend_OnPlayerJoin vm p m b = Fire vm ''playerJoin'' (Arg_player p) m b"

definition LuaBackend_OnPlayerLeave where
  "LuaBackend_OnPlayerLeave vm p m b = Fire vm ''playerLeave'' (Arg_player p) m b"

definition LuaBackend_OnTick where
  "LuaBackend_OnTick vm now m b =
     (if m_handlers b ''tick'' \<noteq> None then Fire vm ''tick'' (Arg_time now) m b else Some (b, []))"

definition LuaBackend_Stop :: "('l, 'h) LuaBackend \<Rightarrow> ('l, 'h) LuaBackend" where
  "LuaBackend_Stop b = b\<lparr>m_handlers := Map.empty\<rparr>"

section \<open>Loading the scripts\<close>

text \<open>
  The directory: None when it does not exist, else its entries with what the iteration asks of
  them (file name, regular file, extension). The files are sorted before any of them runs.
\<close>

record dir_entry =
  de_name :: string
  de_regular :: bool
  de_extension :: string

fun load_loop ::
  "('l, 'h, 'd) lua_vm \<Rightarrow> SessionManager \<Rightarrow> string list \<Rightarrow> nat \<Rightarrow> ('l, 'h) LuaBackend \<Rightarrow>
     ('l, 'h) LuaBackend \<times> nat \<times> host_call list" where
  "load_loop vm m [] loaded b = (b, loaded, [])"
| "load_loop vm m (file # files) loaded b =
     (case vm_run_file vm file (lua_view_of m) (m_lua b) of
        (calls, l', result) \<Rightarrow>
          (case api_apply_all vm calls (b\<lparr>m_lua := l'\<rparr>) of
             (b1, out1) \<Rightarrow>
               (let (loaded1, msg) =
                      (case result of
                         None \<Rightarrow> (Suc loaded, Call_Info (''loaded '' @ file))
                       | Some e \<Rightarrow> (loaded, Call_Error (file @ '': '' @ e)))
                in case load_loop vm m files loaded1 b1 of
                     (b2, loaded2, out2) \<Rightarrow> (b2, loaded2, out1 @ [msg] @ out2))))"

definition script_files :: "dir_entry list \<Rightarrow> string list" where
  "script_files entries =
     sort (map de_name (filter (\<lambda>e. de_regular e \<and> de_extension e = ''.lua'') entries))"

definition LoadScripts ::
  "('l, 'h, 'd) lua_vm \<Rightarrow> dir_entry list option \<Rightarrow> SessionManager \<Rightarrow> ('l, 'h) LuaBackend \<Rightarrow>
     bool \<times> ('l, 'h) LuaBackend \<times> host_call list" where
  "LoadScripts vm dir m b =
     (case dir of
        None \<Rightarrow> (True, b, [Call_Info (''no script directory at '' @ quoted (m_scriptDir b))])
      | Some entries \<Rightarrow>
          (let files = script_files entries
           in case load_loop vm m files 0 b of
                (b', loaded, out) \<Rightarrow>
                  (True, b', out @ [Call_Info (dec_digits loaded @ '' of '' @ dec_digits (length files) @
                                       '' script(s) loaded'')])))"

definition LuaBackend_Start ::
  "('l, 'h, 'd) lua_vm \<Rightarrow> dir_entry list option \<Rightarrow> SessionManager \<Rightarrow> ('l, 'h) LuaBackend \<Rightarrow>
     bool \<times> ('l, 'h) LuaBackend \<times> host_call list" where
  "LuaBackend_Start vm dir m b = LoadScripts vm dir m b"

section \<open>The vtable\<close>

text \<open>
  The state of the backend inside a host: None once a run has left the defined behaviour of the
  C++. From there on nothing is claimed.
\<close>

type_synonym ('l, 'h) lua_state = "('l, 'h) LuaBackend option"

definition lua_event ::
  "(('l, 'h) LuaBackend \<Rightarrow> (('l, 'h) LuaBackend \<times> host_call list) option) \<Rightarrow> ('l, 'h) lua_state \<Rightarrow>
     ('l, 'h) lua_state \<times> host_call list" where
  "lua_event f s =
     (case Option.bind s f of None \<Rightarrow> (None, []) | Some (b, out) \<Rightarrow> (Some b, out))"

definition LuaBackend_vt :: "('l, 'h, 'd) lua_vm \<Rightarrow> dir_entry list option \<Rightarrow> ('l, 'h) lua_state IBackend" where
  "LuaBackend_vt vm dir =
     \<lparr>be_Name = (\<lambda>_. ''lua''),
      be_Start = (\<lambda>m s. case s of None \<Rightarrow> (True, None, [])
                    | Some b \<Rightarrow> (case LuaBackend_Start vm dir m b of (ok, b', out) \<Rightarrow> (ok, Some b', out))),
      be_Stop = (\<lambda>m s. (map_option LuaBackend_Stop s, [])),
      be_OnPlayerJoin = (\<lambda>p m. lua_event (LuaBackend_OnPlayerJoin vm p m)),
      be_OnPlayerLeave = (\<lambda>p m. lua_event (LuaBackend_OnPlayerLeave vm p m)),
      be_OnTick = (\<lambda>now m. lua_event (LuaBackend_OnTick vm now m))\<rparr>"

definition MakeLuaBackend :: "string \<Rightarrow> 'l \<Rightarrow> ('l, 'h) lua_state" where
  "MakeLuaBackend aScriptDir lua0 = Some \<lparr>m_scriptDir = aScriptDir, m_lua = lua0, m_handlers = Map.empty\<rparr>"

section \<open>Lemmas\<close>

text \<open>The functions an API call sequence registers for an event, in order.\<close>

definition registered :: "string \<Rightarrow> ('h, 'd) api_call list \<Rightarrow> 'h list" where
  "registered e cs = List.map_filter (\<lambda>c. case c of
      Api_on e' (Lua_function h) \<Rightarrow> if e' = e then Some h else None | _ \<Rightarrow> None) cs"

definition handlers_of :: "('l, 'h) LuaBackend \<Rightarrow> string \<Rightarrow> 'h list" where
  "handlers_of b e = (case m_handlers b e of None \<Rightarrow> [] | Some hs \<Rightarrow> hs)"

lemma api_apply_handlers:
  "handlers_of (fst (api_apply vm c b)) e = handlers_of b e @ registered e [c]"
  by (auto simp: api_apply_def handlers_of_def registered_def map_filter_simps
      split: api_call.splits lua_value.splits option.splits)

lemma registered_Cons: "registered e (c # cs) = registered e [c] @ registered e cs"
  by (simp add: registered_def map_filter_def)

lemma api_apply_all_fst [simp]:
  "fst (api_apply_all vm (c # cs) b) = fst (api_apply_all vm cs (fst (api_apply vm c b)))"
  by (simp add: case_prod_beta)

declare api_apply_all.simps(2) [simp del]

lemma api_apply_all_handlers:
  "handlers_of (fst (api_apply_all vm cs b)) e = handlers_of b e @ registered e cs"
proof (induction cs arbitrary: b)
  case Nil
  then show ?case by (simp add: registered_def map_filter_simps)
next
  case (Cons c cs)
  show ?case
    using Cons.IH [of "fst (api_apply vm c b)"] api_apply_handlers [of vm c b e] registered_Cons [of e c cs]
    by simp
qed

text \<open>An API call never removes an entry of the table, and adds none without a function.\<close>

lemma api_apply_all_same:
  "registered e cs = [] \<Longrightarrow> m_handlers (fst (api_apply_all vm cs b)) e = m_handlers b e"
proof (induction cs arbitrary: b)
  case (Cons c cs)
  then have "registered e [c] = []" "registered e cs = []"
    using registered_Cons [of e c cs] by simp_all
  moreover from this(1) have "m_handlers (fst (api_apply vm c b)) e = m_handlers b e"
    by (auto simp: api_apply_def registered_def map_filter_simps split: api_call.splits lua_value.splits if_splits)
  ultimately show ?case using Cons.IH [of "fst (api_apply vm c b)"] by simp
qed simp

lemma api_apply_all_dir [simp]: "m_scriptDir (fst (api_apply_all vm cs b)) = m_scriptDir b"
proof (induction cs arbitrary: b)
  case (Cons c cs)
  have "m_scriptDir (fst (api_apply vm c b)) = m_scriptDir b"
    by (simp add: api_apply_def split: api_call.splits lua_value.splits)
  then show ?case using Cons.IH [of "fst (api_apply vm c b)"] by simp
qed simp

text \<open>
  An interpreter in which what a handler or a file does depends on it alone, and whose state records
  what was run.
\<close>

definition recording_vm ::
  "('h \<Rightarrow> ('h, 'd) api_call list) \<Rightarrow> ('h \<Rightarrow> string option) \<Rightarrow> (string \<Rightarrow> ('h, 'd) api_call list) \<Rightarrow>
     (string \<Rightarrow> string option) \<Rightarrow> ('d \<Rightarrow> string) \<Rightarrow> ('h list \<times> string list, 'h, 'd) lua_vm" where
  "recording_vm hcalls herr fcalls ferr fmt =
     \<lparr>vm_run_file = (\<lambda>f v (hs, fs). (fcalls f, (hs, fs @ [f]), ferr f)),
      vm_call = (\<lambda>h a v (hs, fs). (hcalls h, (hs @ [h], fs), herr h)),
      vm_format = fmt\<rparr>"

lemma api_apply_all_lua [simp]: "m_lua (fst (api_apply_all vm cs b)) = m_lua b"
proof (induction cs arbitrary: b)
  case (Cons c cs)
  have "m_lua (fst (api_apply vm c b)) = m_lua b"
    by (simp add: api_apply_def split: api_call.splits lua_value.splits)
  then show ?case using Cons.IH [of "fst (api_apply vm c b)"] by simp
qed simp

text \<open>What an API call sends through the boundary does not depend on the backend.\<close>

definition api_out :: "('l, 'h, 'd) lua_vm \<Rightarrow> ('h, 'd) api_call list \<Rightarrow> host_call list" where
  "api_out vm cs = concat (map (\<lambda>c. snd (api_apply vm c undefined)) cs)"

lemma api_apply_out: "snd (api_apply vm c b) = snd (api_apply vm c b')"
  by (simp add: api_apply_def split: api_call.splits lua_value.splits)

lemma api_apply_all_out: "snd (api_apply_all vm cs b) = api_out vm cs"
proof (induction cs arbitrary: b)
  case (Cons c cs)
  have "snd (api_apply_all vm (c # cs) b) =
      snd (api_apply vm c b) @ snd (api_apply_all vm cs (fst (api_apply vm c b)))"
    by (simp add: api_apply_all.simps case_prod_beta)
  then show ?case using Cons.IH [of "fst (api_apply vm c b)"] api_apply_out [of vm c b undefined]
    by (simp add: api_out_def)
qed (simp add: api_out_def)

definition handler_error :: "string \<Rightarrow> string option \<Rightarrow> host_call list" where
  "handler_error e r = (case r of None \<Rightarrow> [] | Some msg \<Rightarrow> [Call_Error (e @ '' handler: '' @ msg)])"

text \<open>
  Any interpreter, with a state that also records the calls of handlers; and what the handlers do when
  they are called one after the other, each in the state that the one before left.
\<close>

definition logging ::
  "('l, 'h, 'd) lua_vm \<Rightarrow> ('l \<times> ('h \<times> lua_arg \<times> lua_view) list, 'h, 'd) lua_vm" where
  "logging vm =
     \<lparr>vm_run_file = (\<lambda>f v s. case vm_run_file vm f v (fst s) of (cs, l, r) \<Rightarrow> (cs, (l, snd s), r)),
      vm_call = (\<lambda>h a v s. case vm_call vm h a v (fst s) of (cs, l, r) \<Rightarrow> (cs, (l, snd s @ [(h, a, v)]), r)),
      vm_format = vm_format vm\<rparr>"

fun in_turn ::
  "('l, 'h, 'd) lua_vm \<Rightarrow> lua_arg \<Rightarrow> lua_view \<Rightarrow> 'h list \<Rightarrow> 'l \<Rightarrow> (('h, 'd) api_call list \<times> string option) list \<times> 'l" where
  "in_turn vm a v [] l = ([], l)"
| "in_turn vm a v (h # hs) l =
     (case vm_call vm h a v l of
        (cs, l1, r) \<Rightarrow> (case in_turn vm a v hs l1 of (rs, l2) \<Rightarrow> ((cs, r) # rs, l2)))"

lemma api_out_logging: "api_out (logging vm) cs = api_out vm cs"
proof -
  have "Describe (logging vm) v = Describe vm v" for v
    by (simp add: Describe_def logging_def split: lua_value.splits)
  then have "snd (api_apply (logging vm) c undefined) = snd (api_apply vm c undefined)" for c
    by (simp add: api_apply_def split: api_call.splits lua_value.splits)
  then show ?thesis by (simp add: api_out_def)
qed

lemma fire_loop_logging:
  assumes "in_turn vm arg (lua_view_of m) hs (fst (m_lua b)) = (rs, l)"
    and "\<forall>(cs, r) \<in> set rs. registered e cs = []"
  shows "\<exists>b'. fire_loop (logging vm) e arg m hs b = Some (b', concat (map (\<lambda>(cs, r). api_out vm cs @ handler_error e r) rs)) \<and>
    m_lua b' = (l, snd (m_lua b) @ map (\<lambda>h. (h, arg, lua_view_of m)) hs) \<and> m_handlers b' e = m_handlers b e \<and>
    (\<forall>e'. handlers_of b' e' = handlers_of b e' @ concat (map (\<lambda>(cs, r). registered e' cs) rs))"
  using assms
proof (induction hs arbitrary: b rs)
  case (Cons h hs)
  let ?vm = "logging vm" and ?v = "lua_view_of m"
  obtain cs l1 r where c: "vm_call vm h arg ?v (fst (m_lua b)) = (cs, l1, r)" by (metis prod_cases3)
  obtain rs1 l2 where t: "in_turn vm arg ?v hs l1 = (rs1, l2)" by fastforce
  from Cons.prems(1) c t have rs: "rs = (cs, r) # rs1" and l: "l = l2" by simp_all
  let ?b = "b\<lparr>m_lua := (l1, snd (m_lua b) @ [(h, arg, ?v)])\<rparr>"
  have call: "vm_call ?vm h arg ?v (m_lua b) = (cs, (l1, snd (m_lua b) @ [(h, arg, ?v)]), r)"
    by (simp add: logging_def c)
  obtain b1 where ap: "api_apply_all ?vm cs ?b = (b1, api_out vm cs)"
    using api_apply_all_out [of ?vm cs ?b] by (metis api_out_logging prod.collapse)
  then have b1: "b1 = fst (api_apply_all ?vm cs ?b)" by simp
  have same: "m_handlers b1 e = m_handlers b e"
    unfolding b1 using Cons.prems(2) rs by (simp add: api_apply_all_same)
  have hs: "handlers_of b1 e' = handlers_of b e' @ registered e' cs" for e'
    unfolding b1 by (simp add: api_apply_all_handlers) (simp add: handlers_of_def)
  have lua: "m_lua b1 = (l1, snd (m_lua b) @ [(h, arg, ?v)])" by (simp add: b1)
  from Cons.IH [of b1 rs1] t l lua Cons.prems(2) rs obtain b' where
    "fire_loop ?vm e arg m hs b1 = Some (b', concat (map (\<lambda>(cs, r). api_out vm cs @ handler_error e r) rs1))"
    "m_lua b' = (l, snd (m_lua b1) @ map (\<lambda>h. (h, arg, ?v)) hs)" "m_handlers b' e = m_handlers b1 e"
    "\<forall>e'. handlers_of b' e' = handlers_of b1 e' @ concat (map (\<lambda>(cs, r). registered e' cs) rs1)"
    by auto
  with call ap same lua hs rs show ?case by (simp add: handler_error_def Let_def)
qed (simp add: prod_eq_iff)

lemma load_loop_recording:
  "\<exists>b' out. load_loop (recording_vm hcalls herr fcalls ferr fmt) m files n b =
      (b', n + length (filter (\<lambda>f. ferr f = None) files), out) \<and>
    m_lua b' = (fst (m_lua b), snd (m_lua b) @ files) \<and> m_scriptDir b' = m_scriptDir b \<and>
    (\<forall>e. handlers_of b' e = handlers_of b e @ concat (map (\<lambda>f. registered e (fcalls f)) files))"
proof (induction files arbitrary: b n)
  case (Cons f files)
  let ?vm = "recording_vm hcalls herr fcalls ferr fmt"
  let ?b = "b\<lparr>m_lua := (fst (m_lua b), snd (m_lua b) @ [f])\<rparr>"
  let ?n = "if ferr f = None then Suc n else n"
  have run: "vm_run_file ?vm f (lua_view_of m) (m_lua b) = (fcalls f, (fst (m_lua b), snd (m_lua b) @ [f]), ferr f)"
    by (simp add: recording_vm_def case_prod_beta)
  obtain b1 out1 where ap: "api_apply_all ?vm (fcalls f) ?b = (b1, out1)" by fastforce
  then have b1: "b1 = fst (api_apply_all ?vm (fcalls f) ?b)" by simp
  have hs: "handlers_of b1 e = handlers_of b e @ registered e (fcalls f)" for e
    unfolding b1 by (simp add: api_apply_all_handlers) (simp add: handlers_of_def)
  have lua: "m_lua b1 = (fst (m_lua b), snd (m_lua b) @ [f])" "m_scriptDir b1 = m_scriptDir b"
    by (simp_all add: b1)
  from Cons.IH [of ?n b1] obtain b' out where
    "load_loop ?vm m files ?n b1 = (b', ?n + length (filter (\<lambda>f. ferr f = None) files), out)"
    "m_lua b' = (fst (m_lua b1), snd (m_lua b1) @ files)" "m_scriptDir b' = m_scriptDir b1"
    "\<forall>e. handlers_of b' e = handlers_of b1 e @ concat (map (\<lambda>f. registered e (fcalls f)) files)" by blast
  with run ap hs lua show ?case
    by (cases "ferr f") (simp_all add: Let_def)
qed simp

section \<open>Properties\<close>

text \<open>
  C35: Whatever the interpreter: firing an event calls every function registered for it exactly once, in
  the order of registration, each with the argument of the event and the players as they are now, in the
  Lua state that the one before left. What each of them logs, warns, kicks and registers is done in that
  order; one that fails has its error logged under the name of the event, and the next one runs. The
  entry of the event is kept. This needs that none of them registers a function for the same event.
\<close>

theorem Fire_each_once:
  assumes "in_turn vm arg (lua_view_of m) (handlers_of b e) (fst (m_lua b)) = (rs, l)"
    and "\<forall>(cs, r) \<in> set rs. registered e cs = []"
  shows "case Fire (logging vm) e arg m b of
      None \<Rightarrow> False
    | Some (b', out) \<Rightarrow>
        m_lua b' = (l, snd (m_lua b) @ map (\<lambda>h. (h, arg, lua_view_of m)) (handlers_of b e)) \<and>
        m_handlers b' e = m_handlers b e \<and>
        (\<forall>e'. handlers_of b' e' = handlers_of b e' @ concat (map (\<lambda>(cs, r). registered e' cs) rs)) \<and>
        out = concat (map (\<lambda>(cs, r). api_out vm cs @
          (case r of None \<Rightarrow> [] | Some msg \<Rightarrow> [Call_Error (e @ '' handler: '' @ msg)])) rs)"
proof (cases "m_handlers b e")
  case None
  with assms(1) have "rs = []" "l = fst (m_lua b)" by (simp_all add: handlers_of_def)
  with None show ?thesis by (simp add: Fire_def handlers_of_def)
next
  case (Some hs)
  with fire_loop_logging [of vm arg m hs b rs l e] assms show ?thesis
    by (auto simp: Fire_def handlers_of_def handler_error_def)
qed

text \<open>Two functions for the tick, of which the first fails; the second counts in the Lua state.\<close>

theorem Fire_each_once_witness:
  "let vm = \<lparr>vm_run_file = \<lambda>_ _ l. ([], l, None),
         vm_call = \<lambda>h a v l. ([Api_log (Lua_boolean (l > 0)) :: (nat, unit) api_call], l + h, if h = 1 then Some ''boom'' else None),
         vm_format = \<lambda>_. []\<rparr>;
       b = \<lparr>m_scriptDir = [], m_lua = (0, []), m_handlers = [''tick'' \<mapsto> [1, 2]]\<rparr>; m = mk_SessionManager 1 1
   in case Fire (logging vm) ''tick'' (Arg_time 5) m b of None \<Rightarrow> False
      | Some (b', out) \<Rightarrow> m_lua b' = (3, [(1, Arg_time 5, lua_view_of m), (2, Arg_time 5, lua_view_of m)]) \<and>
          out = [Call_Info ''false'', Call_Error ''tick handler: boom'', Call_Info ''true'']"
  using Fire_each_once [of "\<lparr>vm_run_file = \<lambda>_ _ l. ([], l, None),
         vm_call = \<lambda>h a v l. ([Api_log (Lua_boolean (l > 0)) :: (nat, unit) api_call], l + h, if h = 1 then Some ''boom'' else None),
         vm_format = \<lambda>_. []\<rparr>" "Arg_time 5" "mk_SessionManager 1 1"
      "\<lparr>m_scriptDir = [], m_lua = (0, []), m_handlers = [''tick'' \<mapsto> [1, 2]]\<rparr>" "''tick''"]
  by (auto simp: handlers_of_def registered_def map_filter_simps Let_def api_out_def api_apply_def
      Describe_def split: option.splits)

text \<open>
  Loading never takes the server down: whatever the files do, it returns true, having run every
  regular .lua file of the directory exactly once, in sorted order, each failure isolated; the handlers
  of an event are then those the files registered, file by file, and the last line counts those that
  ran without an error.
\<close>

theorem LoadScripts_total:
  "let vm = recording_vm hcalls herr fcalls ferr fmt; files = script_files entries;
       (ok, b', out) = LoadScripts vm (Some entries) m b
   in ok \<and> sorted files \<and>
      mset files = mset (map de_name (filter (\<lambda>d. de_regular d \<and> de_extension d = ''.lua'') entries)) \<and>
      m_lua b' = (fst (m_lua b), snd (m_lua b) @ files) \<and>
      handlers_of b' e = handlers_of b e @ concat (map (\<lambda>f. registered e (fcalls f)) files) \<and>
      last out = Call_Info (dec_digits (length (filter (\<lambda>f. ferr f = None) files)) @ '' of '' @
        dec_digits (length files) @ '' script(s) loaded'')"
proof -
  obtain b' out where "load_loop (recording_vm hcalls herr fcalls ferr fmt) m (script_files entries) 0 b =
      (b', 0 + length (filter (\<lambda>f. ferr f = None) (script_files entries)), out)"
    "m_lua b' = (fst (m_lua b), snd (m_lua b) @ script_files entries)"
    "\<forall>e. handlers_of b' e = handlers_of b e @ concat (map (\<lambda>f. registered e (fcalls f)) (script_files entries))"
    using load_loop_recording by blast
  moreover have "sorted (script_files entries)"
    "mset (script_files entries) = mset (map de_name (filter (\<lambda>d. de_regular d \<and> de_extension d = ''.lua'') entries))"
    by (simp_all add: script_files_def)
  ultimately show ?thesis by (simp add: LoadScripts_def Let_def)
qed

end
