(* ===== verification/Server_Process.thy ===== *)
theory Server_Process imports
  Client_System
begin

text \<open>
  The rest of main in src/src/server/main.cpp: its arguments, the steps before the loop with their exit
  codes, what it prints, and the end of the loop when a signal clears g_running. A run is given by the
  turns of the loop until then. And what the server owes a player who is heard: that it keeps him.
\<close>

section \<open>The process\<close>

record server_env =
  se_atoi :: "string \<Rightarrow> int"
  se_version :: string
  se_hash :: string
  se_startup :: bool
  se_socket :: "u64 option"
  se_bind :: "u64 \<Rightarrow> u16 \<Rightarrow> bool"

definition server_lines_start :: "server_env \<Rightarrow> string" where
  "server_lines_start E =
     ''cybermp server '' @ c_str (se_version E) @ '' ('' @ c_str (se_hash E) @ ''), protocol '' @ show_u32 kVersion"

definition listening_line :: "u16 \<Rightarrow> string" where
  "listening_line aPort =
     ''listening on udp '' @ dec_digits (unat aPort) @ '', '' @ dec_digits kMaxPlayers @ '' slots, '' @ show_u64 kTimeoutMs @ '' ms timeout''"

text \<open>At the end of main the destructor of the script host stops the backends.\<close>

definition server_main ::
  "server_env \<Rightarrow> 'b IBackend \<Rightarrow> (string \<Rightarrow> 'b option) \<Rightarrow> string list \<Rightarrow> (u64 \<times> (Received \<times> u8 list) option) list \<Rightarrow>
     int \<times> string list \<times> 'b server option" where
  "server_main E vt MakeLuaBackend argv evs =
     (let port = (if length argv > 1 then of_int (se_atoi E (argv ! 1)) else kDefaultPort);
          scriptDir = (if length argv > 2 then argv ! 2 else ''scripts'');
          banner = server_lines_start E
      in if \<not> se_startup E then (1, [banner, ''winsock init failed''], None)
         else if \<not> fst (UdpSocket_Bind (se_socket E) (se_bind E) port UdpSocket_default)
         then (1, [banner, ''could not bind port '' @ dec_digits (unat port)], None)
         else
           (let sessions = mk_SessionManager kMaxPlayers kTimeoutMs;
                started = fst (StartAll vt sessions (ScriptHost_Add (MakeLuaBackend scriptDir) mk_ScriptHost));
                sv = server_run vt evs (server_start vt (MakeLuaBackend scriptDir))
            in (0, [banner, listening_line port,
                    dec_digits started @ '' scripting backend(s) started, scripts from '' @ quote (c_str scriptDir),
                    ''stopped, '' @ dec_digits (Count (sv_sessions sv)) @ '' online, '' @ show_u64 (sv_rejected sv) @
                    '' datagram(s) rejected''],
                Some (sv\<lparr>sv_scripts := StopAll vt (sv_sessions sv) (sv_scripts sv)\<rparr>))))"

lemma server_main_exit:
  "fst (server_main E vt mk argv evs) = 0 \<longleftrightarrow> se_startup E \<and> (\<exists>h. se_socket E = Some h \<and>
     se_bind E h (if length argv > 1 then of_int (se_atoi E (argv ! 1)) else kDefaultPort))"
  by (auto simp: server_main_def Let_def UdpSocket_Bind_def UdpSocket_Open_def UdpSocket_default_def split: option.splits)

section \<open>Who is heard stays\<close>

text \<open>The row of a player with the time at which he was last heard.\<close>

definition heard_at :: "PlayerId \<Rightarrow> string \<Rightarrow> Endpoint \<Rightarrow> u64 \<Rightarrow> SessionManager \<Rightarrow> bool" where
  "heard_at p u e t m \<longleftrightarrow>
     (\<exists>s \<in> set (m_sessions m). sess_id s = p \<and> sess_username s = u \<and> sess_endpoint s = e \<and> lastSeenMs s = t)"

lemma heard_at_row: "heard_at p u e t m \<Longrightarrow> (p, u, e) \<in> set (rows m)"
  by (auto simp: heard_at_def rows_def)

lemma heard_update:
  assumes "heard_at p u e t m" and "i < length (m_sessions m)" and "sm_inv m"
    and "sess_id s' = sess_id (m_sessions m ! i)" "sess_username s' = sess_username (m_sessions m ! i)"
    and "sess_endpoint s' = sess_endpoint (m_sessions m ! i)"
  shows "heard_at p u e (if sess_endpoint (m_sessions m ! i) = e then lastSeenMs s' else t)
    (m\<lparr>m_sessions := (m_sessions m)[i := s']\<rparr>)"
proof -
  from assms(1) obtain j where j: "j < length (m_sessions m)" "sess_id (m_sessions m ! j) = p"
    "sess_username (m_sessions m ! j) = u" "sess_endpoint (m_sessions m ! j) = e" "lastSeenMs (m_sessions m ! j) = t"
    by (auto simp: heard_at_def in_set_conv_nth)
  have "distinct (map sess_endpoint (m_sessions m))" using assms(3) by (simp add: sm_inv_def)
  from nth_eq_iff_index_eq [OF this, of i j] j assms(2) have same: "sess_endpoint (m_sessions m ! i) = e \<longleftrightarrow> i = j" by auto
  show ?thesis
  proof (cases "i = j")
    case True
    with j assms(4-6) same show ?thesis
      unfolding heard_at_def by (intro bexI [of _ s']) (auto simp: set_update_memI)
  next
    case False
    then have "(m_sessions m)[i := s'] ! j = m_sessions m ! j" by simp
    with j(1) have "m_sessions m ! j \<in> set ((m_sessions m)[i := s'])" by (metis length_list_update nth_mem)
    with False j same show ?thesis unfolding heard_at_def by auto
  qed
qed

lemma heard_Touch:
  assumes "heard_at p u e t m" and "sm_inv m"
  shows "heard_at p u e (if e' = e then now else t) (snd (Touch e' now m))"
proof (cases "Find_endpoint e' m")
  case None
  then have "e' \<notin> sess_endpoint ` set (m_sessions m)" by (simp add: Find_endpoint_None)
  moreover from this assms(1) have "e' \<noteq> e" by (auto simp: heard_at_def)
  ultimately show ?thesis using assms(1) by (simp add: Touch_stranger)
next
  case (Some i)
  from Find_endpoint_SomeD [OF Some] heard_update [OF assms(1) _ assms(2), of i "(m_sessions m ! i)\<lparr>lastSeenMs := now\<rparr>"]
  show ?thesis by (auto simp: Touch_def Some split: if_splits)
qed

lemma heard_ApplyState:
  assumes "heard_at p u e t m" and "sm_inv m" shows "heard_at p u e t (snd (ApplyState e' k q r m))"
proof (cases "Find_endpoint e' m")
  case None
  with assms(1) show ?thesis by (simp add: ApplyState_def)
next
  case (Some i)
  note f = Find_endpoint_SomeD [OF Some]
  from assms(1) obtain s where s: "s \<in> set (m_sessions m)" "sess_endpoint s = e" "lastSeenMs s = t" by (auto simp: heard_at_def)
  have "lastSeenMs (m_sessions m ! i) = t" if "e' = e"
  proof -
    have "inj_on sess_endpoint (set (m_sessions m))" using assms(2) by (simp add: sm_inv_def distinct_map)
    with f s that have "m_sessions m ! i = s" by (auto dest: inj_onD)
    with s show ?thesis by simp
  qed
  with f heard_update [OF assms(1) _ assms(2), of i "(m_sessions m ! i)\<lparr>hasState := True, stateTick := k, sess_position := q, sess_rotation := r\<rparr>"]
    assms(1) show ?thesis by (auto simp: ApplyState_def Some Let_def split: if_splits)
qed

lemma heard_Join:
  assumes "heard_at p u e t m" and "sm_inv m"
  shows "heard_at p u e (if e' = e \<and> fst (Join e' u' v now m) = AlreadyJoined then now else t) (snd (snd (Join e' u' v now m)))"
proof (cases rule: Join_cases [of v e' u' now m])
  case (already i)
  with heard_Touch [OF assms, of e' now] show ?thesis by simp
next
  case (accepted s)
  with assms(1) show ?thesis by (auto simp: heard_at_def)
qed (use assms(1) in simp_all)

lemma heard_handlers:
  assumes "heard_at p u e t (sv_sessions sv)" and "sm_inv (sv_sessions sv)"
  shows "heard_at p u e t (sv_sessions (HandlePlayerState e' d sv))"
    and "t = now \<or> e' \<noteq> e \<Longrightarrow> heard_at p u e t (sv_sessions (HandleHello vt e' d now sv))"
proof -
  have "heard_at p u e t m" if "ApplyState e' k q r (sv_sessions sv) = (b, m)" for k q r b m
    using heard_ApplyState [OF assms, of e' k q r] that by simp
  with assms(1) show "heard_at p u e t (sv_sessions (HandlePlayerState e' d sv))"
    by (auto simp: HandlePlayerState_def Let_def Broadcast_eq split: option.splits prod.splits)
next
  assume tn: "t = now \<or> e' \<noteq> e"
  obtain ok h where d: "Decode Hello_T d Hello_default = (ok, h)" by fastforce
  obtain r q m where j: "Join e' (hello_username h) (hello_version h) now (sv_sessions sv) = (r, q, m)"
    using prod_cases3 by blast
  have f: "sv_sessions (fold (\<lambda>session sv. if sess_id session = q then sv else encode_and_send T (g session) e' sv) xs sv') =
      sv_sessions sv'" for T :: "'m msg_traits" and g xs and sv' :: "'a server"
    by (induction xs arbitrary: sv') (simp_all add: encode_and_send_eq)
  have "sv_sessions (HandleHello vt e' d now sv) = (if ok then m else sv_sessions sv)"
    by (simp add: HandleHello_def d j Let_def encode_and_send_eq [of HelloAck_T] Broadcast_eq f)
  with heard_Join [OF assms, of e' "hello_username h" "hello_version h" now] j tn assms(1)
  show "heard_at p u e t (sv_sessions (HandleHello vt e' d now sv))" by (auto split: if_splits)
qed

lemma heard_datagram:
  assumes "heard_at p u e t (sv_sessions sv)" and "sm_inv (sv_sessions sv)"
  shows "heard_at p u e (if e' = e \<and> fst (PeekHeader d Header_default) then now else t)
    (sv_sessions (handle_datagram vt now e' d sv))"
proof -
  obtain ok h where p: "PeekHeader d Header_default = (ok, h)" by fastforce
  let ?sv = "sv\<lparr>sv_sessions := snd (Touch e' now (sv_sessions sv))\<rparr>"
  have t: "heard_at p u e (if e' = e then now else t) (sv_sessions ?sv)" using heard_Touch [OF assms] by simp
  have i: "sm_inv (sv_sessions ?sv)" using Touch_inv [OF assms(2)] by simp
  show ?thesis
    using t assms(1) heard_handlers(1) [OF t i, of e' d] heard_handlers(2) [OF t i, of now e' vt d]
    by (cases ok; cases "hdr_type h") (auto simp: handle_datagram_def p Let_def HandlePing_sessions)
qed

text \<open>A backend that never kicks the player.\<close>

definition no_kick :: "PlayerId \<Rightarrow> host_call list \<Rightarrow> bool" where
  "no_kick p calls \<longleftrightarrow> list_all (\<lambda>c. case c of Call_Kick q _ \<Rightarrow> q \<noteq> p | _ \<Rightarrow> True) calls"

definition spares :: "PlayerId \<Rightarrow> 'b IBackend \<Rightarrow> bool" where
  "spares p vt \<longleftrightarrow>
     (\<forall>q m b. no_kick p (snd (be_OnPlayerJoin vt q m b)) \<and> no_kick p (snd (be_OnPlayerLeave vt q m b))) \<and>
     (\<forall>now m b. no_kick p (snd (be_OnTick vt now m b)))"

definition unkicked :: "PlayerId \<Rightarrow> 'b ScriptHost \<Rightarrow> bool" where
  "unkicked p h \<longleftrightarrow> p \<notin> pk_playerId ` set (m_kicks h)"

lemma no_kick_kicks: "no_kick p cs \<Longrightarrow> p \<notin> pk_playerId ` set (kicks_of m cs)"
  by (induction cs) (auto simp: no_kick_def kicks_of_def map_filter_simps split: host_call.splits option.splits)

lemma dispatch_unkicked: "unkicked p h \<Longrightarrow> (\<And>b. no_kick p (snd (cb b))) \<Longrightarrow> unkicked p (dispatch cb m h)"
proof -
  assume h: "unkicked p h" and cb: "\<And>b. no_kick p (snd (cb b))"
  have "no_kick p (concat (map (snd \<circ> cb) bs))" for bs using cb by (induction bs) (simp_all add: no_kick_def)
  from no_kick_kicks [OF this] h show ?thesis by (auto simp: unkicked_def dispatch_kicks)
qed

lemma callbacks_unkicked:
  assumes "spares p vt" and "unkicked p h"
  shows "unkicked p (ScriptHost_OnPlayerJoin vt q m h)" "unkicked p (ScriptHost_OnPlayerLeave vt q m h)"
    "unkicked p (ScriptHost_OnTick vt now m h)"
  using assms unfolding ScriptHost_OnPlayerJoin_def ScriptHost_OnPlayerLeave_def ScriptHost_OnTick_def spares_def
  by (auto intro!: dispatch_unkicked)

lemma sweep_unkicked: "spares p vt \<Longrightarrow> unkicked p (sv_scripts sv) \<Longrightarrow> unkicked p (sv_scripts (sweep vt now sv))"
proof (induction vt now sv rule: sweep.induct)
  case (1 vt now sv)
  obtain d m where t: "TakeNextTimedOut now (sv_sessions sv) = (d, m)" by fastforce
  show ?case
  proof (cases d)
    case None
    with t "1.prems" show ?thesis by (subst sweep.simps) simp
  next
    case (Some s)
    have "unkicked p (sv_scripts (timed_out_body vt s (sv\<lparr>sv_sessions := m\<rparr>)))"
      using "1.prems" by (simp add: timed_out_body_def Let_def Broadcast_eq callbacks_unkicked)
    from "1.IH" [OF t [unfolded Some, symmetric] refl "1.prems"(1) this] t Some show ?thesis by (subst sweep.simps) simp
  qed
qed

lemma run_kicks_unkicked: "spares p vt \<Longrightarrow> unkicked p (sv_scripts (run_kicks vt sv))"
proof -
  assume sp: "spares p vt"
  have step: "unkicked p (sv_scripts sv) \<Longrightarrow> unkicked p (sv_scripts (kick_body vt k sv))" for k and sv :: "'a server"
    using sp by (auto simp: kick_body_def Let_def Broadcast_eq callbacks_unkicked split: option.splits)
  have "unkicked p (sv_scripts sv) \<Longrightarrow> unkicked p (sv_scripts (fold (kick_body vt) ks sv))" for ks and sv :: "'a server"
    by (rule fold_inv [where P = "\<lambda>sv. unkicked p (sv_scripts sv)"]) (rule step)
  then show ?thesis by (simp add: run_kicks_def TakeKicks_def unkicked_def)
qed

lemma handle_datagram_unkicked:
  assumes "spares p vt" and "unkicked p (sv_scripts sv)"
  shows "unkicked p (sv_scripts (handle_datagram vt now e d sv))"
proof -
  have f: "sv_scripts (fold (\<lambda>session sv. if sess_id session = q then sv else encode_and_send T (g session) e sv) xs sv') =
      sv_scripts sv'" for T :: "'m msg_traits" and g xs q and sv' :: "'a server"
    by (induction xs arbitrary: sv') (simp_all add: encode_and_send_eq)
  have "unkicked p (sv_scripts (HandleHello vt e d now sv'))" if "unkicked p (sv_scripts sv')" for sv'
    using that assms(1)
    by (auto simp: HandleHello_def Let_def encode_and_send_eq [of HelloAck_T] Broadcast_eq f callbacks_unkicked
        split: prod.splits)
  moreover have "sv_scripts (HandlePlayerState e d sv') = sv_scripts sv'" for sv' :: "'a server"
    by (auto simp: HandlePlayerState_def Let_def Broadcast_eq split: option.splits prod.splits)
  moreover have "sv_scripts (HandlePing e d sv') = sv_scripts sv'" for sv' :: "'a server"
    by (simp add: HandlePing_eq)
  ultimately show ?thesis using assms(2) by (auto simp: handle_datagram_def Let_def split: prod.splits Type.splits)
qed

text \<open>Whether a turn of the loop brings a datagram with a header of an endpoint, and whether there is always one in time.\<close>

definition brings :: "Endpoint \<Rightarrow> (Received \<times> u8 list) option \<Rightarrow> bool" where
  "brings e received =
     (case received of
        None \<Rightarrow> False
      | Some (r, buffer) \<Rightarrow> rcv_from r = e \<and> fst (PeekHeader (take (rcv_size r) buffer) Header_default))"

fun heard_often :: "u64 \<Rightarrow> Endpoint \<Rightarrow> u64 \<Rightarrow> (u64 \<times> (Received \<times> u8 list) option) list \<Rightarrow> bool" where
  "heard_often limit e lastAt [] = True"
| "heard_often limit e lastAt ((now, received) # evs) =
     (lastAt \<le> now \<and> now - lastAt < limit \<and> heard_often limit e (if brings e received then now else lastAt) evs)"

lemma loop_body_heard:
  assumes inv: "server_inv sv" "ids_inv (sv_sessions sv)" and h: "heard_at p u e t (sv_sessions sv)"
    and fresh: "t \<le> now" "now - t < kTimeoutMs" and sp: "spares p vt" "unkicked p (sv_scripts sv)"
  shows "heard_at p u e (if brings e received then now else t) (sv_sessions (loop_body vt (now, received) sv)) \<and>
    unkicked p (sv_scripts (loop_body vt (now, received) sv))"
proof -
  let ?sv1 = "sweep vt now sv"
  let ?sv2 = "?sv1\<lparr>sv_scripts := ScriptHost_OnTick vt now (sv_sessions ?sv1) (sv_scripts ?sv1)\<rparr>"
  let ?sv3 = "run_kicks vt ?sv2"
  have T: "m_timeoutMs (sv_sessions sv) = kTimeoutMs" using inv(1) by (simp add: server_inv_def)
  have "heard_at p u e t (sv_sessions ?sv1)"
    using h fresh(2) by (auto simp: sweep_sessions heard_at_def is_expired_def expired_def T not_le)
  moreover have u2: "unkicked p (sv_scripts ?sv2)" using sp by (simp add: callbacks_unkicked sweep_unkicked)
  moreover have "ids_inv (sv_sessions ?sv2)" by (simp add: sweep_sessions ids_filter [OF inv(2)])
  ultimately have h3: "heard_at p u e t (sv_sessions ?sv3)"
    by (auto simp: run_kicks_sessions heard_at_def unkicked_def)
  have "server_inv ?sv3" using inv(1) by (simp add: run_kicks_inv sweep_inv)
  then have i3: "sm_inv (sv_sessions ?sv3)" by (simp add: server_inv_def)
  have u3: "unkicked p (sv_scripts ?sv3)" by (rule run_kicks_unkicked [OF sp(1)])
  show ?thesis
  proof (cases received)
    case None
    with h3 u3 show ?thesis by (simp add: loop_body_def Let_def brings_def)
  next
    case (Some x)
    obtain r b where x: "x = (r, b)" by fastforce
    from heard_datagram [OF h3 i3, of "rcv_from r" "take (rcv_size r) b" now vt]
      handle_datagram_unkicked [OF sp(1) u3, of now "rcv_from r" "take (rcv_size r) b"]
    show ?thesis by (simp add: loop_body_def Let_def brings_def Some x)
  qed
qed

lemma loop_body_ids:
  assumes "ids_inv (sv_sessions sv)" and "unat (m_nextId (sv_sessions sv)) + 1 < 2 ^ 32"
  shows "ids_inv (sv_sessions (loop_body vt ev sv))"
    and "unat (m_nextId (sv_sessions (loop_body vt ev sv))) \<le> unat (m_nextId (sv_sessions sv)) + 1"
proof -
  from loop_body_steps [of sv vt ev] obtain ops where "sv_sessions (loop_body vt ev sv) = fold session_step ops (sv_sessions sv)"
    "length (filter is_Join ops) \<le> 1" by (auto simp: steps_to_def)
  with session_run_ids [OF assms(1), of ops] assms(2) show "ids_inv (sv_sessions (loop_body vt ev sv))" by simp
  show "unat (m_nextId (sv_sessions (loop_body vt ev sv))) \<le> unat (m_nextId (sv_sessions sv)) + 1"
    by (rule steps_nextId [OF loop_body_steps])
qed

text \<open>The state of the server between two turns, as far as a player who is heard cares.\<close>

definition keeps :: "PlayerId \<Rightarrow> string \<Rightarrow> Endpoint \<Rightarrow> u64 \<Rightarrow> 'b server \<Rightarrow> bool" where
  "keeps p u e t sv \<longleftrightarrow> server_inv sv \<and> ids_inv (sv_sessions sv) \<and> heard_at p u e t (sv_sessions sv) \<and> unkicked p (sv_scripts sv)"

lemma loop_body_keeps:
  assumes "keeps p u e t sv" and "t \<le> now" and "now - t < 10000" and "spares p vt"
    and "unat (m_nextId (sv_sessions sv)) + Suc k < 2 ^ 32"
  shows "keeps p u e (if brings e received then now else t) (loop_body vt (now, received) sv) \<and>
    unat (m_nextId (sv_sessions (loop_body vt (now, received) sv))) + k < 2 ^ 32"
proof -
  have n: "unat (m_nextId (sv_sessions sv)) + 1 < 2 ^ 32" using assms(5) by simp
  have i: "server_inv sv" "ids_inv (sv_sessions sv)" using assms(1) by (simp_all add: keeps_def)
  show ?thesis
    using loop_body_heard [of sv p u e t now vt received] loop_body_inv [of sv vt "(now, received)"]
      loop_body_ids [OF i(2) n, of vt "(now, received)"] assms
    by (simp add: keeps_def kTimeoutMs_def)
qed

lemma server_run_keeps:
  assumes "keeps p u e t sv" and "heard_often 10000 e t evs" and "spares p vt"
    and "unat (m_nextId (sv_sessions sv)) + length evs < 2 ^ 32"
  shows "\<exists>t'. keeps p u e t' (server_run vt evs sv)"
  using assms
proof (induction evs arbitrary: sv t)
  case (Cons ev evs)
  obtain now received where ev: "ev = (now, received)" by fastforce
  have fresh: "t \<le> now" "now - t < 10000" using Cons.prems(2) ev by simp_all
  from loop_body_keeps [OF Cons.prems(1) fresh Cons.prems(3), of "length evs" received] Cons.prems(4)
  have k: "keeps p u e (if brings e received then now else t) (loop_body vt (now, received) sv)"
    and n: "unat (m_nextId (sv_sessions (loop_body vt (now, received) sv))) + length evs < 2 ^ 32" by simp_all
  from Cons.IH [OF k _ Cons.prems(3) n] Cons.prems(2) ev show ?case by (simp add: server_run_def)
qed (auto simp: server_run_def)

section \<open>Properties\<close>

text \<open>
  C13: A player who is heard is never dropped: as long as no backend kicks him or has kicked him, and no turn of the loop
  comes 10000 ms or more after the last datagram with a header from his endpoint, whatever else arrives, his session stays, with
  his id and his name. (On a monotonic clock, as steady_clock is, and while ids are distinct: for fewer
  than 2^32 - 1 joins, of which a turn makes at most one.)
\<close>

theorem heard_player_stays:
  assumes "server_inv sv" and "ids_inv (sv_sessions sv)" and "unat (m_nextId (sv_sessions sv)) + length evs < 2 ^ 32"
    and "s \<in> set (m_sessions (sv_sessions sv))" and "heard_often 10000 (sess_endpoint s) (lastSeenMs s) evs"
    and "spares (sess_id s) vt" and "sess_id s \<notin> pk_playerId ` set (m_kicks (sv_scripts sv))"
  shows "(sess_id s, sess_username s, sess_endpoint s) \<in> set (rows (sv_sessions (server_run vt evs sv)))"
proof -
  have "heard_at (sess_id s) (sess_username s) (sess_endpoint s) (lastSeenMs s) (sv_sessions sv)"
    using assms(4) by (auto simp: heard_at_def)
  then have "keeps (sess_id s) (sess_username s) (sess_endpoint s) (lastSeenMs s) sv"
    using assms(1,2,7) by (simp add: keeps_def unkicked_def)
  from server_run_keeps [OF this assms(5,6,3)] show ?thesis by (auto simp: keeps_def heard_at_row)
qed

text \<open>A server with one player, who was heard at time 0, and the backend that logs.\<close>

definition one_player :: "LogBackend server" where
  "one_player = \<lparr>sv_sessions = \<lparr>m_maxPlayers = kMaxPlayers, m_timeoutMs = kTimeoutMs, m_nextId = 2, m_sessions =
      [Session_default\<lparr>sess_id := 1, sess_username := ''a'', sess_endpoint := \<lparr>address = 1, port = 1\<rparr>\<rparr>]\<rparr>,
    sv_scripts = mk_ScriptHost\<lparr>m_backends := [mk_LogBackend]\<rparr>, sv_rejected = 0, sv_out = []\<rparr>"

lemma log_spares: "spares p LogBackend_vt"
  by (simp add: spares_def no_kick_def LogBackend_vt_def LogBackend_OnPlayerJoin_def LogBackend_OnPlayerLeave_def
      LogBackend_OnTick_def split: option.splits)

theorem heard_player_stays_witness:
  "let e = \<lparr>address = 1, port = 1\<rparr>; d = hello_bytes ''a''
   in (1, ''a'', e) \<in> set (rows (sv_sessions (server_run LogBackend_vt
        [(5000, Some (\<lparr>rcv_size = length d, rcv_from = e\<rparr>, d)), (14000, None)] one_player)))"
proof -
  let ?e = "\<lparr>address = 1, port = 1\<rparr>" and ?d = "hello_bytes ''a''"
  let ?s = "Session_default\<lparr>sess_id := 1, sess_username := ''a'', sess_endpoint := ?e\<rparr>"
  have "parse ?d \<noteq> None" by (simp add: parse_hello name_ok_def)
  then have "fst (PeekHeader ?d Header_default)" by (auto simp: parse_def split: prod.splits if_splits)
  then have b: "brings ?e (Some (\<lparr>rcv_size = length ?d, rcv_from = ?e\<rparr>, ?d))" by (simp add: brings_def)
  have inv: "server_inv one_player" "ids_inv (sv_sessions one_player)" "?s \<in> set (m_sessions (sv_sessions one_player))"
    by (simp_all add: one_player_def server_inv_def sm_inv_def ids_inv_def name_ok_def Session_default_def kMaxPlayers_def)
  have "(sess_id ?s, sess_username ?s, sess_endpoint ?s) \<in> set (rows (sv_sessions (server_run LogBackend_vt
      [(5000, Some (\<lparr>rcv_size = length ?d, rcv_from = ?e\<rparr>, ?d)), (14000, None)] one_player)))"
    by (rule heard_player_stays [OF inv(1,2) _ inv(3) _ log_spares])
      (simp_all add: b Session_default_def, simp_all add: one_player_def mk_ScriptHost_def)
  then show ?thesis by (simp add: Let_def Session_default_def)
qed

end
