(* ===== verification/Nettest.thy ===== *)
theory Nettest imports
  Client_System
begin

text \<open>
  src/src/nettest/main.cpp: the console client that joins, measures round trips with pings, or walks in
  a circle.

  The state holds the socket, the datagrams handed to it and the lines printed, and, as inputs, what the
  coming calls of RecvFrom return and the coming readings of the clock. The C library and the build
  (atoi, strtof, sin, cos, the process id, the version strings) are parameters. The walk never ends by
  itself; its loop is a run over what each of its turns receives.
\<close>

section \<open>State and environment\<close>

definition nt_kDefaultPort :: u16 where "nt_kDefaultPort = 11780"
definition nt_kTimeoutMs :: u32 where "nt_kTimeoutMs = 1000"

record nt_env =
  env_atoi :: "string \<Rightarrow> int"
  env_strtof :: "string \<Rightarrow> f32"
  env_cos :: "f32 \<Rightarrow> f32"
  env_sin :: "f32 \<Rightarrow> f32"
  env_pid :: u32
  env_version :: string
  env_hash :: string
  env_startup :: bool
  env_socket :: "u64 option"
  env_sendto :: os_sendto

record nettest =
  nt_socket :: UdpSocket
  nt_sent :: "(Endpoint \<times> u8 list) list"
  nt_lines :: "string list"
  nt_inbox :: "(Received \<times> u8 list) option list"
  nt_clock :: "u64 list"

definition say :: "string \<Rightarrow> nettest \<Rightarrow> nettest" where
  "say line s = s\<lparr>nt_lines := nt_lines s @ [line]\<rparr>"

definition RecvNext :: "nettest \<Rightarrow> (Received \<times> u8 list) option \<times> nettest" where
  "RecvNext s = (case nt_inbox s of [] \<Rightarrow> (None, s) | x # xs \<Rightarrow> (x, s\<lparr>nt_inbox := xs\<rparr>))"

definition NowMicros :: "nettest \<Rightarrow> u64 \<times> nettest" where
  "NowMicros s = (case nt_clock s of [] \<Rightarrow> (0, s) | t # ts \<Rightarrow> (t, s\<lparr>nt_clock := ts\<rparr>))"

definition nt_SendTo :: "nt_env \<Rightarrow> Endpoint \<Rightarrow> u8 list \<Rightarrow> nettest \<Rightarrow> bool \<times> nettest" where
  "nt_SendTo E aTo aData s =
     (case UdpSocket_SendTo (env_sendto E) aTo aData (nt_socket s) of
        (ok, None) \<Rightarrow> (ok, s)
      | (ok, Some d) \<Rightarrow> (ok, s\<lparr>nt_sent := nt_sent s @ [d]\<rparr>))"

text \<open>The received part of the buffer, or None when it returns false.\<close>

definition Exchange :: "nt_env \<Rightarrow> Endpoint \<Rightarrow> u8 list \<Rightarrow> nettest \<Rightarrow> u8 list option \<times> nettest" where
  "Exchange E aServer aRequest s =
     (case nt_SendTo E aServer aRequest s of
        (False, s1) \<Rightarrow> (None, s1)
      | (True, s1) \<Rightarrow>
          (case RecvNext s1 of
             (None, s2) \<Rightarrow> (None, s2)
           | (Some (r, buffer), s2) \<Rightarrow> (Some (take (rcv_size r) buffer), s2)))"

section \<open>The handshake\<close>

definition no_answer_line :: string where
  "no_answer_line = ''handshake: no answer after '' @ show_u32 nt_kTimeoutMs @ '' ms''"

definition refused_line :: "HelloAck \<Rightarrow> string" where
  "refused_line ack = ''handshake refused: '' @ c_str (ack_reason ack) @ '' (server protocol '' @ show_u32 (ack_version ack) @ '')''"

definition handshake_line :: "HelloAck \<Rightarrow> string" where
  "handshake_line ack = ''handshake ok, server protocol '' @ show_u32 (ack_version ack)"

definition Handshake :: "nt_env \<Rightarrow> Endpoint \<Rightarrow> string \<Rightarrow> u32 \<Rightarrow> nettest \<Rightarrow> bool \<times> nettest" where
  "Handshake E aServer aUsername aVersion s =
     (case Encode Hello_T \<lparr>hello_version = aVersion, hello_username = aUsername\<rparr> of
        (False, _) \<Rightarrow> (False, say ''could not encode hello'' s)
      | (True, request) \<Rightarrow>
          (case Exchange E aServer request s of
             (None, s1) \<Rightarrow> (False, say no_answer_line s1)
           | (Some d, s1) \<Rightarrow>
               (case Decode HelloAck_T d HelloAck_default of
                  (ok, ack) \<Rightarrow>
                    if \<not> ok then (False, say ''handshake: malformed answer'' s1)
                    else if \<not> ack_accepted ack then (False, say (refused_line ack) s1)
                    else (True, say (handshake_line ack) s1))))"

section \<open>The walk\<close>

record walk =
  wk_tick :: u64
  wk_statesIn :: u64
  wk_outOfOrder :: u64
  wk_lastTickPerPlayer :: "(u32 \<times> u64) list"

text \<open>\<^verbatim>\<open>auto& last = lastTickPerPlayer[notify.playerId]\<close> makes an entry 0 when there is none.\<close>

definition put_tick :: "u32 \<Rightarrow> u64 \<Rightarrow> (u32 \<times> u64) list \<Rightarrow> bool \<times> (u32 \<times> u64) list" where
  "put_tick playerId tick m =
     (let last = (case map_of m playerId of None \<Rightarrow> 0 | Some t \<Rightarrow> t);
          m1 = AList.update playerId last m
      in if last \<noteq> 0 \<and> tick \<le> last then (False, m1) else (True, AList.update playerId tick m1))"

definition walk_datagram :: "u8 list \<Rightarrow> walk \<times> nettest \<Rightarrow> walk \<times> nettest" where
  "walk_datagram datagram x =
     (case x of (w, s) \<Rightarrow>
        (case PeekHeader datagram Header_default of
           (ok, header) \<Rightarrow>
             if \<not> ok then (w, s)
             else if hdr_type header = Type_NotifyPlayerState then
               (case Decode NotifyPlayerState_T datagram NotifyPlayerState_default of
                  (okD, notify) \<Rightarrow>
                    if \<not> okD then (w, s)
                    else
                      (case put_tick (nps_playerId notify) (nps_tick notify) (wk_lastTickPerPlayer w) of
                         (False, m) \<Rightarrow> (w\<lparr>wk_statesIn := wk_statesIn w + 1, wk_outOfOrder := wk_outOfOrder w + 1,
                                          wk_lastTickPerPlayer := m\<rparr>, s)
                       | (True, m) \<Rightarrow> (w\<lparr>wk_statesIn := wk_statesIn w + 1, wk_lastTickPerPlayer := m\<rparr>, s)))
             else if hdr_type header = Type_NotifyPlayerJoined then
               (case Decode NotifyPlayerJoined_T datagram NotifyPlayerJoined_default of
                  (okD, joined) \<Rightarrow>
                    if \<not> okD then (w, s)
                    else (w, say (''saw player #'' @ show_u32 (npj_playerId joined) @ '' '' @
                                  quote (c_str (npj_username joined)) @ '' join'') s))
             else if hdr_type header = Type_NotifyPlayerLeft then
               (case Decode NotifyPlayerLeft_T datagram NotifyPlayerLeft_default of
                  (okD, left) \<Rightarrow>
                    if \<not> okD then (w, s)
                    else (w, say (''saw player #'' @ show_u32 (npl_playerId left) @ '' leave'') s))
             else (w, s)))"

text \<open>6.283185307f / 120.0f, folded in single precision, and 57.29577951f.\<close>

definition walk_state :: "nt_env \<Rightarrow> f32 \<times> f32 \<times> f32 \<Rightarrow> f32 \<Rightarrow> u64 \<Rightarrow> PlayerState" where
  "walk_state E centre radius tick =
     (case centre of (centreX, centreY, centreZ) \<Rightarrow>
        (let angle = f32_mul (f32_of_u64 tick) (f32_div 0x40C90FDB 0x42F00000)
         in \<lparr>ps_tick = tick,
             ps_position = \<lparr>vx = f32_add centreX (f32_mul radius (env_cos E angle)),
                            vy = f32_add centreY (f32_mul radius (env_sin E angle)), vz = centreZ\<rparr>,
             ps_rotation = f32_mul angle 0x42652EE1\<rparr>))"

definition walk_line :: "PlayerState \<Rightarrow> walk \<Rightarrow> string" where
  "walk_line state w =
     ''tick '' @ show_u64 (wk_tick w) @ '' at '' @ show_f32 2 (vx (ps_position state)) @ '', '' @
     show_f32 2 (vy (ps_position state)) @ '' | others='' @ dec_digits (length (wk_lastTickPerPlayer w)) @
     '' statesIn='' @ show_u64 (wk_statesIn w) @ '' outOfOrder='' @ show_u64 (wk_outOfOrder w)"

text \<open>One turn: the snapshot is sent, then what arrived is drained. False when the program returns.\<close>

definition walk_turn :: "nt_env \<Rightarrow> Endpoint \<Rightarrow> f32 \<times> f32 \<times> f32 \<Rightarrow> f32 \<Rightarrow> (Received \<times> u8 list) list \<Rightarrow> walk \<times> nettest \<Rightarrow>
    bool \<times> walk \<times> nettest" where
  "walk_turn E server centre radius arrived x =
     (case x of (w, s) \<Rightarrow>
        (let w1 = w\<lparr>wk_tick := wk_tick w + 1\<rparr>;
             state = walk_state E centre radius (wk_tick w1);
             (encoded, out) = Encode PlayerState_T state;
             (sent, s1) = (if encoded then nt_SendTo E server out s else (True, s))
         in if encoded \<and> \<not> sent then (False, w1, say ''send failed'' s1)
            else
              (case fold (\<lambda>(r, buffer). walk_datagram (take (rcv_size r) buffer)) arrived (w1, s1) of
                 (w2, s2) \<Rightarrow>
                   (True, w2, if wk_tick w2 mod 15 = 0 then say (walk_line state w2) s2 else s2))))"

fun walk_loop :: "nt_env \<Rightarrow> Endpoint \<Rightarrow> f32 \<times> f32 \<times> f32 \<Rightarrow> f32 \<Rightarrow> (Received \<times> u8 list) list list \<Rightarrow> walk \<times> nettest \<Rightarrow>
    bool \<times> walk \<times> nettest" where
  "walk_loop E server centre radius [] x = (True, x)"
| "walk_loop E server centre radius (a # as) x =
     (case walk_turn E server centre radius a x of
        (False, x1) \<Rightarrow> (False, x1)
      | (True, x1) \<Rightarrow> walk_loop E server centre radius as x1)"

definition walk_start :: walk where
  "walk_start = \<lparr>wk_tick = 0, wk_statesIn = 0, wk_outOfOrder = 0, wk_lastTickPerPlayer = []\<rparr>"

text \<open>The exit code, or None while it walks.\<close>

definition arg_or :: "string list \<Rightarrow> nat \<Rightarrow> (string \<Rightarrow> 'a) \<Rightarrow> 'a \<Rightarrow> 'a" where
  "arg_or argv i f d = (if length argv > i then f (argv ! i) else d)"

definition open_socket :: "nt_env \<Rightarrow> nettest \<Rightarrow> bool \<times> nettest" where
  "open_socket E s =
     (if \<not> env_startup E then (False, say ''winsock init failed'' s)
      else
        (case UdpSocket_Open (env_socket E) (nt_socket s) of
           (False, socket) \<Rightarrow> (False, say ''could not open socket'' (s\<lparr>nt_socket := socket\<rparr>))
         | (True, socket) \<Rightarrow> (True, s\<lparr>nt_socket := socket\<rparr>)))"

definition RunWalk :: "nt_env \<Rightarrow> string list \<Rightarrow> (Received \<times> u8 list) list list \<Rightarrow> nettest \<Rightarrow> int option \<times> nettest" where
  "RunWalk E argv arrivals s =
     (let port = arg_or argv 2 (\<lambda>a. of_int (env_atoi E a)) nt_kDefaultPort;
          centreX = arg_or argv 3 (env_strtof E) 0;
          centreY = arg_or argv 4 (env_strtof E) 0;
          centreZ = arg_or argv 5 (env_strtof E) 0;
          radius = arg_or argv 6 (env_strtof E) 0x40800000;
          username = arg_or argv 7 id (''walker-'' @ show_u32 (env_pid E));
          server = Loopback port
      in case open_socket E s of
           (False, s1) \<Rightarrow> (Some 1, s1)
         | (True, s1) \<Rightarrow>
             (case Handshake E server username kVersion
                     (say (''walking as '' @ quote (c_str username) @ '' around '' @ show_f32 2 centreX @ '', '' @
                           show_f32 2 centreY @ '', '' @ show_f32 2 centreZ @ '' radius '' @ show_f32 2 radius) s1) of
                (False, s2) \<Rightarrow> (Some 1, s2)
              | (True, s2) \<Rightarrow>
                  (case walk_loop E server (centreX, centreY, centreZ) radius arrivals
                          (walk_start, say ''sending snapshots at ~15 Hz, ctrl+c to stop'' s2) of
                     (walking, w, s3) \<Rightarrow> (if walking then None else Some 1, s3))))"

section \<open>Pings\<close>

definition ping_round :: "nt_env \<Rightarrow> Endpoint \<Rightarrow> int \<Rightarrow> nettest \<Rightarrow> bool \<times> nettest" where
  "ping_round E server i s =
     (case NowMicros s of
        (sentAt, s1) \<Rightarrow>
          (let n = show_i32 (of_int i) in
           case Encode Ping_T \<lparr>ping_sentAt = sentAt\<rparr> of
             (False, _) \<Rightarrow> (False, say (n @ '': could not encode ping'') s1)
           | (True, request) \<Rightarrow>
               (case Exchange E server request s1 of
                  (None, s2) \<Rightarrow> (False, say (n @ '': timeout after '' @ show_u32 nt_kTimeoutMs @ '' ms'') s2)
                | (Some d, s2) \<Rightarrow>
                    (case Decode Pong_T d Pong_default of
                       (ok, pong) \<Rightarrow>
                         if \<not> ok then (False, say (n @ '': malformed pong'') s2)
                         else if pong_sentAt pong \<noteq> sentAt then (False, say (n @ '': pong timestamp mismatch'') s2)
                         else
                           (case NowMicros s2 of
                              (now, s3) \<Rightarrow>
                                (let rtt = f64_div (f64_of_u64 (now - pong_sentAt pong)) 0x408F400000000000
                                 in (True, say (n @ '': pong, rtt '' @ show_f64 3 rtt @ '' ms'') s3)))))))"

definition ping_rounds :: "nt_env \<Rightarrow> Endpoint \<Rightarrow> int list \<Rightarrow> int \<times> nettest \<Rightarrow> int \<times> nettest" where
  "ping_rounds E server =
     fold (\<lambda>i (answered, s). case ping_round E server i s of
        (ok, s1) \<Rightarrow> (if ok then answered + 1 else answered, s1))"

text \<open>main without --walk, after the arguments: the exit code.\<close>

definition run_pings :: "nt_env \<Rightarrow> Endpoint \<Rightarrow> int \<Rightarrow> u32 \<Rightarrow> string \<Rightarrow> nettest \<Rightarrow> int \<times> nettest" where
  "run_pings E server rounds version username s =
     (case Encode Hello_T \<lparr>hello_version = version, hello_username = username\<rparr> of
        (False, _) \<Rightarrow> (1, say ''could not encode hello'' s)
      | (True, request) \<Rightarrow>
          (case Exchange E server request s of
             (None, s1) \<Rightarrow> (1, say no_answer_line s1)
           | (Some d, s1) \<Rightarrow>
               (case Decode HelloAck_T d HelloAck_default of
                  (ok, ack) \<Rightarrow>
                    if \<not> ok then (1, say ''handshake: malformed answer'' s1)
                    else if \<not> ack_accepted ack then (2, say (refused_line ack) s1)
                    else
                      (case ping_rounds E server [1..rounds] (0, say (handshake_line ack) s1) of
                         (answered, s2) \<Rightarrow>
                           (if answered = rounds then 0 else 1,
                            say (show_i32 (of_int answered) @ ''/'' @ show_i32 (of_int rounds) @ '' answered'') s2)))))"

definition nettest_main :: "nt_env \<Rightarrow> string list \<Rightarrow> (Received \<times> u8 list) list list \<Rightarrow> nettest \<Rightarrow> int option \<times> nettest" where
  "nettest_main E argv arrivals s =
     (let banner = (\<lambda>v. ''cybermp nettest '' @ env_version E @ '' ('' @ env_hash E @ ''), protocol '' @ show_u32 v)
      in if length argv > 1 \<and> argv ! 1 = ''--walk'' then RunWalk E argv arrivals (say (banner kVersion) s)
         else
           (let port = arg_or argv 1 (\<lambda>a. of_int (env_atoi E a)) nt_kDefaultPort;
                rounds = arg_or argv 2 (env_atoi E) 3;
                protocolOverride = arg_or argv 3 (\<lambda>a. of_int (env_atoi E a)) kVersion;
                username = arg_or argv 4 id (''nettest-'' @ show_u32 (env_pid E))
            in case open_socket E (say (banner protocolOverride) s) of
                 (False, s1) \<Rightarrow> (Some 1, s1)
               | (True, s1) \<Rightarrow>
                   (case run_pings E (Loopback port) rounds protocolOverride username
                           (say (''joining as '' @ quote (c_str username)) s1) of
                      (code, s2) \<Rightarrow> (Some code, s2))))"

section \<open>The walk counts as the game client does\<close>

lemma put_tick_eq:
  "fst (put_tick p t m) \<longleftrightarrow> (case map_of m p of None \<Rightarrow> True | Some k \<Rightarrow> k = 0 \<or> k < t)"
  "map_of (snd (put_tick p t m)) = (if fst (put_tick p t m) then (map_of m)(p \<mapsto> t)
     else map_of m)"
  by (auto simp: put_tick_def Let_def update_conv' fun_eq_iff not_le split: option.splits)

definition tick_of :: "u32 \<Rightarrow> (u32 \<times> u64) list \<Rightarrow> (u64 \<times> unit) option" where
  "tick_of p m = (case map_of m p of None \<Rightarrow> None | Some t \<Rightarrow> if t = 0 then None else Some (t, ()))"

text \<open>So the table of ticks keeps the newest, by the same contract as the snapshots.\<close>

interpretation walk_latest: latest_wins "\<lambda>t (_ :: unit). put_tick p t" "tick_of p" "\<lambda>m. True" "\<lambda>t. t \<noteq> 0" for p
proof unfold_locales
  fix m :: "(u32 \<times> u64) list" and t k :: u64 and q q' :: unit
  assume t: "t \<noteq> 0"
  {
    assume new: "\<And>k q. tick_of p m = Some (k, q) \<Longrightarrow> k < t"
    have "k < t" if "map_of m p = Some k" "k \<noteq> 0" for k using new [of k "()"] that by (simp add: tick_of_def)
    with t show "fst (put_tick p t m) \<and> tick_of p (snd (put_tick p t m)) = Some (t, q) \<and> True"
      by (auto simp: put_tick_eq tick_of_def split: option.splits)
  next
    assume "tick_of p m = Some (k, q')" and "t \<le> k"
    then show "\<not> fst (put_tick p t m) \<and> tick_of p (snd (put_tick p t m)) = tick_of p m \<and> True"
      by (auto simp: put_tick_eq tick_of_def not_less split: option.splits if_splits)
  }
qed

lemma walk_datagram_effect:
  "walk_datagram d (w, s) =
     (case parse d of
        Some (M_NotifyPlayerState n) \<Rightarrow>
          (case put_tick (nps_playerId n) (nps_tick n) (wk_lastTickPerPlayer w) of
             (taken, m) \<Rightarrow> (w\<lparr>wk_statesIn := wk_statesIn w + 1, wk_outOfOrder := wk_outOfOrder w + (if taken then 0 else 1),
                wk_lastTickPerPlayer := m\<rparr>, s))
      | Some (M_NotifyPlayerJoined j) \<Rightarrow>
          (w, say (''saw player #'' @ show_u32 (npj_playerId j) @ '' '' @ quote (c_str (npj_username j)) @ '' join'') s)
      | Some (M_NotifyPlayerLeft l) \<Rightarrow> (w, say (''saw player #'' @ show_u32 (npl_playerId l) @ '' leave'') s)
      | _ \<Rightarrow> (w, s))"
proof -
  obtain ok h where p: "PeekHeader d Header_default = (ok, h)" by fastforce
  have other: "Decode_as t d = Some m \<Longrightarrow> type_of m = t" for t m by (rule Decode_as_type)
  show ?thesis
  proof (cases ok)
    case False
    with p show ?thesis by (simp add: walk_datagram_def parse_def)
  next
    case True
    consider "hdr_type h = Type_NotifyPlayerState" | "hdr_type h = Type_NotifyPlayerJoined" | "hdr_type h = Type_NotifyPlayerLeft"
      | "hdr_type h \<notin> {Type_NotifyPlayerState, Type_NotifyPlayerJoined, Type_NotifyPlayerLeft}" by blast
    then show ?thesis
    proof cases
      case 4
      then have "walk_datagram d (w, s) = (w, s)" by (simp add: walk_datagram_def p)
      moreover have "parse d = Some m \<Longrightarrow> type_of m \<notin> {Type_NotifyPlayerState, Type_NotifyPlayerJoined, Type_NotifyPlayerLeft}" for m
        using other [of "hdr_type h" m] 4 True by (simp add: parse_def p)
      ultimately show ?thesis by (auto split: option.splits message.splits)
    qed (use True in \<open>auto simp: walk_datagram_def parse_def p Decode_as_def decoded_def split: prod.splits bool.splits\<close>)
  qed
qed

definition walk_like :: "walk \<Rightarrow> NetClient \<Rightarrow> bool" where
  "walk_like w c \<longleftrightarrow> wk_statesIn w = m_statesReceived c \<and> wk_outOfOrder w = m_statesOutOfOrder c \<and>
     (\<forall>p. map_of (wk_lastTickPerPlayer w) p = map_option snap_tick (map_of (m_remote c) p))"

lemma walk_like_step:
  assumes "walk_like w c" and "\<And>l. parse d \<noteq> Some (M_NotifyPlayerLeft l)"
  shows "walk_like (fst (walk_datagram d (w, s))) (HandleDatagram us d c)"
proof (cases "parse d")
  case None
  with assms(1) show ?thesis by (simp add: walk_datagram_effect HandleDatagram_effect malformed_def walk_like_def)
next
  case (Some m)
  show ?thesis
  proof (cases m)
    case (M_NotifyPlayerState n)
    let ?new = "mk_snapshot (nps_tick n) ((vx (nps_position n), vy (nps_position n), vz (nps_position n)), nps_rotation n)"
    have t: "snap_tick ?new = nps_tick n" by (simp add: mk_snapshot_def)
    have same: "fst (put_tick (nps_playerId n) (nps_tick n) (wk_lastTickPerPlayer w)) = fst (put_snapshot (nps_playerId n) ?new (m_remote c))"
      using assms(1) by (auto simp: put_tick_eq put_snapshot_taken walk_like_def t split: option.splits)
    show ?thesis
      using assms(1) put_tick_eq(2) [of "nps_playerId n" "nps_tick n" "wk_lastTickPerPlayer w"]
        put_snapshot_map [of "nps_playerId n" ?new "m_remote c"] same t
      by (auto simp: walk_datagram_effect HandleDatagram_effect Some M_NotifyPlayerState on_state_def walk_like_def split: prod.splits)
  next
    case (M_NotifyPlayerLeft l)
    with assms(2) [of l] Some show ?thesis by simp
  qed (use assms Some in \<open>simp_all add: walk_datagram_effect HandleDatagram_effect malformed_def on_ack_def on_event_def walk_like_def\<close>)
qed

section \<open>Pings against the server\<close>

definition ping_bytes :: "u64 \<Rightarrow> u8 list" where
  "ping_bytes t = snd (Encode Ping_T \<lparr>ping_sentAt = t\<rparr>)"

lemma Encode_ping: "Encode Ping_T \<lparr>ping_sentAt = t\<rparr> = (True, ping_bytes t)"
  by (simp add: ping_bytes_def ping.Encode_iff kMaxDatagram_def)

lemma parse_ping: "parse (ping_bytes t) = Some (M_Ping \<lparr>ping_sentAt = t\<rparr>)"
  by (rule parse_Encode) (simp_all add: message_ok_def name_ok_def Encode_ping)

lemma handle_ping:
  assumes "e \<in> sess_endpoint ` set (m_sessions (sv_sessions sv))"
  shows "handle_datagram vt now e (ping_bytes t) sv =
    sends [(e, pong_bytes t)] (sv\<lparr>sv_sessions := snd (Touch e now (sv_sessions sv))\<rparr>)"
proof -
  let ?sv = "sv\<lparr>sv_sessions := snd (Touch e now (sv_sessions sv))\<rparr>"
  have "set (map sess_endpoint (m_sessions (snd (Touch e now m)))) = set (map sess_endpoint (m_sessions m))" for m
    unfolding rows_columns rows_Touch ..
  then have "e \<in> sess_endpoint ` set (m_sessions (sv_sessions ?sv))" using assms by simp
  moreover have "Decode Ping_T (ping_bytes t) Ping_default = (True, \<lparr>ping_sentAt = t\<rparr>) \<and>
      handle_datagram vt now e (ping_bytes t) sv = HandlePing e (ping_bytes t) ?sv"
    using parse_ping [of t] by (auto simp: parse_def handle_datagram_def Decode_as_def decoded_def split: prod.splits if_splits Type.splits)
  ultimately show ?thesis by (simp add: HandlePing_eq)
qed

lemma serve_pings:
  assumes "e \<in> sess_endpoint ` set (m_sessions (sv_sessions sv))"
  shows "sv_out (fold (\<lambda>d. handle_datagram vt now e d) (map ping_bytes ts) sv) = sv_out sv @ map (\<lambda>t. (e, pong_bytes t)) ts"
  using assms
proof (induction ts arbitrary: sv)
  case (Cons t ts)
  have "set (map sess_endpoint (m_sessions (snd (Touch e now m)))) = set (map sess_endpoint (m_sessions m))" for m
    unfolding rows_columns rows_Touch ..
  with Cons.prems have "e \<in> sess_endpoint ` set (m_sessions (sv_sessions (handle_datagram vt now e (ping_bytes t) sv)))"
    by (simp add: handle_ping)
  from Cons.IH [OF this] show ?case by (simp add: handle_ping [OF Cons.prems])
qed simp

section \<open>The rounds\<close>

text \<open>A network that takes every datagram, and what RecvFrom returns for one of the server.\<close>

definition net_works :: "nt_env \<Rightarrow> nettest \<Rightarrow> bool" where
  "net_works E s \<longleftrightarrow> m_open (nt_socket s) \<and> (\<forall>h e d. env_sendto E h e d = int (length d))"

definition arrives :: "Endpoint \<Rightarrow> u8 list \<Rightarrow> (Received \<times> u8 list) option" where
  "arrives server d = Some (\<lparr>rcv_size = length d, rcv_from = server\<rparr>, d)"

lemma Exchange_arrives:
  "net_works E s \<Longrightarrow> nt_inbox s = arrives server d # rest \<Longrightarrow>
   Exchange E server req s = (Some d, s\<lparr>nt_sent := nt_sent s @ [(server, req)], nt_inbox := rest\<rparr>)"
  by (simp add: Exchange_def nt_SendTo_def UdpSocket_SendTo_def net_works_def RecvNext_def arrives_def)

lemma say_simps [simp]:
  "net_works E (say l s) = net_works E s" "nt_sent (say l s) = nt_sent s" "nt_inbox (say l s) = nt_inbox s" "nt_clock (say l s) = nt_clock s"
  by (simp_all add: say_def net_works_def)

lemma net_works_update [simp]:
  "net_works E (s\<lparr>nt_sent := x\<rparr>) = net_works E s" "net_works E (s\<lparr>nt_inbox := y\<rparr>) = net_works E s"
  "net_works E (s\<lparr>nt_clock := z\<rparr>) = net_works E s"
  by (simp_all add: net_works_def)

lemma Decode_pong: "Decode Pong_T (pong_bytes t) Pong_default = (True, \<lparr>pong_sentAt = t\<rparr>)"
  by (rule pong.Decode_Encode) (simp_all add: pong_bytes_def pong.Encode_iff kMaxDatagram_def)

lemma ping_round_pong:
  assumes "net_works E s" and "nt_inbox s = arrives server (pong_bytes t) # rest" and "nt_clock s = t # t' # clock"
  shows "\<exists>s'. ping_round E server i s = (True, s') \<and> net_works E s' \<and> nt_inbox s' = rest \<and> nt_clock s' = clock \<and>
    nt_sent s' = nt_sent s @ [(server, ping_bytes t)]"
proof -
  let ?s = "s\<lparr>nt_clock := t' # clock\<rparr>"
  have "Exchange E server (ping_bytes t) ?s = (Some (pong_bytes t), ?s\<lparr>nt_sent := nt_sent ?s @ [(server, ping_bytes t)], nt_inbox := rest\<rparr>)"
    by (rule Exchange_arrives) (use assms in simp_all)
  with assms show ?thesis by (simp add: ping_round_def NowMicros_def Encode_ping Decode_pong Let_def)
qed

lemma ping_rounds_pongs:
  assumes "net_works E s" and "nt_inbox s = map (arrives server \<circ> pong_bytes) ts"
    and "nt_clock s = concat (map (\<lambda>t. [t, later t]) ts)" and "length js = length ts"
  shows "fst (ping_rounds E server js (a, s)) = a + int (length ts) \<and>
    nt_sent (snd (ping_rounds E server js (a, s))) = nt_sent s @ map (\<lambda>t. (server, ping_bytes t)) ts"
  using assms
proof (induction js arbitrary: a s ts)
  case (Cons j js)
  then obtain t us where ts: "ts = t # us" by (cases ts) auto
  with Cons.prems have "nt_inbox s = arrives server (pong_bytes t) # map (arrives server \<circ> pong_bytes) us"
    "nt_clock s = t # later t # concat (map (\<lambda>t. [t, later t]) us)" by simp_all
  from ping_round_pong [OF Cons.prems(1) this, of j] obtain s' where
    s': "ping_round E server j s = (True, s')" "net_works E s'" "nt_inbox s' = map (arrives server \<circ> pong_bytes) us"
    "nt_clock s' = concat (map (\<lambda>t. [t, later t]) us)" "nt_sent s' = nt_sent s @ [(server, ping_bytes t)]" by blast
  from Cons.IH [OF s'(2-4), of "a + 1"] Cons.prems(4) ts s'(1) show ?case by (simp add: ping_rounds_def s'(5))
qed (simp add: ping_rounds_def)

lemma ping_rounds_bound: "fst (ping_rounds E server js (a, s)) \<le> a + int (length js)"
proof (induction js arbitrary: a s)
  case (Cons j js)
  obtain ok s' where r: "ping_round E server j s = (ok, s')" by fastforce
  show ?case using Cons [of "if ok then a + 1 else a" s'] by (auto simp: ping_rounds_def r split: if_splits)
qed (simp add: ping_rounds_def)

lemma ping_round_other:
  assumes "net_works E s" and "nt_inbox s = arrives server d # rest" and "\<not> fst (Decode Pong_T d Pong_default)"
  shows "\<not> fst (ping_round E server i s)"
proof -
  obtain t s1 where c: "NowMicros s = (t, s1)" by fastforce
  then have "net_works E s1" "nt_inbox s1 = arrives server d # rest"
    using assms(1,2) by (auto simp: NowMicros_def split: list.splits)
  note x = Exchange_arrives [OF this]
  from assms(3) show ?thesis
    by (cases "Decode Pong_T d Pong_default") (simp add: ping_round_def c Encode_ping x Let_def)
qed

lemma run_pings_accepted:
  assumes "net_works E s" and "nt_inbox s = arrives server (ack_bytes Accepted) # rest" and "length u \<le> 1190"
  shows "\<exists>s'. net_works E s' \<and> nt_inbox s' = rest \<and> nt_clock s' = nt_clock s \<and>
    nt_sent s' = nt_sent s @ [(server, hello_bytes u)] \<and>
    fst (run_pings E server rounds kVersion u s) = (if fst (ping_rounds E server [1..rounds] (0, s')) = rounds then 0 else 1) \<and>
    nt_sent (snd (run_pings E server rounds kVersion u s)) = nt_sent (snd (ping_rounds E server [1..rounds] (0, s')))"
proof -
  let ?ack = "\<lparr>ack_accepted = True, ack_version = kVersion, ack_reason = []\<rparr>"
  have "Encode HelloAck_T ?ack = (True, ack_bytes Accepted)"
    by (simp add: ack_bytes_def hello_ack.Encode_iff kMaxDatagram_def)
  then have d: "Decode HelloAck_T (ack_bytes Accepted) HelloAck_default = (True, ?ack)"
    by (intro hello_ack.Decode_Encode) (simp_all add: name_ok_def)
  have enc: "Encode Hello_T \<lparr>hello_version = kVersion, hello_username = u\<rparr> = (True, hello_bytes u)"
    using assms(3) by (simp add: Encode_hello)
  let ?s' = "say (handshake_line ?ack) (s\<lparr>nt_sent := nt_sent s @ [(server, hello_bytes u)], nt_inbox := rest\<rparr>)"
  have "fst (run_pings E server rounds kVersion u s) = (if fst (ping_rounds E server [1..rounds] (0, ?s')) = rounds then 0 else 1) \<and>
      nt_sent (snd (run_pings E server rounds kVersion u s)) = nt_sent (snd (ping_rounds E server [1..rounds] (0, ?s')))"
    by (simp add: run_pings_def enc Exchange_arrives [OF assms(1,2)] d split: prod.splits)
  with assms(1) show ?thesis by (intro exI [of _ ?s']) simp
qed

section \<open>Properties\<close>

text \<open>
  C38: The walker counts as the game does: of the same datagrams, none of them a leave, it counts as many
  states, and as many out of order, as the client of the game, and ends with the same newest tick of
  every player.
\<close>

theorem walk_counts_like_client:
  assumes "walk_like w c" and "list_all (\<lambda>d. \<forall>l. parse d \<noteq> Some (M_NotifyPlayerLeft l)) ds"
  shows "case (fold walk_datagram ds (w, s), fold (HandleDatagram us) ds c) of
    ((w', s'), c') \<Rightarrow> wk_statesIn w' = m_statesReceived c' \<and> wk_outOfOrder w' = m_statesOutOfOrder c' \<and>
      (\<forall>p. map_of (wk_lastTickPerPlayer w') p = map_option snap_tick (map_of (m_remote c') p))"
  using assms
proof (induction ds arbitrary: w c s)
  case (Cons d ds)
  obtain w1 s1 where d: "walk_datagram d (w, s) = (w1, s1)" by fastforce
  with walk_like_step [OF Cons.prems(1), of d s us] Cons.prems(2) have "walk_like w1 (HandleDatagram us d c)" by simp
  from Cons.IH [OF this, of s1] Cons.prems(2) d show ?case by simp
qed (simp add: walk_like_def)

text \<open>The client and the walker before anything has come.\<close>

definition still :: nettest where
  "still = \<lparr>nt_socket = \<lparr>m_handle = 5, m_open = True\<rparr>, nt_sent = [], nt_lines = [], nt_inbox = [], nt_clock = []\<rparr>"

theorem walk_counts_like_client_witness:
  "let n = (\<lambda>k t. state_bytes \<lparr>nps_playerId = k, nps_tick = t, nps_position = \<lparr>vx = 0, vy = 0, vz = 0\<rparr>, nps_rotation = 0\<rparr>);
       ds = [n 7 2, n 8 9, n 7 1]
   in wk_outOfOrder (fst (fold walk_datagram ds (walk_start, still))) = m_statesOutOfOrder (fold (HandleDatagram 0) ds fresh_client)"
proof -
  let ?n = "\<lambda>k t. state_bytes \<lparr>nps_playerId = k, nps_tick = t, nps_position = \<lparr>vx = 0, vy = 0, vz = 0\<rparr>, nps_rotation = 0\<rparr>"
  have w: "walk_like walk_start fresh_client"
    by (simp add: walk_like_def walk_start_def fresh_client_def mk_NetClient_def)
  have l: "list_all (\<lambda>d. \<forall>l. parse d \<noteq> Some (M_NotifyPlayerLeft l)) [?n 7 2, ?n 8 9, ?n 7 1]"
    by (simp add: parse_state_bytes)
  show ?thesis
    using walk_counts_like_client [OF w l, of still 0]
    by (simp only: Let_def case_prod_beta fst_conv snd_conv)
qed

text \<open>
  C36: Alone on the server, the test passes: if every datagram arrives, the server accepts the name and
  answers every ping, each answer is the pong with the time stamp of its round, and the program exits
  with 0; it sent its hello and one ping a round. (While ids are distinct: for fewer than
  2^32 - 1 joins.)
\<close>

theorem nettest_alone:
  assumes "sm_inv (sv_sessions sv)" and "ids_inv (sv_sessions sv)" and "m_sessions (sv_sessions sv) = []"
    and "0 < m_maxPlayers (sv_sessions sv)" and "u \<noteq> []" and "name_ok u"
    and "net_works E s" and "nt_clock s = concat (map (\<lambda>t. [t, later t]) ts)"
    and "nt_inbox s = map (arrives server) (to_peer e (answers sv
      (fold (handle_datagram vt now e) (hello_bytes u # map ping_bytes ts) sv)))"
  shows "let (code, s') = run_pings E server (int (length ts)) kVersion u s in
    code = 0 \<and> nt_sent s' = nt_sent s @ map (Pair server) (hello_bytes u # map ping_bytes ts)"
proof -
  let ?sv1 = "handle_datagram vt now e (hello_bytes u) sv"
  have free: "u \<notin> sess_username ` set (m_sessions (sv_sessions sv))" "e \<notin> sess_endpoint ` set (m_sessions (sv_sessions sv))"
    "Count (sv_sessions sv) < m_maxPlayers (sv_sessions sv)" using assms(3,4) by (simp_all add: Count_def)
  have "answers sv ?sv1 = [(e, ack_bytes Accepted)]" and row: "(m_nextId (sv_sessions sv), u, e) \<in> set (rows (sv_sessions ?sv1))"
    using hello_answers [OF assms(1,2,5,6) free, of vt now] assms(3) by (simp_all add: Let_def)
  then have "length (sv_out sv) < length (sv_out ?sv1)" by (simp add: answers_def) (metis drop_all leI list.discI)
  have "e \<in> sess_endpoint ` set (m_sessions (sv_sessions ?sv1))" using row by (force simp: rows_def)
  from serve_pings [OF this, of vt now ts]
  have "answers sv (fold (handle_datagram vt now e) (hello_bytes u # map ping_bytes ts) sv) =
      (e, ack_bytes Accepted) # map (\<lambda>t. (e, pong_bytes t)) ts"
    using \<open>answers sv ?sv1 = [(e, ack_bytes Accepted)]\<close> \<open>length (sv_out sv) < length (sv_out ?sv1)\<close> by (simp add: answers_def)
  then have inbox: "nt_inbox s = arrives server (ack_bytes Accepted) # map (arrives server \<circ> pong_bytes) ts"
    using assms(9) by (simp add: to_peer_def comp_def filter_map)
  have "length u \<le> 1190" using assms(6) by (simp add: name_ok_def)
  from run_pings_accepted [OF assms(7) inbox this, of "int (length ts)"] obtain s1 where s1: "net_works E s1"
    "nt_inbox s1 = map (arrives server \<circ> pong_bytes) ts" "nt_clock s1 = nt_clock s" "nt_sent s1 = nt_sent s @ [(server, hello_bytes u)]"
    "fst (run_pings E server (int (length ts)) kVersion u s) =
      (if fst (ping_rounds E server [1..int (length ts)] (0, s1)) = int (length ts) then 0 else 1)"
    "nt_sent (snd (run_pings E server (int (length ts)) kVersion u s)) = nt_sent (snd (ping_rounds E server [1..int (length ts)] (0, s1)))"
    by blast
  from ping_rounds_pongs [OF s1(1,2), of later "[1..int (length ts)]" 0] s1 assms(8) show ?thesis
    by (simp add: case_prod_beta comp_def)
qed

text \<open>A socket on a network that takes everything, with what the server answered in its inbox.\<close>

definition test_env :: nt_env where
  "test_env = \<lparr>env_atoi = (\<lambda>_. 0), env_strtof = (\<lambda>_. 0), env_cos = (\<lambda>_. 0), env_sin = (\<lambda>_. 0), env_pid = 0,
     env_version = [], env_hash = [], env_startup = True, env_socket = Some 5, env_sendto = (\<lambda>_ _ d. int (length d))\<rparr>"

lemma still_works: "net_works test_env (still\<lparr>nt_inbox := xs, nt_clock := ts\<rparr>)"
  by (simp add: net_works_def test_env_def still_def)

theorem nettest_alone_witness:
  "let e = \<lparr>address = 1, port = 1\<rparr>; sv = server_start spy_vt None;
       got = to_peer e (answers sv (fold (handle_datagram spy_vt 7 e) [hello_bytes ''n'', ping_bytes 100] sv));
       s = still\<lparr>nt_inbox := map (arrives (Loopback 11780)) got, nt_clock := [100, 350]\<rparr>
   in fst (run_pings test_env (Loopback 11780) 1 kVersion ''n'' s) = 0"
proof -
  let ?e = "\<lparr>address = 1, port = 1\<rparr>" and ?sv = "server_start spy_vt None"
  let ?got = "to_peer ?e (answers ?sv (fold (handle_datagram spy_vt 7 ?e) (hello_bytes ''n'' # map ping_bytes [100]) ?sv))"
  let ?s = "still\<lparr>nt_inbox := map (arrives (Loopback 11780)) ?got, nt_clock := [100, 350]\<rparr>"
  have inv: "sm_inv (sv_sessions ?sv)" "ids_inv (sv_sessions ?sv)"
    unfolding server_start_sessions by (rule mk_SessionManager_inv)+
  have clock: "nt_clock ?s = concat (map (\<lambda>t. [t, t + 250]) [100])" by simp
  have inbox: "nt_inbox ?s = map (arrives (Loopback 11780)) ?got" by simp
  have "fst (run_pings test_env (Loopback 11780) (int (length [100 :: u64])) kVersion ''n'' ?s) = 0"
    using nettest_alone [OF inv _ _ _ _ still_works clock inbox]
    by (simp add: server_start_sessions mk_SessionManager_def kMaxPlayers_def name_ok_def Let_def case_prod_beta)
  then show ?thesis by (simp add: Let_def)
qed

text \<open>
  C37: In company it fails: when somebody else is online, the first datagram after the acknowledgement is
  the notice about him, which the program takes for the answer to its first ping; so it exits with 1
  whatever comes later, although the server accepted it and answers its pings. (While ids are distinct: for fewer than
  2^32 - 1 joins.)
\<close>

theorem nettest_in_company:
  assumes "sm_inv (sv_sessions sv)" and "ids_inv (sv_sessions sv)" and "m_sessions (sv_sessions sv) \<noteq> []"
    and "Count (sv_sessions sv) < m_maxPlayers (sv_sessions sv)" and "u \<noteq> []" and "name_ok u"
    and "u \<notin> sess_username ` set (m_sessions (sv_sessions sv))" and "e \<notin> sess_endpoint ` set (m_sessions (sv_sessions sv))"
    and "net_works E s" and "0 < rounds"
    and "nt_inbox s = map (arrives server) (to_peer e (answers sv (handle_datagram vt now e (hello_bytes u) sv))) @ later"
  shows "fst (run_pings E server rounds kVersion u s) = 1"
proof -
  let ?old = "m_sessions (sv_sessions sv)"
  obtain x xs where old: "?old = x # xs" using assms(3) by (cases ?old) auto
  let ?j = "joined_bytes (sess_id x) (sess_username x)"
  from hello_answers [OF assms(1,2,5-8,4), of vt now] have "answers sv (handle_datagram vt now e (hello_bytes u) sv) =
      (e, ack_bytes Accepted) # (e, ?j) # map (\<lambda>s. (e, joined_bytes (sess_id s) (sess_username s))) xs @
        map (\<lambda>s. (sess_endpoint s, joined_bytes (m_nextId (sv_sessions sv)) u)) ?old"
    by (simp add: Let_def old)
  then obtain rest where inbox: "nt_inbox s = arrives server (ack_bytes Accepted) # arrives server ?j # rest"
    using assms(11) by (simp add: to_peer_def)
  have nm: "name_ok (sess_username x)" using assms(1) old by (simp add: sm_inv_def)
  have "Encode_message (M_NotifyPlayerJoined \<lparr>npj_playerId = sess_id x, npj_username = sess_username x\<rparr>) = (True, ?j)"
    using nm by (simp add: joined_bytes_def notify_joined.Encode_iff kMaxDatagram_def name_ok_def)
  from Encode_message_hd [OF this] have "hd ?j = u8_of_Type Type_NotifyPlayerJoined" by simp
  then have j: "\<not> fst (Decode Pong_T ?j Pong_default)"
    by (rule pong.Decode_other_type) (simp_all add: real_type_def)
  have "length u \<le> 1190" using assms(6) by (simp add: name_ok_def)
  from run_pings_accepted [OF assms(9) inbox this, of rounds] obtain s1 where s1: "net_works E s1"
    "nt_inbox s1 = arrives server ?j # rest"
    "fst (run_pings E server rounds kVersion u s) = (if fst (ping_rounds E server [1..rounds] (0, s1)) = rounds then 0 else 1)"
    by blast
  obtain ok s2 where r: "ping_round E server 1 s1 = (ok, s2)" by fastforce
  with ping_round_other [OF s1(1,2) j, of 1] have "\<not> ok" by simp
  with r assms(10) have "ping_rounds E server [1..rounds] (0, s1) = ping_rounds E server [2..rounds] (0, s2)"
    by (simp add: ping_rounds_def upto_rec1)
  with ping_rounds_bound [of E server "[2..rounds]" 0 s2] assms(10) s1(3) show ?thesis by simp
qed

theorem nettest_in_company_witness:
  "let e = \<lparr>address = 9, port = 9\<rparr>;
       got = to_peer e (answers two_players (handle_datagram spy_vt 100 e (hello_bytes ''c'') two_players));
       s = still\<lparr>nt_inbox := map (arrives (Loopback 11780)) got @ [arrives (Loopback 11780) (pong_bytes 0)], nt_clock := []\<rparr>
   in fst (run_pings test_env (Loopback 11780) 1 kVersion ''c'' s) = 1"
proof -
  let ?e = "\<lparr>address = 9, port = 9\<rparr>"
  let ?got = "to_peer ?e (answers two_players (handle_datagram spy_vt 100 ?e (hello_bytes ''c'') two_players))"
  let ?s = "still\<lparr>nt_inbox := map (arrives (Loopback 11780)) ?got @ [arrives (Loopback 11780) (pong_bytes 0)], nt_clock := []\<rparr>"
  have inbox: "nt_inbox ?s = map (arrives (Loopback 11780)) ?got @ [arrives (Loopback 11780) (pong_bytes 0)]" by simp
  have "fst (run_pings test_env (Loopback 11780) 1 kVersion ''c'' ?s) = 1"
    by (rule nettest_in_company [OF two_players_inv _ _ _ _ _ _ still_works _ inbox])
      (simp_all add: two_players_def Session_default_def Count_def name_ok_def)
  then show ?thesis by (simp add: Let_def)
qed

end
