(* ===== verification/Keep_Alive.thy ===== *)
theory Keep_Alive imports
  Server_Process
  Nettest
begin

text \<open>
  The clocks of a connection: the ping interval and the two timeouts of src/src/client/NetClient.cpp and
  src/src/server/main.cpp fit together. A client and the server run side by side, each by its own loop,
  on the clock of one machine (the client only ever talks to its own host); what the network does to a
  datagram between them is a bound on its delay. And what becomes of a client whose session is gone.
\<close>

section \<open>Being heard in time\<close>

text \<open>A run over times, of which some are times at which the peer is heard.\<close>

fun timely :: "nat \<Rightarrow> nat \<Rightarrow> (nat \<times> bool) list \<Rightarrow> bool" where
  "timely limit lastAt [] = True"
| "timely limit lastAt ((now, heard) # xs) =
     (lastAt \<le> now \<and> now < lastAt + limit \<and> timely limit (if heard then now else lastAt) xs)"

lemma timely_window:
  assumes "sorted (map fst xs)" and "\<forall>(n, b) \<in> set xs. lastAt \<le> n"
    and "\<And>n b. (n, b) \<in> set xs \<Longrightarrow> n < lastAt + limit \<or> (\<exists>m. (m, True) \<in> set xs \<and> m < n \<and> n < m + limit)"
  shows "timely limit lastAt xs"
  using assms
proof (induction xs arbitrary: lastAt)
  case (Cons x xs)
  obtain n b where x: "x = (n, b)" by fastforce
  have n: "lastAt \<le> n" using Cons.prems(2) x by simp
  have min: "\<And>m b'. (m, b') \<in> set xs \<Longrightarrow> n \<le> m" using Cons.prems(1) x by force
  have "n < lastAt + limit" using Cons.prems(3) [of n b] x min by fastforce
  moreover have "timely limit (if b then n else lastAt) xs"
  proof (rule Cons.IH)
    show "sorted (map fst xs)" using Cons.prems(1) by simp
    show "\<forall>(m, b') \<in> set xs. (if b then n else lastAt) \<le> m" using Cons.prems(2) min by auto
    fix m b' assume m: "(m, b') \<in> set xs"
    with Cons.prems(3) [of m b'] consider "m < lastAt + limit"
      | k where "(k, True) \<in> set (x # xs)" "k < m" "m < k + limit" by auto
    then show "m < (if b then n else lastAt) + limit \<or> (\<exists>k. (k, True) \<in> set xs \<and> k < m \<and> m < k + limit)"
    proof cases
      case 1
      with n show ?thesis by auto
    next
      case 2
      with x show ?thesis by auto
    qed
  qed
  ultimately show ?case using x n by simp
qed simp

lemma heard_often_timely:
  "heard_often limit e t evs = timely (unat limit) (unat t) (map (\<lambda>(now, r). (unat now, brings e r)) evs)"
  by (induction limit e t evs rule: heard_often.induct)
    (auto simp: word_le_nat_alt word_less_nat_alt unat_sub)

section \<open>A connected client\<close>

abbreviation at_ms :: "turn \<Rightarrow> nat" where "at_ms t \<equiv> unat (t_now t)"

text \<open>What a run hands to the socket, with the time of the turn.\<close>

fun client_sends :: "os_sendto \<Rightarrow> turn list \<Rightarrow> NetClient \<times> run_locals \<Rightarrow> (u64 \<times> u8 list) list" where
  "client_sends os [] x = []"
| "client_sends os (t # ts) x =
     (case run_turn os t x of (go, x1) \<Rightarrow>
        map (\<lambda>(a, d). (t_now t, d)) (drop (length (nc_out (fst x))) (nc_out (fst x1))) @
        (if go then client_sends os ts x1 else []))"

lemma client_sends_append:
  "Run os xs x = (True, y) \<Longrightarrow> client_sends os (xs @ ys) x = client_sends os xs x @ client_sends os ys y"
  by (induction xs arbitrary: x) (auto split: prod.splits bool.splits)

definition connected :: "Endpoint \<Rightarrow> NetClient \<Rightarrow> bool" where
  "connected srv c \<longleftrightarrow> m_state c = Connected \<and> m_open (m_socket c) \<and> m_server c = srv"

text \<open>No acknowledgement of the server takes the connection back.\<close>

definition unrefused :: "Endpoint \<Rightarrow> turn \<Rightarrow> bool" where
  "unrefused srv t \<longleftrightarrow> (case turn_ack srv t of None \<Rightarrow> True | Some a \<Rightarrow> ack_accepted a)"

lemma connected_turn:
  assumes "connected srv c" and "unrefused srv t" and "t_now t - lastServerAt l < 8000"
  shows "\<exists>c' l'. run_turn os t (c, l) = (True, c', l') \<and> connected srv c' \<and>
    nc_out c' = nc_out c @ (if 1000 \<le> t_now t - lastPingAt l then [(srv, ping_bytes (t_pingMicros t))] else []) \<and>
    lastPingAt l' = (if 1000 \<le> t_now t - lastPingAt l then t_now t else lastPingAt l) \<and>
    lastServerAt l' = (if from_server srv t \<noteq> None then t_now t else lastServerAt l)"
proof -
  have k: "(ucast kPingIntervalMs :: u64) = 1000" "kServerTimeoutMs = 8000"
    by (simp_all add: kPingIntervalMs_def kServerTimeoutMs_def)
  have ping: "snd (SendPing os us c) = c\<lparr>m_sent := m_sent c + 1, nc_out := nc_out c @ [(srv, ping_bytes us)]\<rparr>" for us
    using assms(1) by (simp add: SendPing_def Ping_default_def Encode_ping client_send_def UdpSocket_SendTo_def Let_def connected_def)
  define x where "x = (if 1000 \<le> t_now t - lastPingAt l
    then (c\<lparr>m_sent := m_sent c + 1, nc_out := nc_out c @ [(srv, ping_bytes (t_pingMicros t))]\<rparr>, l\<lparr>lastPingAt := t_now t\<rparr>) else (c, l))"
  have "run_timers os (t_now t) (t_pingMicros t) (c, l) = (True, x)"
    using assms(1) assms(3) [unfolded not_le [symmetric]] by (simp add: run_timers_def k ping connected_def x_def Let_def)
  then have r: "run_turn os t (c, l) = (True, run_receive (t_now t) (t_pongMicros t) (t_received t) x)"
    by (simp add: run_turn_def)
  obtain c1 l1 where x: "x = (c1, l1)" by fastforce
  have x1: "connected srv c1" "nc_out c1 = nc_out c @ (if 1000 \<le> t_now t - lastPingAt l then [(srv, ping_bytes (t_pingMicros t))] else [])"
    "lastPingAt l1 = (if 1000 \<le> t_now t - lastPingAt l then t_now t else lastPingAt l)" "lastServerAt l1 = lastServerAt l"
    using assms(1) x by (auto simp: x_def connected_def split: if_splits)
  then have srv: "m_server c1 = srv" by (simp add: connected_def)
  show ?thesis
  proof (cases "from_server srv t")
    case None
    with r x x1 srv show ?thesis by (simp add: run_receive_eq)
  next
    case (Some d)
    have "connected srv (HandleDatagram (t_pongMicros t) d (c1\<lparr>m_received := m_received c1 + 1\<rparr>))"
      using x1(1) assms(2) Some
      by (auto simp: connected_def HandleDatagram_state unrefused_def turn_ack_def ack_result_def split: option.splits)
    with r x x1 srv Some show ?thesis by (simp add: run_receive_eq)
  qed
qed

lemma Run_connected:
  assumes "connected srv c" and "\<forall>t \<in> set ts. unrefused srv t"
    and "timely 8000 (unat (lastServerAt l)) (map (\<lambda>t. (at_ms t, from_server srv t \<noteq> None)) ts)"
    and "sorted (map at_ms ts)" and "\<forall>t \<in> set ts. unat (lastPingAt l) \<le> at_ms t"
  shows "\<exists>c' l'. Run os ts (c, l) = (True, c', l') \<and> connected srv c' \<and>
    (\<forall>t \<in> set ts. \<exists>T. (T = lastPingAt l \<or> (\<exists>us. (T, ping_bytes us) \<in> set (client_sends os ts (c, l)))) \<and>
       unat T \<le> at_ms t \<and> at_ms t < unat T + 1000)"
  using assms
proof (induction ts arbitrary: c l)
  case (Cons t ts)
  have "t_now t - lastServerAt l < 8000"
    using Cons.prems(3) by (auto simp: word_less_nat_alt unat_sub word_le_nat_alt)
  from connected_turn [OF Cons.prems(1) _ this, of os] Cons.prems(2) obtain c1 l1 where
    t: "run_turn os t (c, l) = (True, c1, l1)" "connected srv c1"
      "nc_out c1 = nc_out c @ (if 1000 \<le> t_now t - lastPingAt l then [(srv, ping_bytes (t_pingMicros t))] else [])"
      "lastPingAt l1 = (if 1000 \<le> t_now t - lastPingAt l then t_now t else lastPingAt l)"
      "lastServerAt l1 = (if from_server srv t \<noteq> None then t_now t else lastServerAt l)" by auto
  have due: "1000 \<le> t_now t - lastPingAt l \<longleftrightarrow> unat (lastPingAt l) + 1000 \<le> at_ms t"
    using Cons.prems(5) by (auto simp: word_le_nat_alt unat_sub)
  have ping: "lastPingAt l1 = lastPingAt l \<or> (lastPingAt l1, ping_bytes (t_pingMicros t)) \<in> set (client_sends os (t # ts) (c, l))"
    using t by simp
  have P: "unat (lastPingAt l1) \<le> at_ms t \<and> at_ms t < unat (lastPingAt l1) + 1000"
    using t(4) due Cons.prems(5) by auto
  have "\<forall>u \<in> set ts. unat (lastPingAt l1) \<le> at_ms u" using P Cons.prems(4) by fastforce
  moreover have "timely 8000 (unat (lastServerAt l1)) (map (\<lambda>t. (at_ms t, from_server srv t \<noteq> None)) ts)"
    using Cons.prems(3) t(5) by (simp split: if_splits)
  ultimately obtain c' l' where r: "Run os ts (c1, l1) = (True, c', l')" "connected srv c'"
    "\<forall>u \<in> set ts. \<exists>T. (T = lastPingAt l1 \<or> (\<exists>us. (T, ping_bytes us) \<in> set (client_sends os ts (c1, l1)))) \<and>
       unat T \<le> at_ms u \<and> at_ms u < unat T + 1000"
    using Cons.IH [OF t(2), of l1] Cons.prems(2,4) by auto
  have sub: "set (client_sends os ts (c1, l1)) \<subseteq> set (client_sends os (t # ts) (c, l))" using t(1) by simp
  have "\<exists>T. (T = lastPingAt l \<or> (\<exists>us. (T, ping_bytes us) \<in> set (client_sends os (t # ts) (c, l)))) \<and>
       unat T \<le> at_ms u \<and> at_ms u < unat T + 1000" if "u \<in> set (t # ts)" for u
  proof (cases "u = t")
    case True
    with ping P show ?thesis by blast
  next
    case False
    with that r(3) obtain T where "T = lastPingAt l1 \<or> (\<exists>us. (T, ping_bytes us) \<in> set (client_sends os ts (c1, l1)))"
      "unat T \<le> at_ms u" "at_ms u < unat T + 1000" by auto
    with ping sub show ?thesis by blast
  qed
  with t(1) r(1,2) show ?case by simp
qed simp

section \<open>The server answers who it hears\<close>

text \<open>What a run of the server sends to a peer, with the time of the turn.\<close>

fun server_sends ::
  "'b IBackend \<Rightarrow> Endpoint \<Rightarrow> (u64 \<times> (Received \<times> u8 list) option) list \<Rightarrow> 'b server \<Rightarrow> (u64 \<times> u8 list) list" where
  "server_sends vt e [] sv = []"
| "server_sends vt e (ev # evs) sv =
     (let sv' = loop_body vt ev sv
      in map (Pair (fst ev)) (to_peer e (answers sv sv')) @ server_sends vt e evs sv')"

lemma server_sends_append:
  "server_sends vt e (xs @ ys) sv = server_sends vt e xs sv @ server_sends vt e ys (server_run vt xs sv)"
  by (induction xs arbitrary: sv) (simp_all add: server_run_def Let_def)

lemma run_kicks_appends: "\<exists>ds. sv_out (run_kicks vt sv) = sv_out sv @ ds"
  using run_kicks_tells [of sv "peers sv" vt] by (auto simp: tells_def)

text \<open>A datagram of the endpoint, as RecvFrom returned it.\<close>

definition carries :: "Endpoint \<Rightarrow> u8 list \<Rightarrow> (Received \<times> u8 list) option \<Rightarrow> bool" where
  "carries e d received =
     (case received of None \<Rightarrow> False | Some (r, buffer) \<Rightarrow> rcv_from r = e \<and> take (rcv_size r) buffer = d)"

lemma carries_brings: "carries e (ping_bytes us) received \<Longrightarrow> brings e received"
  using parse_ping [of us] by (auto simp: carries_def brings_def parse_def split: option.splits prod.splits if_splits)

lemma loop_body_answers:
  assumes "keeps p u e t sv" and "t \<le> now" and "now - t < 10000" and "spares p vt" and "carries e (ping_bytes us) received"
  shows "pong_bytes us \<in> set (to_peer e (answers sv (loop_body vt (now, received) sv)))"
proof -
  obtain r b where rb: "received = Some (r, b)" "rcv_from r = e" "take (rcv_size r) b = ping_bytes us"
    using assms(5) by (auto simp: carries_def split: option.splits)
  let ?sv1 = "sweep vt now sv"
  let ?sv2 = "?sv1\<lparr>sv_scripts := ScriptHost_OnTick vt now (sv_sessions ?sv1) (sv_scripts ?sv1)\<rparr>"
  let ?sv3 = "run_kicks vt ?sv2"
  have "heard_at p u e t (sv_sessions (loop_body vt (now, None) sv))"
    using loop_body_heard [of sv p u e t now vt None] assms(1-4) by (simp add: keeps_def kTimeoutMs_def brings_def)
  then have "e \<in> sess_endpoint ` set (m_sessions (sv_sessions ?sv3))" by (auto simp: loop_body_def Let_def heard_at_def)
  from handle_ping [OF this, of vt now us] rb
  have out: "sv_out (loop_body vt (now, received) sv) = sv_out ?sv3 @ [(e, pong_bytes us)]"
    by (simp add: loop_body_def Let_def)
  obtain ds where "sv_out ?sv1 = sv_out sv @ ds" using sweep_appends by blast
  moreover obtain ds' where "sv_out ?sv3 = sv_out ?sv2 @ ds'" using run_kicks_appends by blast
  ultimately have "length (sv_out sv) \<le> length (sv_out ?sv3)" by simp
  then show ?thesis by (simp add: answers_def out to_peer_def)
qed

lemma server_run_answers:
  assumes "keeps p u e t sv" and "heard_often 10000 e t evs" and "spares p vt"
    and "unat (m_nextId (sv_sessions sv)) + length evs < 2 ^ 32"
    and "(now, received) \<in> set evs" and "carries e (ping_bytes us) received"
  shows "(now, pong_bytes us) \<in> set (server_sends vt e evs sv)"
  using assms
proof (induction evs arbitrary: sv t)
  case (Cons ev evs)
  obtain n r where ev: "ev = (n, r)" by fastforce
  have fresh: "t \<le> n" "n - t < 10000" using Cons.prems(2) ev by simp_all
  have k: "keeps p u e (if brings e r then n else t) (loop_body vt ev sv)"
    and m: "unat (m_nextId (sv_sessions (loop_body vt ev sv))) + length evs < 2 ^ 32"
    using loop_body_keeps [OF Cons.prems(1) fresh Cons.prems(3)] Cons.prems(4) ev by simp_all
  show ?case
  proof (cases "(now, received) = ev")
    case True
    with loop_body_answers [OF Cons.prems(1) fresh Cons.prems(3)] Cons.prems(6) ev show ?thesis by (auto simp: Let_def)
  next
    case False
    with Cons.IH [OF k _ Cons.prems(3) m] Cons.prems(2,5,6) ev show ?thesis by (auto simp: Let_def)
  qed
qed simp

section \<open>Side by side\<close>

text \<open>A loop that takes a turn at least every D ms, from t0 to the end E of the observation.\<close>

definition turns_every :: "nat \<Rightarrow> nat \<Rightarrow> nat \<Rightarrow> turn list \<Rightarrow> bool" where
  "turns_every D t0 E ts \<longleftrightarrow> sorted (map at_ms ts) \<and> (\<forall>t \<in> set ts. t0 \<le> at_ms t \<and> at_ms t \<le> E) \<and>
     (\<forall>w \<in> {t0..E}. \<exists>t \<in> set ts. at_ms t \<le> w \<and> w < at_ms t + D)"

definition clock_to :: "nat \<Rightarrow> nat \<Rightarrow> (u64 \<times> (Received \<times> u8 list) option) list \<Rightarrow> bool" where
  "clock_to t0 E evs \<longleftrightarrow> sorted (map (\<lambda>ev. unat (fst ev)) evs) \<and> (\<forall>ev \<in> set evs. t0 \<le> unat (fst ev) \<and> unat (fst ev) \<le> E)"

text \<open>What is sent to the server, and to the client, arrives within L ms, unless the observation ends before.\<close>

definition delivers_up ::
  "nat \<Rightarrow> nat \<Rightarrow> Endpoint \<Rightarrow> (u64 \<times> u8 list) list \<Rightarrow> (u64 \<times> (Received \<times> u8 list) option) list \<Rightarrow> bool" where
  "delivers_up L E e sent evs \<longleftrightarrow> (\<forall>(T, d) \<in> set sent. unat T + L \<le> E \<longrightarrow>
     (\<exists>(now, received) \<in> set evs. carries e d received \<and> unat T \<le> unat now \<and> unat now \<le> unat T + L))"

definition delivers_down :: "nat \<Rightarrow> nat \<Rightarrow> Endpoint \<Rightarrow> (u64 \<times> u8 list) list \<Rightarrow> turn list \<Rightarrow> bool" where
  "delivers_down L E srv sent ts \<longleftrightarrow> (\<forall>(U, d) \<in> set sent. unat U + L \<le> E \<longrightarrow>
     (\<exists>t \<in> set ts. from_server srv t = Some d \<and> unat U \<le> at_ms t \<and> at_ms t \<le> unat U + L))"

lemma sorted_split: "sorted (map f xs) \<Longrightarrow> xs = filter (\<lambda>x. f x < n) xs @ filter (\<lambda>x. \<not> f x < n) xs" for n :: nat
proof (induction xs)
  case (Cons x xs)
  show ?case
  proof (cases "f x < n")
    case True
    with Cons show ?thesis by simp
  next
    case False
    with Cons.prems have "\<forall>y \<in> set (x # xs). \<not> f y < n" by fastforce
    then show ?thesis by (simp add: filter_empty_conv)
  qed
qed simp

text \<open>Whether the client has heard of the server in time at its turns before n.\<close>

definition heard_before :: "nat \<Rightarrow> Endpoint \<Rightarrow> turn list \<Rightarrow> run_locals \<Rightarrow> bool" where
  "heard_before n srv ts l \<longleftrightarrow>
     timely 8000 (unat (lastServerAt l)) (map (\<lambda>t. (at_ms t, from_server srv t \<noteq> None)) (filter (\<lambda>t. at_ms t < n) ts))"

lemma pings_before:
  assumes "connected srv c" and "\<forall>t \<in> set ts. unrefused srv t" and "turns_every D t0 E ts" and "unat (lastPingAt l) \<le> t0"
    and "heard_before n srv ts l" and "t0 + 1000 + D \<le> w" and "w < n" and "w \<le> E"
  shows "\<exists>T us. (T, ping_bytes us) \<in> set (client_sends os ts (c, l)) \<and> unat T \<le> w \<and> w < unat T + 1000 + D"
proof -
  let ?pre = "filter (\<lambda>t. at_ms t < n) ts" and ?post = "filter (\<lambda>t. \<not> at_ms t < n) ts"
  have srt: "sorted (map at_ms ts)" using assms(3) by (simp add: turns_every_def)
  obtain c' l' where r: "Run os ?pre (c, l) = (True, c', l')"
    and p: "\<forall>t \<in> set ?pre. \<exists>T. (T = lastPingAt l \<or> (\<exists>us. (T, ping_bytes us) \<in> set (client_sends os ?pre (c, l)))) \<and>
       unat T \<le> at_ms t \<and> at_ms t < unat T + 1000"
    using Run_connected [OF assms(1), of ?pre l os] assms(2-5) srt
    by (fastforce simp: heard_before_def turns_every_def sorted_filter)
  have "w \<in> {t0..E}" using assms(6,8) by simp
  with assms(3) obtain t where t: "t \<in> set ts" "at_ms t \<le> w" "w < at_ms t + D" unfolding turns_every_def by blast
  with assms(7) have "t \<in> set ?pre" by simp
  with p obtain T where T: "T = lastPingAt l \<or> (\<exists>us. (T, ping_bytes us) \<in> set (client_sends os ?pre (c, l)))"
    "unat T \<le> at_ms t" "at_ms t < unat T + 1000" by blast
  have "T \<noteq> lastPingAt l" using T(3) t(3) assms(4,6) by auto
  with T(1) obtain us where "(T, ping_bytes us) \<in> set (client_sends os ?pre (c, l))" by blast
  then have "(T, ping_bytes us) \<in> set (client_sends os (?pre @ ?post) (c, l))"
    unfolding client_sends_append [OF r] by simp
  then have "(T, ping_bytes us) \<in> set (client_sends os ts (c, l))" using sorted_split [OF srt, of n] by simp
  with T t show ?thesis by (intro exI [of _ T] exI [of _ us]) simp
qed

lemma heard_until:
  assumes pings: "\<And>w. t0 + 1000 + D \<le> w \<Longrightarrow> w < n \<Longrightarrow> w \<le> E \<Longrightarrow>
      \<exists>T us. (T, ping_bytes us) \<in> set sent \<and> unat T \<le> w \<and> w < unat T + 1000 + D"
    and up: "delivers_up L E e sent evs" and clock: "clock_to (unat s) E evs" and start: "t0 \<le> unat s + L" and DL: "D + 3 * L < 7000"
  shows "heard_often 10000 e s (filter (\<lambda>ev. unat (fst ev) \<le> n) evs)"
proof -
  let ?xs = "map (\<lambda>(now, r). (unat now, brings e r)) (filter (\<lambda>ev. unat (fst ev) \<le> n) evs)"
  have "timely (unat (10000 :: u64)) (unat s) ?xs"
  proof (rule timely_window)
    have "map fst ?xs = map (\<lambda>ev. unat (fst ev)) (filter (\<lambda>ev. unat (fst ev) \<le> n) evs)" by (simp add: case_prod_beta comp_def)
    moreover have "sorted (map (\<lambda>ev. unat (fst ev)) (filter (\<lambda>ev. unat (fst ev) \<le> n) evs))"
      using clock by (simp add: clock_to_def sorted_filter)
    ultimately show "sorted (map fst ?xs)" by (simp only:)
    show "\<forall>(m, b) \<in> set ?xs. unat s \<le> m" using clock by (auto simp: clock_to_def)
    fix m b assume "(m, b) \<in> set ?xs"
    then have m: "m \<le> n" "m \<le> E" using clock by (auto simp: clock_to_def)
    show "m < unat s + unat (10000 :: u64) \<or> (\<exists>k. (k, True) \<in> set ?xs \<and> k < m \<and> m < k + unat (10000 :: u64))"
    proof (cases "m < unat s + 10000")
      case False
      let ?w = "m - 1 - L"
      have "t0 + 1000 + D \<le> ?w" "?w < n" "?w \<le> E" using False start DL m by auto
      from pings [OF this] obtain T us where T: "(T, ping_bytes us) \<in> set sent" "unat T \<le> ?w" "?w < unat T + 1000 + D" by blast
      have "unat T + L \<le> E" using T(2) False DL m(2) by auto
      with up T(1) obtain now received where ev: "(now, received) \<in> set evs" "carries e (ping_bytes us) received"
        "unat T \<le> unat now" "unat now \<le> unat T + L" unfolding delivers_up_def by fast
      have "unat now < m" using ev(4) T(2) False DL by auto
      with ev(1,2) m(1) have "(unat now, True) \<in> set ?xs" using carries_brings by (force intro!: image_eqI [of _ _ "(now, received)"])
      moreover have "m < unat now + unat (10000 :: u64)" using T(3) ev(3) DL by simp
      ultimately show ?thesis using \<open>unat now < m\<close> by blast
    qed simp
  qed
  then show ?thesis by (simp add: heard_often_timely)
qed

lemma heard_always:
  assumes cl: "connected srv c" "\<forall>t \<in> set ts. unrefused srv t" "turns_every D t0 E ts" "unat (lastPingAt l) \<le> t0"
      "unat (lastServerAt l) \<le> t0" "t0 \<le> unat (lastServerAt l) + L"
    and sv: "keeps p u e s sv" "spares p vt" "unat (m_nextId (sv_sessions sv)) + length evs < 2 ^ 32"
      "clock_to (unat s) E evs" "t0 \<le> unat s + L"
    and net: "delivers_up L E e (client_sends os ts (c, l)) evs" "delivers_down L E srv (server_sends vt e evs sv) ts"
    and DL: "D + 3 * L < 7000"
  shows "heard_before n srv ts l"
proof (induction n rule: less_induct)
  case (less n)
  let ?xs = "map (\<lambda>t. (at_ms t, from_server srv t \<noteq> None)) (filter (\<lambda>t. at_ms t < n) ts)"
  have "timely 8000 (unat (lastServerAt l)) ?xs"
  proof (rule timely_window)
    show "sorted (map fst ?xs)" using cl(3) by (simp add: turns_every_def sorted_filter comp_def)
    show "\<forall>(m, b) \<in> set ?xs. unat (lastServerAt l) \<le> m" using cl(3,5) by (auto simp: turns_every_def)
    fix m b assume "(m, b) \<in> set ?xs"
    then have m: "m < n" "m \<le> E" using cl(3) by (auto simp: turns_every_def)
    show "m < unat (lastServerAt l) + 8000 \<or> (\<exists>k. (k, True) \<in> set ?xs \<and> k < m \<and> m < k + 8000)"
    proof (cases "m < unat (lastServerAt l) + 8000")
      case False
      let ?w = "m - 1 - 2 * L"
      have "t0 + 1000 + D \<le> ?w" "?w < m" "?w \<le> E" using False cl(6) DL m by auto
      from pings_before [OF cl(1-4) less [OF m(1)] this] obtain T us where
        T: "(T, ping_bytes us) \<in> set (client_sends os ts (c, l))" "unat T \<le> ?w" "?w < unat T + 1000 + D" by blast
      have "unat T + L \<le> E" using T(2) False DL m(2) by auto
      with net(1) T(1) obtain now received where ev: "(now, received) \<in> set evs" "carries e (ping_bytes us) received"
        "unat T \<le> unat now" "unat now \<le> unat T + L" unfolding delivers_up_def by fast
      have U: "unat now < m" "unat now + L < m" using ev(4) T(2) False DL by auto
      let ?k = "unat now"
      let ?pre = "filter (\<lambda>ev. unat (fst ev) \<le> ?k) evs" and ?post = "filter (\<lambda>ev. \<not> unat (fst ev) \<le> ?k) evs"
      have "?k < n" using U(1) m(1) by simp
      from heard_until [OF pings_before [OF cl(1-4) less [OF this]] net(1) sv(4,5) DL]
      have often: "heard_often 10000 e s ?pre" .
      have "length ?pre \<le> length evs" by (rule length_filter_le)
      with sv(3) have "unat (m_nextId (sv_sessions sv)) + length ?pre < 2 ^ 32" by linarith
      from server_run_answers [OF sv(1) often sv(2) this] ev(1,2)
      have "(now, pong_bytes us) \<in> set (server_sends vt e ?pre sv)" by simp
      then have "(now, pong_bytes us) \<in> set (server_sends vt e (?pre @ ?post) sv)" by (simp add: server_sends_append)
      moreover have "evs = ?pre @ ?post"
        using sorted_split [of "\<lambda>ev. unat (fst ev)" evs "Suc ?k"] sv(4) by (simp add: clock_to_def less_Suc_eq_le)
      ultimately have "(now, pong_bytes us) \<in> set (server_sends vt e evs sv)" by simp
      moreover have "unat now + L \<le> E" using U(2) m(2) by simp
      ultimately obtain t where t: "t \<in> set ts" "from_server srv t = Some (pong_bytes us)" "unat now \<le> at_ms t" "at_ms t \<le> unat now + L"
        using net(2) unfolding delivers_down_def by fast
      have "at_ms t < m" using t(4) U(2) by simp
      with t(1,2) m(1) have "(at_ms t, True) \<in> set ?xs" by force
      moreover have "m < at_ms t + 8000" using t(3) ev(3) T(3) DL by auto
      ultimately show ?thesis using \<open>at_ms t < m\<close> by blast
    qed simp
  qed
  then show ?case by (simp add: heard_before_def)
qed

section \<open>A client the server has forgotten\<close>

lemma handle_stranger:
  assumes "e \<notin> peers sv" and "\<And>h. parse d \<noteq> Some (M_Hello h)"
  shows "sv_out (handle_datagram vt now e d sv) = sv_out sv \<and> peers (handle_datagram vt now e d sv) = peers sv"
proof -
  have N: "Find_endpoint e (sv_sessions sv) = None" using assms(1) by (simp add: Find_endpoint_None peers_def)
  then have t: "sv\<lparr>sv_sessions := snd (Touch e now (sv_sessions sv))\<rparr> = sv" by (simp add: Touch_def)
  obtain ok h where p: "PeekHeader d Header_default = (ok, h)" by fastforce
  have hello: "HandleHello vt e d now sv = sv" if "ok" "hdr_type h = Type_Hello"
  proof (cases "fst (Decode Hello_T d Hello_default)")
    case True
    then obtain x where "Decode Hello_T d Hello_default = (True, x)" by (metis prod.collapse)
    with p that assms(2) [of x] show ?thesis using parse_server(1) [of d h x] by simp
  next
    case False
    then show ?thesis by (cases "Decode Hello_T d Hello_default") (simp add: HandleHello_def)
  qed
  have "HandlePing e d sv = sv" using assms(1) by (simp add: HandlePing_eq peers_def)
  with hello HandlePlayerState_silent(1) [OF N] show ?thesis
    by (cases ok; cases "hdr_type h") (simp_all add: handle_datagram_def p t)
qed

lemma loop_body_forgotten:
  assumes "e \<notin> peers sv" and "\<And>d h. carries e d received \<Longrightarrow> parse d \<noteq> Some (M_Hello h)"
  shows "e \<notin> peers (loop_body vt (now, received) sv) \<and> to_peer e (answers sv (loop_body vt (now, received) sv)) = []"
proof -
  let ?sv1 = "sweep vt now sv"
  let ?sv2 = "?sv1\<lparr>sv_scripts := ScriptHost_OnTick vt now (sv_sessions ?sv1) (sv_scripts ?sv1)\<rparr>"
  let ?sv3 = "run_kicks vt ?sv2"
  have t1: "tells (peers sv) sv ?sv1" by (rule sweep_tells) simp
  then have "peers ?sv2 \<subseteq> peers sv" by (simp add: tells_def)
  from tells_trans [OF tells_intros(3) [OF t1] run_kicks_tells [OF this]] have t3: "tells (peers sv) sv ?sv3" by simp
  have told: "to_peer e (answers sv sv') = []" if "tells es sv sv'" "e \<notin> es" for es sv'
  proof -
    from that obtain ds where "sv_out sv' = sv_out sv @ ds" "fst ` set ds \<subseteq> es" by (auto simp: tells_def)
    moreover from this that(2) have "\<forall>x \<in> set ds. fst x \<noteq> e" by blast
    ultimately show ?thesis by (simp add: answers_def to_peer_def filter_empty_conv)
  qed
  have n3: "e \<notin> peers ?sv3" using t3 assms(1) by (auto simp: tells_def)
  show ?thesis
  proof (cases received)
    case None
    with told [OF t3 assms(1)] n3 show ?thesis by (simp add: loop_body_def Let_def)
  next
    case (Some x)
    obtain r b where x: "x = (r, b)" by fastforce
    let ?d = "take (rcv_size r) b"
    have l: "loop_body vt (now, received) sv = handle_datagram vt now (rcv_from r) ?d ?sv3"
      by (simp add: loop_body_def Let_def Some x)
    show ?thesis
    proof (cases "rcv_from r = e")
      case True
      then have "carries e ?d received" by (simp add: carries_def Some x)
      from assms(2) [OF this] handle_stranger [OF n3, of ?d vt now] True l told [OF t3 assms(1)] n3
      show ?thesis by (simp add: answers_def)
    next
      case False
      let ?es = "insert (rcv_from r) (peers sv)"
      have "tells ?es sv ?sv3" using t3 by (auto simp: tells_def)
      moreover have "peers ?sv3 \<subseteq> ?es" using t3 by (auto simp: tells_def)
      ultimately have t: "tells ?es sv (loop_body vt (now, received) sv)"
        unfolding l by (rule tells_trans [OF _ handle_datagram_tells [OF insertI1]])
      have ne: "e \<notin> ?es" using False assms(1) by simp
      have "peers (loop_body vt (now, received) sv) \<subseteq> ?es" using t by (simp only: tells_def)
      with told [OF t ne] ne show ?thesis by blast
    qed
  qed
qed

lemma server_run_forgotten:
  assumes "e \<notin> peers sv" and "\<forall>(now, received) \<in> set evs. \<forall>d h. carries e d received \<longrightarrow> parse d \<noteq> Some (M_Hello h)"
  shows "server_sends vt e evs sv = [] \<and> e \<notin> peers (server_run vt evs sv)"
  using assms
proof (induction evs arbitrary: sv)
  case (Cons ev evs)
  obtain now received where ev: "ev = (now, received)" by fastforce
  with loop_body_forgotten [OF Cons.prems(1), of received vt now] Cons.prems(2) Cons.IH [of "loop_body vt ev sv"]
  show ?case by (simp add: Let_def server_run_def)
qed (simp add: server_run_def)

text \<open>Once it is not connecting any more, the thread sends nothing but pings.\<close>

lemma client_sends_pings:
  "m_state c \<noteq> Connecting \<Longrightarrow> \<forall>x \<in> set (client_sends os ts (c, l)). \<exists>us. snd x = ping_bytes us"
proof (induction ts arbitrary: c l)
  case (Cons t ts)
  obtain go c1 l1 where r: "run_turn os t (c, l) = (go, c1, l1)" by (rule prod_cases3)
  obtain g c0 l0 where t: "run_timers os (t_now t) (t_pingMicros t) (c, l) = (g, c0, l0)" by (rule prod_cases3)
  have ping: "\<exists>ds. nc_out (snd (SendPing os us c)) = nc_out c @ ds \<and> (\<forall>x \<in> set ds. \<exists>us. snd x = ping_bytes us)" for us
    by (auto simp: SendPing_def Ping_default_def Encode_ping client_send_def UdpSocket_SendTo_def Let_def)
  have "\<exists>ds. nc_out c0 = nc_out c @ ds \<and> (\<forall>x \<in> set ds. \<exists>us. snd x = ping_bytes us)"
    using t Cons.prems ping [of "t_pingMicros t"]
    by (auto simp: run_timers_def SetError_def Let_def split: NetState.splits if_splits)
  moreover have "nc_out c1 = nc_out c0"
    using r t by (cases g) (auto simp: run_turn_def run_receive_eq split: option.splits)
  ultimately obtain ds where "nc_out c1 = nc_out c @ ds" "\<forall>x \<in> set ds. \<exists>us. snd x = ping_bytes us" by metis
  moreover have "go \<Longrightarrow> m_state c1 \<noteq> Connecting"
    using run_turn_state(2) [OF r] Cons.prems by (auto simp: ack_result_def split: option.splits if_splits)
  ultimately show ?case using r Cons.IH [of c1 l1] by (cases go) (fastforce, fastforce)
qed simp

section \<open>Whom the server acknowledges\<close>

text \<open>From one state to a later one the server sent the endpoint no acknowledgement.\<close>

definition unacked :: "Endpoint \<Rightarrow> 'b server \<Rightarrow> 'b server \<Rightarrow> bool" where
  "unacked e sv sv' \<longleftrightarrow> (\<exists>ds. sv_out sv' = sv_out sv @ ds \<and> (\<forall>d. (e, d) \<in> set ds \<longrightarrow> ack_of (parse d) = None))"

lemma unacked_refl [simp]: "unacked e sv sv" "unacked e sv (sv\<lparr>sv_sessions := m\<rparr>)"
  by (simp_all add: unacked_def)

lemma unacked_trans: "unacked e a b \<Longrightarrow> unacked e b c \<Longrightarrow> unacked e a c"
proof -
  assume "unacked e a b" and "unacked e b c"
  then obtain ds ds' where "sv_out c = sv_out a @ ds @ ds'" "\<forall>d. (e, d) \<in> set ds \<union> set ds' \<longrightarrow> ack_of (parse d) = None"
    by (auto simp: unacked_def)
  then show ?thesis unfolding unacked_def by (intro exI [of _ "ds @ ds'"]) simp
qed

lemma unacked_updates [simp]:
  "unacked e sv (sv'\<lparr>sv_scripts := h\<rparr>) = unacked e sv sv'" "unacked e sv (sv'\<lparr>sv_rejected := k\<rparr>) = unacked e sv sv'"
  "unacked e (sv\<lparr>sv_sessions := m\<rparr>) sv' = unacked e sv sv'" "unacked e (sv\<lparr>sv_scripts := h\<rparr>) sv' = unacked e sv sv'"
  by (simp_all add: unacked_def)

lemma unacked_fold: "(\<And>x sv. unacked e sv (f x sv)) \<Longrightarrow> unacked e sv (fold f xs sv)"
proof (induction xs arbitrary: sv)
  case (Cons x xs)
  from Cons.IH [OF Cons.prems, of "f x sv"] Cons.prems [of sv x] show ?case by (simp add: unacked_trans)
qed simp

definition no_ack :: "'m msg_traits \<Rightarrow> bool" where
  "no_ack T \<longleftrightarrow> (\<forall>msg. \<forall>d \<in> set (datagram_of T msg). ack_of (parse d) = None)"

lemma typed_no_ack:
  assumes "PeekHeader d Header_default = (True, h)" and "hdr_type h \<noteq> Type_HelloAck"
  shows "ack_of (parse d) = None"
  using Decode_as_type [of "hdr_type h" d] assms
  by (auto simp: ack_of_def parse_def split: option.splits message.splits)

lemma notices_no_ack: "no_ack NotifyPlayerJoined_T" "no_ack NotifyPlayerLeft_T" "no_ack NotifyPlayerState_T" "no_ack Pong_T"
proof -
  have "ack_of (parse d) = None" if "Encode NotifyPlayerJoined_T m = (True, d)" for m d
    by (rule typed_no_ack [OF notify_joined.PeekHeader_Encode [OF that]]) (simp add: header_of_def NotifyPlayerJoined_T_def)
  then show "no_ack NotifyPlayerJoined_T" by (auto simp: no_ack_def datagram_of_def split: prod.splits)
  have "ack_of (parse d) = None" if "Encode NotifyPlayerLeft_T m = (True, d)" for m d
    by (rule typed_no_ack [OF notify_left.PeekHeader_Encode [OF that]]) (simp add: header_of_def NotifyPlayerLeft_T_def)
  then show "no_ack NotifyPlayerLeft_T" by (auto simp: no_ack_def datagram_of_def split: prod.splits)
  have "ack_of (parse d) = None" if "Encode NotifyPlayerState_T m = (True, d)" for m d
    by (rule typed_no_ack [OF notify_state.PeekHeader_Encode [OF that]]) (simp add: header_of_def NotifyPlayerState_T_def)
  then show "no_ack NotifyPlayerState_T" by (auto simp: no_ack_def datagram_of_def split: prod.splits)
  have "ack_of (parse d) = None" if "Encode Pong_T m = (True, d)" for m d
    by (rule typed_no_ack [OF pong.PeekHeader_Encode [OF that]]) (simp add: header_of_def Pong_T_def)
  then show "no_ack Pong_T" by (auto simp: no_ack_def datagram_of_def split: prod.splits)
qed

lemma unacked_send: "no_ack T \<or> e' \<noteq> e \<Longrightarrow> unacked e sv (encode_and_send T msg e' sv)"
  by (auto simp: unacked_def no_ack_def encode_and_send_eq)

lemma unacked_Broadcast: "no_ack T \<Longrightarrow> unacked e sv (Broadcast T msg q sv)"
  by (auto simp: unacked_def no_ack_def Broadcast_eq)

lemma sweep_unacked: "unacked e sv (sweep vt now sv)"
proof (induction vt now sv rule: sweep.induct)
  case (1 vt now sv)
  obtain d m where t: "TakeNextTimedOut now (sv_sessions sv) = (d, m)" by fastforce
  show ?case
  proof (cases d)
    case None
    with t show ?thesis by (subst sweep.simps) simp
  next
    case (Some s)
    have "unacked e (sv\<lparr>sv_sessions := m\<rparr>) (timed_out_body vt s (sv\<lparr>sv_sessions := m\<rparr>))"
      unfolding timed_out_body_def Let_def unacked_updates(1) by (rule unacked_Broadcast [OF notices_no_ack(2)])
    then have "unacked e sv (timed_out_body vt s (sv\<lparr>sv_sessions := m\<rparr>))" by simp
    from unacked_trans [OF this "1.IH" [OF t [unfolded Some, symmetric] refl]] t Some show ?thesis
      by (subst sweep.simps) simp
  qed
qed

lemma run_kicks_unacked: "unacked e sv (run_kicks vt sv)"
proof -
  have "unacked e sv (kick_body vt k sv)" for k and sv :: "'a server"
  proof (cases "Find_id (pk_playerId k) (sv_sessions sv)")
    case (Some i)
    let ?m = "snd (Remove (pk_playerId k) (sv_sessions sv))"
    from unacked_Broadcast [OF notices_no_ack(2), of e "sv\<lparr>sv_sessions := ?m\<rparr>" "\<lparr>npl_playerId = pk_playerId k\<rparr>" "pk_playerId k"]
    show ?thesis by (simp add: kick_body_def Let_def Some)
  qed (simp add: kick_body_def)
  from unacked_fold [where f = "kick_body vt" and e = e and xs = "m_kicks (sv_scripts sv)"
      and sv = "sv\<lparr>sv_scripts := snd (TakeKicks (sv_scripts sv))\<rparr>", OF this]
  show ?thesis by (simp add: run_kicks_def TakeKicks_def)
qed

lemma handle_datagram_unacked:
  assumes "e' = e \<Longrightarrow> \<forall>h. parse d \<noteq> Some (M_Hello h)"
  shows "unacked e sv (handle_datagram vt now e' d sv)"
proof -
  obtain okh hd where p: "PeekHeader d Header_default = (okh, hd)" by fastforce
  have hello: "unacked e sv' (HandleHello vt e' d now sv')" if "okh" "hdr_type hd = Type_Hello" for sv' :: "'a server"
  proof -
    obtain ok h where h: "Decode Hello_T d Hello_default = (ok, h)" by fastforce
    obtain r q m where j: "Join e' (hello_username h) (hello_version h) now (sv_sessions sv') = (r, q, m)"
      using prod_cases3 by blast
    show ?thesis
    proof (cases ok)
      case False
      then show ?thesis by (simp add: HandleHello_def h)
    next
      case True
      with h p that have "parse d = Some (M_Hello h)" using parse_server(1) [of d hd h] by simp
      with assms have ne: "e' \<noteq> e" by auto
      note ack = unacked_send [where T = HelloAck_T, OF disjI2 [OF ne]]
      note join = unacked_send [where T = NotifyPlayerJoined_T, OF disjI1 [OF notices_no_ack(1)]]
      have one: "unacked e sv (if sess_id x = q then sv else encode_and_send NotifyPlayerJoined_T (g x) e' sv)" for x g and sv :: "'a server"
        by (simp add: join)
      note cast = unacked_Broadcast [OF notices_no_ack(1)]
      let ?a = "HelloAck_default\<lparr>ack_accepted := (r = Accepted \<or> r = AlreadyJoined),
        ack_reason := (if \<not> (r = Accepted \<or> r = AlreadyJoined) then JoinResult_ToString r else [])\<rparr>"
      let ?sv2 = "encode_and_send HelloAck_T ?a e' (sv'\<lparr>sv_sessions := m\<rparr>)"
      have a: "unacked e sv' ?sv2" using ack [of "sv'\<lparr>sv_sessions := m\<rparr>" ?a] by simp
      show ?thesis
      proof (cases "r = Accepted")
        case False
        with a show ?thesis by (simp add: HandleHello_def h j True Let_def)
      next
        case acc: True
        let ?sv3 = "fold (\<lambda>session sv. if sess_id session = q then sv
            else encode_and_send NotifyPlayerJoined_T
                   \<lparr>npj_playerId = sess_id session, npj_username = sess_username session\<rparr> e' sv) (m_sessions m) ?sv2"
        have "unacked e sv' ?sv3" by (rule unacked_trans [OF a unacked_fold]) (rule one)
        from unacked_trans [OF this cast]
        have "unacked e sv' (Broadcast NotifyPlayerJoined_T \<lparr>npj_playerId = q, npj_username = hello_username h\<rparr> q ?sv3)" .
        then show ?thesis unfolding HandleHello_def h j prod.case Let_def using True acc by simp
      qed
    qed
  qed
  have ping: "unacked e sv' (HandlePing e' d sv')" for sv' :: "'a server"
    by (auto simp: HandlePing_def unacked_send notices_no_ack split: option.splits prod.splits)
  have state: "unacked e sv' (HandlePlayerState e' d sv')" for sv' :: "'a server"
  proof -
    have "unacked e sv' (Broadcast NotifyPlayerState_T msg q (sv'\<lparr>sv_sessions := m\<rparr>))" for msg q m
      using unacked_Broadcast [OF notices_no_ack(3), of e "sv'\<lparr>sv_sessions := m\<rparr>" msg q] by simp
    then show ?thesis by (auto simp: HandlePlayerState_def Let_def split: option.splits prod.splits)
  qed
  let ?sv = "sv\<lparr>sv_sessions := snd (Touch e' now (sv_sessions sv))\<rparr>"
  have h: "okh \<Longrightarrow> hdr_type hd = Type_Hello \<Longrightarrow> unacked e sv (HandleHello vt e' d now ?sv)"
    using hello [of ?sv] by simp
  have q: "unacked e sv (HandlePing e' d ?sv)" using ping [of ?sv] by simp
  have t: "unacked e sv (HandlePlayerState e' d ?sv)" using state [of ?sv] by simp
  show ?thesis
    by (cases okh; cases "hdr_type hd") (simp_all add: handle_datagram_def p Let_def h q t)
qed

lemma loop_body_unacked:
  assumes "\<And>d h. carries e d received \<Longrightarrow> parse d \<noteq> Some (M_Hello h)"
  shows "unacked e sv (loop_body vt (now, received) sv)"
proof -
  let ?sv1 = "sweep vt now sv"
  let ?sv2 = "?sv1\<lparr>sv_scripts := ScriptHost_OnTick vt now (sv_sessions ?sv1) (sv_scripts ?sv1)\<rparr>"
  let ?sv3 = "run_kicks vt ?sv2"
  have "unacked e sv ?sv2" using sweep_unacked by simp
  from unacked_trans [OF this run_kicks_unacked] have k: "unacked e sv ?sv3" .
  show ?thesis
  proof (cases received)
    case None
    with k show ?thesis by (simp add: loop_body_def Let_def)
  next
    case (Some x)
    obtain r b where x: "x = (r, b)" by fastforce
    let ?d = "take (rcv_size r) b"
    have "rcv_from r = e \<Longrightarrow> \<forall>h. parse ?d \<noteq> Some (M_Hello h)" using assms [of ?d] by (simp add: carries_def Some x)
    from unacked_trans [OF k handle_datagram_unacked [OF this]] show ?thesis by (simp add: loop_body_def Let_def Some x)
  qed
qed

lemma server_sends_unacked:
  assumes "\<forall>(now, received) \<in> set evs. \<forall>d h. carries e d received \<longrightarrow> parse d \<noteq> Some (M_Hello h)"
    and "(T, d) \<in> set (server_sends vt e evs sv)"
  shows "ack_of (parse d) = None"
  using assms
proof (induction evs arbitrary: sv)
  case (Cons ev evs)
  obtain now received where ev: "ev = (now, received)" by fastforce
  have "unacked e sv (loop_body vt ev sv)"
    unfolding ev by (rule loop_body_unacked) (use Cons.prems(1) ev in auto)
  then obtain ds where "sv_out (loop_body vt ev sv) = sv_out sv @ ds" "\<forall>d. (e, d) \<in> set ds \<longrightarrow> ack_of (parse d) = None"
    by (auto simp: unacked_def)
  then have "\<forall>d \<in> set (to_peer e (answers sv (loop_body vt ev sv))). ack_of (parse d) = None"
    by (auto simp: answers_def to_peer_def)
  with Cons.prems Cons.IH [of "loop_body vt ev sv"] show ?case by (auto simp: Let_def)
qed simp

text \<open>A client that is not connecting says no hello, so nothing takes its connection back.\<close>

lemma no_hello_unrefused:
  assumes "m_state c \<noteq> Connecting"
    and "\<forall>(now, received) \<in> set evs. \<forall>d. carries e d received \<longrightarrow>
      d \<in> snd ` set (client_sends os ts (c, l)) \<or> (\<exists>st. parse d = Some (M_PlayerState st))"
    and "\<forall>t \<in> set ts. \<forall>d. from_server srv t = Some d \<longrightarrow> d \<in> snd ` set (server_sends vt e evs sv)"
  shows "\<forall>t \<in> set ts. unrefused srv t"
proof
  fix t assume t: "t \<in> set ts"
  have pings: "\<forall>x \<in> set (client_sends os ts (c, l)). \<exists>us. snd x = ping_bytes us"
    by (rule client_sends_pings) (rule assms(1))
  have no: "\<forall>(now, received) \<in> set evs. \<forall>d h. carries e d received \<longrightarrow> parse d \<noteq> Some (M_Hello h)"
    using assms(2) pings parse_ping by fastforce
  show "unrefused srv t"
  proof (cases "from_server srv t")
    case None
    then show ?thesis by (simp add: unrefused_def turn_ack_def)
  next
    case (Some d)
    with assms(3) t obtain T where "(T, d) \<in> set (server_sends vt e evs sv)" by force
    from server_sends_unacked [OF no this] Some show ?thesis by (simp add: unrefused_def turn_ack_def)
  qed
qed

section \<open>Properties\<close>

text \<open>
  C11: Neither side drops the other. Take a client that is connected and the session that the server has
  for it, both heard of within the last L ms, with the loop of the client taking a turn at least every
  D ms, each datagram between the two arriving within L ms, D + 3 L < 7000, and no backend that kicks the
  player. If what arrives from his endpoint is what his thread sends, or states of the game thread, and
  what arrives from the server's endpoint is what the server sends him, so that no hello of his is still
  under way, then for as long as they are observed the client stays connected and the session stays,
  under its id, name and endpoint, whatever reaches the server from others. The pings, their answers and
  the two timeouts alone see to that.
\<close>

theorem keep_alive:
  assumes "m_state c = Connected" and "m_open (m_socket c)"
    and "\<forall>(now, received) \<in> set evs. \<forall>d. carries (sess_endpoint s) d received \<longrightarrow>
      d \<in> snd ` set (client_sends os ts (c, l)) \<or> (\<exists>st. parse d = Some (M_PlayerState st))"
    and "\<forall>t \<in> set ts. \<forall>d. from_server (m_server c) t = Some d \<longrightarrow> d \<in> snd ` set (server_sends vt (sess_endpoint s) evs sv)"
    and "turns_every D t0 E ts" and "unat (lastPingAt l) \<le> t0"
    and "unat (lastServerAt l) \<le> t0" and "t0 \<le> unat (lastServerAt l) + L"
    and "server_inv sv" and "ids_inv (sv_sessions sv)" and "s \<in> set (m_sessions (sv_sessions sv))"
    and "unat (m_nextId (sv_sessions sv)) + length evs < 2 ^ 32"
    and "spares (sess_id s) vt" and "sess_id s \<notin> pk_playerId ` set (m_kicks (sv_scripts sv))"
    and "clock_to (unat (lastSeenMs s)) E evs" and "t0 \<le> unat (lastSeenMs s) + L"
    and "delivers_up L E (sess_endpoint s) (client_sends os ts (c, l)) evs"
    and "delivers_down L E (m_server c) (server_sends vt (sess_endpoint s) evs sv) ts"
    and "D + 3 * L < 7000"
  shows "(let (running, c', l') = Run os ts (c, l) in running \<and> m_state c' = Connected) \<and>
    (sess_id s, sess_username s, sess_endpoint s) \<in> set (rows (sv_sessions (server_run vt evs sv)))"
proof
  have con: "connected (m_server c) c" using assms(1,2) by (simp add: connected_def)
  have unr: "\<forall>t \<in> set ts. unrefused (m_server c) t"
    by (rule no_hello_unrefused [OF _ assms(3,4)]) (simp add: assms(1))
  have "heard_at (sess_id s) (sess_username s) (sess_endpoint s) (lastSeenMs s) (sv_sessions sv)"
    using assms(11) by (auto simp: heard_at_def)
  then have k: "keeps (sess_id s) (sess_username s) (sess_endpoint s) (lastSeenMs s) sv"
    using assms(9,10,14) by (simp add: keeps_def unkicked_def)
  note always = heard_always [OF con unr assms(5-8) k assms(13,12,15-19)]
  have "filter (\<lambda>t. at_ms t < Suc E) ts = ts" using assms(5) by (auto simp: turns_every_def less_Suc_eq_le)
  with always [of "Suc E"] have "timely 8000 (unat (lastServerAt l)) (map (\<lambda>t. (at_ms t, from_server (m_server c) t \<noteq> None)) ts)"
    by (simp add: heard_before_def)
  from Run_connected [OF con unr this, of os] assms(5,6) obtain c' l' where
    "Run os ts (c, l) = (True, c', l')" "connected (m_server c) c'" by (fastforce simp: turns_every_def)
  then show "let (running, c', l') = Run os ts (c, l) in running \<and> m_state c' = Connected" by (simp add: connected_def)
  have "filter (\<lambda>ev. unat (fst ev) \<le> E) evs = evs" using assms(15) by (auto simp: clock_to_def)
  with heard_until [OF pings_before [OF con unr assms(5,6) always] assms(17,15,16,19), of E]
  have "heard_often 10000 (sess_endpoint s) (lastSeenMs s) evs" by simp
  from server_run_keeps [OF k this assms(13,12)]
  show "(sess_id s, sess_username s, sess_endpoint s) \<in> set (rows (sv_sessions (server_run vt evs sv)))"
    by (auto simp: keeps_def heard_at_row)
qed

text \<open>A client that is connected to the server with one player, as that player, and pings once.\<close>

definition kept_client :: NetClient where
  "kept_client = fresh_client\<lparr>m_state := Connected, m_socket := \<lparr>m_handle = 5, m_open = True\<rparr>, m_server := Loopback 11780\<rparr>"

definition kept_turns :: "turn list" where
  "kept_turns = [quiet_turn 0, quiet_turn 1500,
     \<lparr>t_now = 1700, t_pingMicros = 0, t_pongMicros = 0,
      t_received = Some (\<lparr>rcv_size = length (pong_bytes 0), rcv_from = Loopback 11780\<rparr>, pong_bytes 0)\<rparr>]"

definition kept_events :: "(u64 \<times> (Received \<times> u8 list) option) list" where
  "kept_events = [(1600, Some (\<lparr>rcv_size = length (ping_bytes 0), rcv_from = \<lparr>address = 1, port = 1\<rparr>\<rparr>, ping_bytes 0))]"

lemma kept_unrefused: "\<forall>t \<in> set kept_turns. unrefused (Loopback 11780) t"
  by (simp add: kept_turns_def unrefused_def turn_ack_def from_server_def quiet_turn_def parse_pong ack_of_def)

lemma kept_sends: "client_sends (\<lambda>_ _ _. 0) kept_turns (kept_client, run_start 0) = [(1500, ping_bytes 0)]"
proof -
  let ?srv = "Loopback 11780" and ?t = "kept_turns ! 2"
  have con: "connected ?srv kept_client" by (simp add: connected_def kept_client_def)
  have u: "unrefused ?srv (quiet_turn ms)" "unrefused ?srv ?t" "from_server ?srv (quiet_turn ms) = None" "from_server ?srv ?t \<noteq> None" for ms
    using kept_unrefused by (simp_all add: kept_turns_def from_server_def quiet_turn_def unrefused_def turn_ack_def)
  from connected_turn [OF con u(1) [of 0], of "run_start 0" "\<lambda>_ _ _. 0"] u(3) obtain c1 l1 where
    1: "run_turn (\<lambda>_ _ _. 0) (quiet_turn 0) (kept_client, run_start 0) = (True, c1, l1)" "connected ?srv c1"
      "nc_out c1 = nc_out kept_client" "lastPingAt l1 = 0" "lastServerAt l1 = 0"
    by (auto simp: run_start_def)
  from connected_turn [OF 1(2) u(1) [of 1500], of l1 "\<lambda>_ _ _. 0"] u(3) 1(4,5) obtain c2 l2 where
    2: "run_turn (\<lambda>_ _ _. 0) (quiet_turn 1500) (c1, l1) = (True, c2, l2)" "connected ?srv c2"
      "nc_out c2 = nc_out c1 @ [(?srv, ping_bytes (t_pingMicros (quiet_turn 1500)))]" "lastPingAt l2 = 1500" "lastServerAt l2 = 0"
    by auto
  have t: "t_now ?t = 1700" by (simp add: kept_turns_def)
  from connected_turn [OF 2(2) u(2), of l2 "\<lambda>_ _ _. 0"] 2(4,5) t obtain c3 l3 where
    3: "run_turn (\<lambda>_ _ _. 0) ?t (c2, l2) = (True, c3, l3)" "nc_out c3 = nc_out c2"
    by auto
  have ts: "kept_turns = [quiet_turn 0, quiet_turn 1500, ?t]" by (simp add: kept_turns_def)
  show ?thesis
    by (subst ts) (simp add: 1 2 3 del: nth_Cons_numeral, simp add: quiet_turn_def)
qed

lemma kept_answers: "server_sends LogBackend_vt \<lparr>address = 1, port = 1\<rparr> kept_events one_player = [(1600, pong_bytes 0)]"
proof -
  let ?e = "\<lparr>address = 1, port = 1\<rparr>" and ?sv = one_player
  let ?sv2 = "?sv\<lparr>sv_scripts := ScriptHost_OnTick LogBackend_vt 1600 (sv_sessions ?sv) (sv_scripts ?sv)\<rparr>"
  have sw: "sweep LogBackend_vt 1600 ?sv = ?sv"
    by (subst sweep.simps) (simp add: TakeNextTimedOut_def expired_def one_player_def Session_default_def kTimeoutMs_def)
  have "m_kicks (sv_scripts ?sv2) = []"
    by (simp add: one_player_def mk_ScriptHost_def ScriptHost_OnTick_def dispatch_kicks LogBackend_vt_def LogBackend_OnTick_def
        mk_LogBackend_def kicks_of_def)
  then have out: "sv_out (run_kicks LogBackend_vt ?sv2) = []" and ss: "sv_sessions (run_kicks LogBackend_vt ?sv2) = sv_sessions ?sv"
    by (simp_all add: run_kicks_def TakeKicks_def one_player_def)
  have "?e \<in> sess_endpoint ` set (m_sessions (sv_sessions (run_kicks LogBackend_vt ?sv2)))"
    unfolding ss by (simp add: one_player_def Session_default_def)
  from handle_ping [OF this, of LogBackend_vt 1600 0] out
  have "sv_out (loop_body LogBackend_vt (hd kept_events) ?sv) = [(?e, pong_bytes 0)]"
    by (simp add: loop_body_def kept_events_def Let_def sw)
  then have "answers ?sv (loop_body LogBackend_vt (hd kept_events) ?sv) = [(?e, pong_bytes 0)]"
    by (simp add: answers_def one_player_def)
  then show ?thesis by (simp add: kept_events_def Let_def to_peer_def)
qed

theorem keep_alive_witness:
  "fst (Run (\<lambda>_ _ _. 0) kept_turns (kept_client, run_start 0)) \<and>
   (1, ''a'', \<lparr>address = 1, port = 1\<rparr>) \<in> set (rows (sv_sessions (server_run LogBackend_vt kept_events one_player)))"
proof -
  let ?s = "Session_default\<lparr>sess_id := 1, sess_username := ''a'', sess_endpoint := \<lparr>address = 1, port = 1\<rparr>\<rparr>"
  have srv: "m_server kept_client = Loopback 11780" by (simp add: kept_client_def)
  have e: "sess_endpoint ?s = \<lparr>address = 1, port = 1\<rparr>" "lastSeenMs ?s = 0" by (simp_all add: Session_default_def)
  have src_up: "\<forall>(now, received) \<in> set kept_events. \<forall>d. carries (sess_endpoint ?s) d received \<longrightarrow>
      d \<in> snd ` set (client_sends (\<lambda>_ _ _. 0) kept_turns (kept_client, run_start 0)) \<or> (\<exists>st. parse d = Some (M_PlayerState st))"
    unfolding e kept_sends by (simp add: kept_events_def carries_def)
  have src_down: "\<forall>t \<in> set kept_turns. \<forall>d. from_server (m_server kept_client) t = Some d \<longrightarrow>
      d \<in> snd ` set (server_sends LogBackend_vt (sess_endpoint ?s) kept_events one_player)"
    unfolding e srv kept_answers by (simp add: kept_turns_def from_server_def quiet_turn_def)
  have turns: "turns_every 2000 0 3000 kept_turns"
    by (auto simp: turns_every_def kept_turns_def quiet_turn_def)
  have clock: "clock_to (unat (lastSeenMs ?s)) 3000 kept_events" unfolding e by (simp add: clock_to_def kept_events_def)
  have up: "delivers_up 500 3000 (sess_endpoint ?s) (client_sends (\<lambda>_ _ _. 0) kept_turns (kept_client, run_start 0)) kept_events"
    unfolding e kept_sends by (simp add: delivers_up_def kept_events_def carries_def)
  have down: "delivers_down 500 3000 (m_server kept_client) (server_sends LogBackend_vt (sess_endpoint ?s) kept_events one_player) kept_turns"
    unfolding e srv kept_answers by (simp add: delivers_down_def kept_turns_def from_server_def)
  have inv: "server_inv one_player" "ids_inv (sv_sessions one_player)" "?s \<in> set (m_sessions (sv_sessions one_player))"
    by (simp_all add: one_player_def server_inv_def sm_inv_def ids_inv_def name_ok_def Session_default_def kMaxPlayers_def)
  have "(let (running, c', l') = Run (\<lambda>_ _ _. 0) kept_turns (kept_client, run_start 0) in running \<and> m_state c' = Connected) \<and>
    (sess_id ?s, sess_username ?s, sess_endpoint ?s) \<in> set (rows (sv_sessions (server_run LogBackend_vt kept_events one_player)))"
    by (rule keep_alive [OF _ _ src_up src_down turns _ _ _ inv _ log_spares _ clock _ up down])
      (simp_all add: kept_client_def run_start_def kept_events_def Session_default_def, simp_all add: one_player_def mk_ScriptHost_def)
  then show ?thesis by (auto simp: Session_default_def split: prod.splits)
qed

text \<open>
  C12: A player whom the server has dropped, as it does on a kick, is never told. If what arrives from his
  endpoint is what his thread sends, or states of the game thread, the server sends him nothing at all;
  his client, which is connected, sends only pings, so it never says hello again; and once a turn comes 8000 ms
  or more after the last datagram it has gone into Disconnected with the reason \<open>server stopped answering\<close>,
  whatever the reason was that the script gave.
\<close>

theorem dropped_never_told:
  assumes "m_state c = Connected" and "e \<notin> sess_endpoint ` set (m_sessions (sv_sessions sv))"
    and "\<forall>(now, received) \<in> set evs. \<forall>d. carries e d received \<longrightarrow>
      d \<in> snd ` set (client_sends os ts (c, l)) \<or> (\<exists>st. parse d = Some (M_PlayerState st))"
    and "\<forall>t \<in> set ts. \<forall>d. from_server (m_server c) t = Some d \<longrightarrow> d \<in> snd ` set (server_sends vt e evs sv)"
    and "\<exists>t \<in> set ts. 8000 \<le> t_now t - lastServerAt l"
  shows "server_sends vt e evs sv = [] \<and>
    (\<forall>(T, d) \<in> set (client_sends os ts (c, l)). \<exists>us. d = ping_bytes us) \<and>
    (let (running, c', l') = Run os ts (c, l)
     in \<not> running \<and> m_state c' = Disconnected \<and> m_lastError c' = ''server stopped answering'')"
proof -
  have pings: "\<forall>x \<in> set (client_sends os ts (c, l)). \<exists>us. snd x = ping_bytes us"
    by (rule client_sends_pings) (simp add: assms(1))
  have "parse d \<noteq> Some (M_Hello h)" if "(now, received) \<in> set evs" "carries e d received" for now received d h
    using bspec [OF assms(3) that(1)] that(2) pings parse_ping by fastforce
  then have none: "server_sends vt e evs sv = []"
    using server_run_forgotten [of e sv evs vt] assms(2) by (simp add: peers_def) blast
  then have "list_all (silent (m_server c)) ts" using assms(4) by (auto simp: list_all_iff silent_def)
  moreover have "\<not> list_all (\<lambda>t. t_now t - lastServerAt l < 8000) ts"
    using assms(5) by (auto simp: list_all_iff not_less)
  ultimately have "let (running, c', l') = Run os ts (c, l)
     in \<not> running \<and> m_state c' = Disconnected \<and> m_lastError c' = ''server stopped answering''"
    using server_timeout [OF assms(1), where ts = ts and os = os and l = l] by (auto split: prod.splits)
  with none pings show ?thesis by (simp add: case_prod_beta)
qed

theorem dropped_never_told_witness:
  "m_lastError (fst (snd (Run (\<lambda>_ _ _. 0) (map quiet_turn [1000, 5000, 9000]) (kept_client, run_start 900)))) =
     ''server stopped answering''"
proof -
  let ?e = "\<lparr>address = 9, port = 9\<rparr>" and ?st = "\<lparr>ps_tick = 1, ps_position = \<lparr>vx = 0, vy = 0, vz = 0\<rparr>, ps_rotation = 0\<rparr>"
  let ?d = "snd (Encode PlayerState_T ?st)"
  let ?evs = "[(1600, Some (\<lparr>rcv_size = length ?d, rcv_from = ?e\<rparr>, ?d))]" and ?ts = "map quiet_turn [1000, 5000, 9000]"
  have d: "parse ?d = Some (M_PlayerState ?st)"
    by (rule parse_Encode) (simp_all add: message_ok_def name_ok_def player_state.Encode_iff kMaxDatagram_def)
  have up: "\<forall>(now, received) \<in> set ?evs. \<forall>d. carries ?e d received \<longrightarrow>
      d \<in> snd ` set (client_sends (\<lambda>_ _ _. 0) ?ts (kept_client, run_start 900)) \<or> (\<exists>st. parse d = Some (M_PlayerState st))"
    using d by (simp add: carries_def)
  have "(let (running, c', l') = Run (\<lambda>_ _ _. 0) ?ts (kept_client, run_start 900)
     in \<not> running \<and> m_state c' = Disconnected \<and> m_lastError c' = ''server stopped answering'')"
    by (rule dropped_never_told [where sv = two_players and vt = spy_vt, OF _ _ up, THEN conjunct2, THEN conjunct2])
      (simp_all add: kept_client_def two_players_def Session_default_def run_start_def from_server_def quiet_turn_def)
  then show ?thesis by (auto split: prod.splits)
qed

end
