(* ===== verification/Debug_Api.thy ===== *)
theory Debug_Api imports
  Text_Format
  "HOL-Library.Monad_Syntax"
  "HOL-Library.Sublist"
begin

text \<open>
  src/src/client/DebugApi.cpp: the script class that explores the game's type information.

  What the game knows of its types is data: a table from addresses to classes, the lookup by name and
  the names of all types, in the order in which the table of types is walked. A pointer that may be null
  is an option. The text of a name may be null too: the name of a parameter is no name, or one with a
  text or without. A result None means that the code does not define
  one: a null text is read as a C string, a signed sum overflows, or the walk up the parents does not
  end. The log is the list of the lines written.
\<close>

section \<open>The type information\<close>

record rtti_property =
  pr_type :: "string option option"
  pr_name :: "string option option"

record rtti_function =
  fn_shortName :: "string option"
  fn_params :: "rtti_property option list"
  fn_returnType :: "rtti_property option"

record rtti_class =
  cl_name :: "string option"
  cl_parent :: "nat option"
  cl_funcs :: "rtti_function option list"
  cl_staticFuncs :: "rtti_function option list"

record rtti =
  rt_class :: "nat \<Rightarrow> rtti_class option"
  rt_GetClass :: "string \<Rightarrow> nat option"
  rt_types :: "string option list option"

section \<open>Operations\<close>

definition DebugApi_Ping :: "string \<times> string list" where
  "DebugApi_Ping = (''cybermp 0.1.0'', [''Debug.Ping called from script''])"

definition in_int32 :: "int \<Rightarrow> bool" where
  "in_int32 n \<longleftrightarrow> - (2 ^ 31) \<le> n \<and> n < 2 ^ 31"

text \<open>int32_t a + b: an overflow has no defined result.\<close>

definition DebugApi_Add :: "32 word \<Rightarrow> 32 word \<Rightarrow> (32 word \<times> string list) option" where
  "DebugApi_Add a b =
     (if in_int32 (sint a + sint b)
      then Some (a + b, [''Debug.Add('' @ show_i32 a @ '', '' @ show_i32 b @ '') called from script''])
      else None)"

text \<open>std::tolower of a byte in the C locale.\<close>

definition tolower :: "char \<Rightarrow> char" where
  "tolower c = (if 65 \<le> (of_char c :: nat) \<and> (of_char c :: nat) \<le> 90 then char_of ((of_char c :: nat) + 32) else c)"

fun contains :: "string \<Rightarrow> string \<Rightarrow> bool" where
  "contains p [] = (p = [])"
| "contains p (c # cs) = (take (length p) (c # cs) = p \<or> contains p cs)"

definition Matches :: "string option \<Rightarrow> string \<Rightarrow> bool" where
  "Matches aName aFilter =
     (if aFilter = [] then True
      else (let name = (case aName of None \<Rightarrow> [] | Some n \<Rightarrow> n) in contains aFilter (map tolower name)))"

definition Lowered :: "string \<Rightarrow> string" where
  "Lowered aValue = map tolower (if length aValue > 0 then c_str aValue else [])"

definition TypeName :: "rtti_property option \<Rightarrow> string option" where
  "TypeName aProperty =
     (case aProperty of
        None \<Rightarrow> Some ''?''
      | Some p \<Rightarrow> (case pr_type p of None \<Rightarrow> Some ''?'' | Some name \<Rightarrow> name))"

text \<open>The loop over the parameters, from the i-th on.\<close>

fun params_text :: "nat \<Rightarrow> rtti_property option list \<Rightarrow> string \<Rightarrow> string option" where
  "params_text i [] text = Some text"
| "params_text i (param # params) text =
     do { t \<leftarrow> TypeName param;
          name \<leftarrow> (case param of
                     None \<Rightarrow> Some []
                   | Some p \<Rightarrow> (case pr_name p of None \<Rightarrow> Some [] | Some txt \<Rightarrow> map_option (\<lambda>n. '' '' @ n) txt));
          params_text (Suc i) params (text @ (if i > 0 then '', '' else []) @ t @ name) }"

definition Signature :: "rtti_function \<Rightarrow> string option" where
  "Signature f =
     do { name \<leftarrow> fn_shortName f;
          text \<leftarrow> params_text 0 (fn_params f) (name @ ''('');
          result \<leftarrow> (case fn_returnType f of None \<Rightarrow> Some ''Void'' | Some r \<Rightarrow> TypeName (Some r));
          Some (text @ '') -> '' @ result) }"

text \<open>The loop over one of the two lists of functions of a class.\<close>

fun dump_functions :: "string \<Rightarrow> string \<Rightarrow> rtti_function option list \<Rightarrow> u32 \<times> string list \<Rightarrow> (u32 \<times> string list) option" where
  "dump_functions tag flt [] x = Some x"
| "dump_functions tag flt (None # fs) x = dump_functions tag flt fs x"
| "dump_functions tag flt (Some f # fs) (shown, out) =
     (if Matches (fn_shortName f) flt
      then do { text \<leftarrow> Signature f; dump_functions tag flt fs (shown + 1, out @ [tag @ text]) }
      else dump_functions tag flt fs (shown, out))"

definition dump_class :: "string \<Rightarrow> rtti_class \<Rightarrow> u32 \<times> string list \<Rightarrow> (u32 \<times> string list) option" where
  "dump_class flt c x =
     do { name \<leftarrow> cl_name c;
          y \<leftarrow> dump_functions ''  '' flt (cl_funcs c) (fst x, snd x @ [''--- '' @ name @ '' ---'']);
          dump_functions ''  static '' flt (cl_staticFuncs c) y }"

text \<open>for (current = type; current; current = current->parent)\<close>

partial_function (option) dump_classes :: "rtti \<Rightarrow> string \<Rightarrow> nat option \<Rightarrow> u32 \<times> string list \<Rightarrow> (u32 \<times> string list) option" where
  "dump_classes R flt current x =
     (case current of
        None \<Rightarrow> Some x
      | Some a \<Rightarrow>
          (case rt_class R a of
             None \<Rightarrow> None
           | Some c \<Rightarrow> Option.bind (dump_class flt c x) (\<lambda>y. dump_classes R flt (cl_parent c) y)))"

definition DumpMethods :: "rtti \<Rightarrow> string \<Rightarrow> string \<Rightarrow> (string \<times> string list) option" where
  "DumpMethods R aClassName aFilter =
     (if length aClassName = 0 then Some (''usage: DumpMethods('' @ quote ''ClassName'' @ '', '' @ quote ''filter or empty'' @ '')'', [])
      else
        (case rt_GetClass R (c_str aClassName) of
           None \<Rightarrow> Some (''no class named '' @ quote (c_str aClassName), [])
         | Some type \<Rightarrow>
             (let flt = Lowered aFilter
              in case dump_classes R flt (Some type) (0, []) of
                   None \<Rightarrow> None
                 | Some (shown, out) \<Rightarrow> Some (show_u32 shown @ '' method(s) logged'', out))))"

definition FindClasses :: "rtti \<Rightarrow> string \<Rightarrow> (string \<times> string list) option" where
  "FindClasses R aFilter =
     (let flt = Lowered aFilter
      in if flt = [] then Some (''usage: FindClasses('' @ quote ''substring'' @ '') -- an empty filter would log everything'', [])
         else
           (case rt_types R of
              None \<Rightarrow> Some (''no rtti system'', [])
            | Some types \<Rightarrow>
                (case fold (\<lambda>aName y. do { (shown, out) \<leftarrow> y;
                              if shown < 200 \<and> Matches aName flt
                              then do { name \<leftarrow> aName; Some (shown + 1, out @ [''  '' @ name]) }
                              else Some (shown, out) })
                        types (Some (0 :: u32, [])) of
                   None \<Rightarrow> None
                 | Some (shown, out) \<Rightarrow> Some (show_u32 shown @ '' type(s) logged'', out))))"

section \<open>What they report\<close>

lemma contains_sublist: "contains p xs = sublist p xs"
proof (induction xs)
  case (Cons c cs)
  have "take (length p) (c # cs) = p \<longleftrightarrow> prefix p (c # cs)"
    by (metis append_eq_conv_conj append_take_drop_id prefix_def)
  with Cons show ?case by (simp add: sublist_Cons_right)
qed auto

lemma Matches_sublist:
  "Matches aName flt \<longleftrightarrow> sublist flt (map tolower (case aName of None \<Rightarrow> [] | Some n \<Rightarrow> n))"
  by (simp add: Matches_def contains_sublist Let_def)

text \<open>The functions of a list that match, and the lines for them.\<close>

definition matching :: "string \<Rightarrow> rtti_function option list \<Rightarrow> rtti_function list" where
  "matching flt fs = filter (\<lambda>f. Matches (fn_shortName f) flt) (map the (filter (\<lambda>f. f \<noteq> None) fs))"

definition readable :: "rtti_function option list \<Rightarrow> bool" where
  "readable fs \<longleftrightarrow> (\<forall>f \<in> set fs. case f of None \<Rightarrow> True | Some f \<Rightarrow> Signature f \<noteq> None)"

lemma dump_functions_eq:
  "readable fs \<Longrightarrow> dump_functions tag flt fs (n, out) =
     Some (n + of_nat (length (matching flt fs)), out @ map (\<lambda>f. tag @ the (Signature f)) (matching flt fs))"
proof (induction fs arbitrary: n out)
  case (Cons f fs)
  then have r: "readable fs" by (simp add: readable_def)
  show ?case
  proof (cases f)
    case None
    with Cons.IH [OF r] show ?thesis by (simp add: matching_def)
  next
    case (Some g)
    with Cons.prems obtain t where "Signature g = Some t" by (auto simp: readable_def)
    with Some Cons.IH [OF r] show ?thesis by (simp add: matching_def)
  qed
qed (simp add: matching_def)

definition class_lines :: "string \<Rightarrow> rtti_class \<Rightarrow> string list" where
  "class_lines flt c = (''--- '' @ the (cl_name c) @ '' ---'') #
     map (\<lambda>f. ''  '' @ the (Signature f)) (matching flt (cl_funcs c)) @
     map (\<lambda>f. ''  static '' @ the (Signature f)) (matching flt (cl_staticFuncs c))"

definition class_count :: "string \<Rightarrow> rtti_class \<Rightarrow> nat" where
  "class_count flt c = length (matching flt (cl_funcs c)) + length (matching flt (cl_staticFuncs c))"

definition class_readable :: "rtti_class \<Rightarrow> bool" where
  "class_readable c \<longleftrightarrow> cl_name c \<noteq> None \<and> readable (cl_funcs c) \<and> readable (cl_staticFuncs c)"

lemma dump_class_eq:
  "class_readable c \<Longrightarrow> dump_class flt c (n, out) = Some (n + of_nat (class_count flt c), out @ class_lines flt c)"
  by (auto simp: class_readable_def dump_class_def dump_functions_eq class_lines_def class_count_def)

text \<open>A class with its ancestors, the class first.\<close>

inductive lineage :: "rtti \<Rightarrow> nat option \<Rightarrow> rtti_class list \<Rightarrow> bool" for R where
  Lineage_end: "lineage R None []"
| Lineage_step: "rt_class R a = Some c \<Longrightarrow> lineage R (cl_parent c) cs \<Longrightarrow> lineage R (Some a) (c # cs)"

lemma dump_classes_lineage:
  "lineage R cur cs \<Longrightarrow> list_all class_readable cs \<Longrightarrow>
   dump_classes R flt cur (n, out) = Some (n + of_nat (sum_list (map (class_count flt) cs)), out @ concat (map (class_lines flt) cs))"
proof (induction arbitrary: n out rule: lineage.induct)
  case Lineage_end
  then show ?case by (simp add: dump_classes.simps)
next
  case (Lineage_step a c cs)
  then show ?case by (subst dump_classes.simps) (simp add: dump_class_eq)
qed

inductive_simps lineage_simps [simp]: "lineage R None cs" "lineage R (Some a) cs"

text \<open>Where every parent is known and inheritance has no cycle, the walk ends.\<close>

definition acyclic_classes :: "(nat \<Rightarrow> nat) \<Rightarrow> rtti \<Rightarrow> bool" where
  "acyclic_classes depth R \<longleftrightarrow>
     (\<forall>a c p. rt_class R a = Some c \<longrightarrow> cl_parent c = Some p \<longrightarrow> rt_class R p \<noteq> None \<and> depth p < depth a)"

lemma lineage_exists:
  assumes "acyclic_classes depth R"
  shows "rt_class R a \<noteq> None \<Longrightarrow> \<exists>cs. lineage R (Some a) cs \<and> (\<forall>c \<in> set cs. c \<in> ran (rt_class R))"
proof (induction "depth a" arbitrary: a rule: less_induct)
  case less
  then obtain c where c: "rt_class R a = Some c" by auto
  show ?case
  proof (cases "cl_parent c")
    case None
    with Lineage_step [OF c, of "[]"] Lineage_end [of R] c show ?thesis by (intro exI [of _ "[c]"]) (auto intro: ranI)
  next
    case (Some p)
    with assms c have "rt_class R p \<noteq> None" "depth p < depth a" by (auto simp: acyclic_classes_def)
    from less.hyps [OF this(2,1)] obtain cs where "lineage R (Some p) cs" "\<forall>c \<in> set cs. c \<in> ran (rt_class R)" by blast
    with c Some show ?thesis by (intro exI [of _ "c # cs"]) (auto intro: lineage.intros ranI)
  qed
qed

section \<open>Properties\<close>

text \<open>
  C39: Where inheritance has no cycle and every name of the table of classes has a text, the dump of a class ends,
  and is complete: its log has the class and all its ancestors in order, each with the functions, then
  the static functions, whose name contains the filter, in any case of letters; and it reports how many
  functions that were, modulo 2^32.
\<close>

theorem dump_methods_complete:
  assumes "aClassName \<noteq> []" and "rt_GetClass R (c_str aClassName) = Some a" and "rt_class R a \<noteq> None"
    and "acyclic_classes depth R" and "\<forall>c \<in> ran (rt_class R). class_readable c"
  shows "\<exists>cs. lineage R (Some a) cs \<and>
    (let hits = \<lambda>fs. filter (\<lambda>f. sublist (Lowered aFilter) (map tolower (case fn_shortName f of None \<Rightarrow> [] | Some n \<Rightarrow> n)))
                     (map the (filter (\<lambda>f. f \<noteq> None) fs));
         lines = \<lambda>c. (''--- '' @ the (cl_name c) @ '' ---'') # map (\<lambda>f. ''  '' @ the (Signature f)) (hits (cl_funcs c)) @
                   map (\<lambda>f. ''  static '' @ the (Signature f)) (hits (cl_staticFuncs c));
         n = sum_list (map (\<lambda>c. length (hits (cl_funcs c)) + length (hits (cl_staticFuncs c))) cs)
     in DumpMethods R aClassName aFilter = Some (show_u32 (of_nat n) @ '' method(s) logged'', concat (map lines cs)))"
proof -
  from lineage_exists [OF assms(4,3)] obtain cs where cs: "lineage R (Some a) cs" "\<forall>c \<in> set cs. c \<in> ran (rt_class R)" by blast
  with assms(5) have "list_all class_readable cs" by (auto simp: list_all_iff)
  from dump_classes_lineage [OF cs(1) this, of "Lowered aFilter" 0 "[]"] assms(1,2)
  have "DumpMethods R aClassName aFilter = Some (show_u32 (of_nat (sum_list (map (class_count (Lowered aFilter)) cs))) @
      '' method(s) logged'', concat (map (class_lines (Lowered aFilter)) cs))"
    by (simp add: DumpMethods_def Let_def)
  with cs(1) show ?thesis
    unfolding Let_def matching_def [unfolded Matches_sublist, symmetric] class_lines_def [symmetric] class_count_def [symmetric]
    by blast
qed

definition test_class :: "string \<Rightarrow> nat option \<Rightarrow> string \<Rightarrow> rtti_class" where
  "test_class name up f = \<lparr>cl_name = Some name, cl_parent = up,
     cl_funcs = [None, Some \<lparr>fn_shortName = Some f, fn_params = [None], fn_returnType = None\<rparr>], cl_staticFuncs = []\<rparr>"

definition test_rtti :: rtti where
  "test_rtti = \<lparr>rt_class = [0 \<mapsto> test_class ''Base'' None ''GetName'', 1 \<mapsto> test_class ''Sub'' (Some 0) ''SetName''],
     rt_GetClass = (\<lambda>n. if n = ''Sub'' then Some 1 else None), rt_types = Some [Some ''Base'', None, Some ''Sub'']\<rparr>"

theorem dump_methods_complete_witness:
  "DumpMethods test_rtti ''Sub'' ''GET'' = Some (''1 method(s) logged'', [''--- Sub ---'', ''--- Base ---'', ''  GetName(?) -> Void''])"
proof -
  have r: "readable [None, Some \<lparr>fn_shortName = Some f, fn_params = [None], fn_returnType = None\<rparr>]" for f
    by (simp add: readable_def Signature_def TypeName_def)
  have d: "acyclic_classes id test_rtti" by (auto simp: acyclic_classes_def test_rtti_def test_class_def split: if_splits)
  have k: "\<forall>c \<in> ran (rt_class test_rtti). class_readable c"
    using r by (auto simp: test_rtti_def class_readable_def test_class_def readable_def [of "[]"])
  have g: "rt_GetClass test_rtti (c_str ''Sub'') = Some 1" "rt_class test_rtti 1 \<noteq> None"
    by (simp_all add: test_rtti_def c_str_def)
  have low: "Lowered ''GET'' = ''get''" by code_simp
  have chars: "map tolower ''GetNameSt'' = ''getnamest''" by code_simp
  have one: "show_u32 1 = ''1''" by code_simp
  have R: "rt_class test_rtti 1 = Some (test_class ''Sub'' (Some 0) ''SetName'')"
    "rt_class test_rtti 0 = Some (test_class ''Base'' None ''GetName'')" by (simp_all add: test_rtti_def)
  have c: "cl_parent (test_class n u f) = u" "cl_name (test_class n u f) = Some n" "cl_staticFuncs (test_class n u f) = []"
    "cl_funcs (test_class n u f) = [None, Some \<lparr>fn_shortName = Some f, fn_params = [None], fn_returnType = None\<rparr>]" for n u f
    by (simp_all add: test_class_def)
  obtain cs where cs: "lineage test_rtti (Some 1) cs" and D: "let hits = \<lambda>fs. filter (\<lambda>f. sublist (Lowered ''GET'')
          (map tolower (case fn_shortName f of None \<Rightarrow> [] | Some n \<Rightarrow> n))) (map the (filter (\<lambda>f. f \<noteq> None) fs));
         lines = \<lambda>c. (''--- '' @ the (cl_name c) @ '' ---'') # map (\<lambda>f. ''  '' @ the (Signature f)) (hits (cl_funcs c)) @
                   map (\<lambda>f. ''  static '' @ the (Signature f)) (hits (cl_staticFuncs c));
         n = sum_list (map (\<lambda>c. length (hits (cl_funcs c)) + length (hits (cl_staticFuncs c))) cs)
     in DumpMethods test_rtti ''Sub'' ''GET'' = Some (show_u32 (of_nat n) @ '' method(s) logged'', concat (map lines cs))"
    using dump_methods_complete [OF _ g d k, of "''GET''"] by blast
  have "cs = [test_class ''Sub'' (Some 0) ''SetName'', test_class ''Base'' None ''GetName'']"
    using cs by (auto simp: R c simp del: One_nat_def)
  then show ?thesis
    using D chars by (simp add: low c one Let_def Signature_def TypeName_def sublist_code)
qed

text \<open>
  The search for types logs the first 200 whose name contains the filter, in any case of letters and
  in the order of the table, and reports how many it logged; a type without a name is never among them.
\<close>

theorem find_classes_capped:
  assumes "Lowered aFilter \<noteq> []" and "rt_types R = Some types"
  shows "let named = map the (filter (\<lambda>n. n \<noteq> None) types);
      hits = take 200 (filter (\<lambda>n. sublist (Lowered aFilter) (map tolower n)) named)
    in FindClasses R aFilter = Some (dec_digits (length hits) @ '' type(s) logged'', map (\<lambda>n. ''  '' @ n) hits)"
proof -
  let ?hit = "\<lambda>n. sublist (Lowered aFilter) (map tolower n)"
  let ?named = "\<lambda>ts. map the (filter (\<lambda>n. n \<noteq> None) ts)"
  let ?step = "\<lambda>aName y. do { (shown, out) \<leftarrow> y;
      if shown < (200 :: u32) \<and> Matches aName (Lowered aFilter)
      then do { name \<leftarrow> aName; Some (shown + 1, out @ [''  '' @ name]) } else Some (shown, out) }"
  have m: "Matches None (Lowered aFilter) = False" "\<And>n. Matches (Some n) (Lowered aFilter) = ?hit n"
    using assms(1) by (simp_all add: Matches_sublist)
  have step: "fold ?step ts (Some (of_nat k, out)) = Some (of_nat (k + length (take (200 - k) (filter ?hit (?named ts)))),
      out @ map (\<lambda>n. ''  '' @ n) (take (200 - k) (filter ?hit (?named ts))))" if "k \<le> 200" for ts k out
    using that
  proof (induction ts arbitrary: k out)
    case (Cons t ts)
    have lt: "(of_nat k :: u32) < 200 \<longleftrightarrow> k < 200" using Cons.prems by (simp add: word_less_nat_alt unat_of_nat)
    show ?case
    proof (cases "t \<noteq> None \<and> ?hit (the t) \<and> k < 200")
      case True
      then obtain n where t: "t = Some n" "?hit n" "k < 200" by auto
      then have "200 - k = Suc (200 - Suc k)" by simp
      with t Cons.IH [of "Suc k" "out @ [''  '' @ n]"] show ?thesis by (simp add: lt m add.commute)
    next
      case False
      then have "?step t (Some (of_nat k, out)) = Some (of_nat k, out)"
        by (cases t) (auto simp: lt m simp del: of_nat_less_iff)
      with False Cons.IH [OF Cons.prems, of out] show ?thesis by (cases t) auto
    qed
  qed simp
  have "FindClasses R aFilter = Some (show_u32 (of_nat (length (take 200 (filter ?hit (?named types))))) @ '' type(s) logged'',
      map (\<lambda>n. ''  '' @ n) (take 200 (filter ?hit (?named types))))"
    using step [of 0 types "[]"] assms unfolding FindClasses_def Let_def by simp
  moreover have "unat (of_nat (length (take 200 (filter ?hit (?named types)))) :: u32) = length (take 200 (filter ?hit (?named types)))"
    by (subst unat_of_nat) (simp add: min_def)
  ultimately show ?thesis by (simp only: show_u32_def Let_def)
qed

theorem find_classes_capped_witness:
  "FindClasses test_rtti ''S'' = Some (''2 type(s) logged'', [''  Base'', ''  Sub''])"
proof -
  have f: "Lowered ''S'' = ''s''" by code_simp
  have "rt_types test_rtti = Some [Some ''Base'', None, Some ''Sub'']" by (simp add: test_rtti_def)
  have low: "tolower CHR ''B'' = CHR ''b''" "tolower CHR ''a'' = CHR ''a''" "tolower CHR ''s'' = CHR ''s''"
    "tolower CHR ''e'' = CHR ''e''" "tolower CHR ''S'' = CHR ''s''" "tolower CHR ''u'' = CHR ''u''" "tolower CHR ''b'' = CHR ''b''"
    "dec_digits (Suc (Suc 0)) = ''2''" by code_simp+
  have "(let named = map the (filter (\<lambda>n. n \<noteq> None) [Some ''Base'', None, Some ''Sub'']);
      hits = take 200 (filter (\<lambda>n. sublist (Lowered ''S'') (map tolower n)) named)
    in FindClasses test_rtti ''S'' = Some (dec_digits (length hits) @ '' type(s) logged'', map (\<lambda>n. ''  '' @ n) hits))"
    by (rule find_classes_capped) (simp_all add: f test_rtti_def)
  then show ?thesis by (simp add: f low Let_def sublist_code)
qed

end
