(* ===== verification/Spec2Isabelle.thy ===== *)
theory Spec2Isabelle imports
  World_Requests
  Tick_Threads
  Kick_Chain
  Lua_Backend
  Keep_Alive
  Debug_Api
begin

text \<open>
  A multiplayer mod for a game, in C++: a server process that relays positions between players, and a
  plugin that the game loads, which connects to the server, sends the position of the local player and
  gives every remote player a body in the world. Both sides speak a protocol of eight messages over UDP.
  This development models that code and proves what makes its parts and their composition correct.

  \<^bold>\<open>Parts of the program and their theories.\<close> Paths are below src/src. Each theory has the state of its
  part as a record, with the names of the source, and one function per operation.

  Prelude holds the types' names and the operations of the standard library that the code uses on
  sequences (find_if, any_of, erase).

  Serialize (common/Serialize.hpp) and Protocol (common/Protocol.hpp): the byte writer and reader, the
  header, the eight messages with their Read and Write, the templates Encode, PeekHeader and Decode. The
  locales wire_codec and wire_message are what a field and a message promise; the fixed-width
  operations, the string and the eight messages interpret them. Lemmas: round trips, refusal of another
  type, of truncated and of padded datagrams, what any decodable datagram satisfies.

  Task_Queue (common/TaskQueue.hpp): the queue between threads. The locale work_queue is the contract of
  a queue that is swapped out; the task queue, the kicks of the script host and the events of the client
  interpret it. Threads are interleaved as a step relation (tq_step).

  Net (common/Net.hpp, Net.cpp): endpoints and the UDP socket; each Winsock call is a parameter.

  Session (server/Session.hpp, Session.cpp): the session manager, its invariant, its refinement of a
  finite map from endpoints to sessions, that a seat stays with whoever was given it, the wrap of the id
  counter. The locale latest_wins is the
  contract of a store that keeps the newest snapshot; the server's sessions, the client's table and the
  walker of nettest interpret it.

  Script_Host (server/Script.hpp, ScriptHost.hpp, ScriptHost.cpp) and Lua_Backend
  (server/LuaBackend.cpp): the boundary to the scripts, the log backend, the Lua backend. A callback of
  a backend is a function of its state and of the players it reads, giving its new state and the calls it
  made; the Lua interpreter is the parameter lua_vm. What Fire does is stated for every interpreter, with
  each call of a handler recorded (logging).

  Server_Main and Server_Process (server/main.cpp): the handlers, the timeout sweep, the kicks and the
  loop as a run over what each turn reads from clock and socket; then main around the loop, with its
  arguments and exit codes. Lemmas: what each handler sends and to whom, the invariant of the server,
  who is dropped and who stays. Kick_Chain follows a kick from the script that asks for it to the players
  who are told, within one turn of the loop.

  Net_Client and Client_Run (client/NetClient.hpp, NetClient.cpp): the network thread as a run over the
  turns of its loop, and the calls of the game thread; the connection state, the retries, the timeout,
  the table of snapshots.

  Ieee_Float, Float_Order, Text_Format: the float arithmetic of the client on bit patterns, that its
  rounding is monotone, and the texts that std::format makes.

  World_System, World_Bodies, World_Requests, World_Draw, Tick_Threads (client/WorldSystem.hpp,
  WorldSystem.cpp, Plugin.hpp, Plugin.cpp, Main.cpp): the game system: bodies, spawning, interpolation,
  the tick, the console's functions, loading and unloading. Every call into the game goes through the
  record engine. World_Bodies has the invariant of the bodies and that the players with a body are those
  announced; World_Requests counts how often the game is asked for a body, whatever it answers;
  World_Draw says where a body is drawn and how often the local position is sent; Tick_Threads takes
  RunTick apart into its accesses and interleaves those of any number of threads (tick_step).

  Debug_Api (client/DebugApi.cpp): the explorer of the game's types, over a table of classes as data.

  Nettest (nettest/main.cpp): the console client, in both of its modes.

  Client_Server and Client_System put the two sides together: clients and a server joined by a network
  that loses, delays, duplicates and reorders, with rogue endpoints among the peers (system_step,
  system_reach). Keep_Alive runs the thread of a client and the loop of the server side by side on a clock
  (states that the game thread sends meanwhile only add to what is heard), and follows a client whose
  session is gone.

  \<^bold>\<open>How the parts interact.\<close> The client's thread (Run) sends hello, pings and, on behalf of the game
  thread, states; the server's loop decodes them, changes the session manager, tells the script host and
  sends acknowledgements, pongs and notices; the client's thread files these as connection state, events,
  snapshots and tasks, which the tick of the game system takes. The properties below follow a hello, a
  position and a timeout along this whole way, to the bodies in the other players' worlds; the
  properties of one part are in its theory, each behind its number, C1 to C40.

  \<^bold>\<open>Bounds, and what stands for what.\<close> Integers are words of their width and wrap as in C++; size_t and
  container sizes are natural numbers. A claim that needs a counter not to wrap says so (2^32 - 1 joins);
  that the id counter does wrap is a claim of its own. Loops are recursive functions that are total: the
  timeout sweep by the number of sessions, the other ones by the sequence they run through. The loops that
  run until a signal, a stop request or for ever are functions of the finite list of what their turns
  read, so a claim about them is about every such list. The one walk that can diverge, up the parents of
  a class, is a partial function whose result None is no result, and it is shown to return where
  inheritance has no cycle. What C++ leaves undefined (a handler that grows the vector it is called from,
  a null text, a signed overflow) is the result None. Bytes sent are kept in the state, in the order of
  the calls that sent them. A step is what the code does under one mutex or in one atomic access where
  threads meet: the queue (tq_step), the client's thread against the game thread (system_step), the ticks
  of the game's worker threads (tick_step). Elsewhere a function of the game system is one step: its
  updates are run one at a time. That SetBodyKind, which the console calls, and an update can reach
  m_bodies at once, with no lock, is outside the model.

  \<^bold>\<open>Not modelled.\<close> Lines that the server prints inside its loop and lines that the plugin logs, because
  they feed back into nothing (what nettest prints, the lines that the script host keeps and the answers
  of the console's functions are modelled). The registration of classes and callbacks with the game and
  the metadata for its loader: tables that another program reads. The bodies of the Winsock calls, of the
  Lua interpreter and of the game, which are not in this repository: parameters. The memory behind
  references and handles: a session is named by its index, a body by its player. The order in which an
  unordered map is iterated: an argument where it shows. The unit tests, the build files and the tools.
\<close>

section \<open>Properties of the whole\<close>

text \<open>
  C6: Nothing a client believes is made up, whatever the network loses, delays, duplicates and reorders,
  whatever rogue endpoints send, and wherever the calls of the game thread, disconnects and connects
  included, fall between the steps of the network thread: in every reachable state of server and clients, within 2^32 - 2
  steps, a player id belongs to one name at one endpoint, which said hello under that name; a snapshot
  that a client holds of a player is a position that the owner of that id sent, and never the client's
  own; and every join and leave it has queued is of such a player, under his name.
\<close>

theorem nothing_forged:
  assumes "system_reach vt srv rogue n s" and "n < 2 ^ 32 - 1" and "e \<notin> rogue"
  shows "let c = fst (sy_client s e); said = said_in srv rogue s in
    (\<forall>(p, u, a) \<in> sy_owners s. (\<exists>h. said a (M_Hello h) \<and> hello_username h = u) \<and>
       (\<forall>(p', u', a') \<in> sy_owners s. p' = p \<longrightarrow> u' = u \<and> a' = a)) \<and>
    (\<forall>p x. map_of (m_remote c) p = Some x \<longrightarrow>
       (\<exists>u a st. (p, u, a) \<in> sy_owners s \<and> a \<noteq> e \<and> said a (M_PlayerState st) \<and>
          x = mk_snapshot (ps_tick st) (state_args st))) \<and>
    (\<forall>ev \<in> set (m_events c). \<exists>u a. (ev_playerId ev, u, a) \<in> sy_owners s \<and> a \<noteq> e \<and>
       (ev_joined ev \<longrightarrow> ev_username ev = u))"
proof -
  have ok: "system_ok srv rogue n s" by (rule system_reach_ok [OF assms(1,2)])
  then have "owners_ok (sy_owners s) (said_in srv rogue s) (m_nextId (sv_sessions (sy_server s)))"
    and "client_sourced (sy_owners s) (said_in srv rogue s) srv e (fst (sy_client s e))"
    using assms(3) by (simp_all add: system_ok_def Let_def)
  then show ?thesis
    unfolding owners_ok_def client_sourced_def snapshot_sourced_def event_sourced_def owned_by_other_def list_all_iff Let_def
    by blast
qed

theorem nothing_forged_witness:
  "\<exists>s. system_reach spy_vt (Loopback 11780) {\<lparr>address = 1, port = 1\<rparr>} 1 s \<and>
     (1, ''a'', \<lparr>address = 1, port = 1\<rparr>) \<in> sy_owners s \<and>
     (\<forall>u a. (1, u, a) \<in> sy_owners s \<longrightarrow> u = ''a'' \<and> a = \<lparr>address = 1, port = 1\<rparr>)"
proof -
  let ?srv = "Loopback 11780" and ?e = "\<lparr>address = 1, port = 1\<rparr>" and ?sv = "server_start spy_vt None"
  let ?d = "hello_bytes ''a''"
  obtain c0 where c0: "NetClient_Connect (Some 5) 11780 ''bob'' fresh_client = (True, c0)" using fresh_Connect by blast
  define s where "s = \<lparr>sy_server = ?sv, sy_client = (\<lambda>_. (c0, run_start 0)), sy_polls = (\<lambda>_. None), sy_owners = {}\<rparr>"
  have "system_start spy_vt ?srv s" unfolding s_def by (rule fresh_system [OF c0])
  then have r0: "system_reach spy_vt ?srv {?e} 0 s" by (rule Reach_start)
  let ?sv' = "loop_body spy_vt (5, Some (\<lparr>rcv_size = length ?d, rcv_from = ?e\<rparr>, ?d)) ?sv"
  have r1: "system_reach spy_vt ?srv {?e} 1 (s\<lparr>sy_server := ?sv', sy_owners := sy_owners s \<union> set (rows (sv_sessions ?sv'))\<rparr>)"
    (is "system_reach _ _ _ _ ?s")
    using Reach_step [OF r0 Server_turn [of "Some (\<lparr>rcv_size = length ?d, rcv_from = ?e\<rparr>, ?d)" "{?e}" ?srv s ?sv' spy_vt 5]]
    by (simp add: s_def)
  have first: "(1, ''a'', ?e) \<in> set (rows (sv_sessions (handle_datagram spy_vt 5 ?e ?d sv1)))"
    if "sv_sessions sv1 = mk_SessionManager kMaxPlayers kTimeoutMs" for sv1
    using hello_answers [of sv1 "''a''" ?e spy_vt 5] mk_SessionManager_inv [of kMaxPlayers kTimeoutMs] that
    by (simp add: Let_def name_ok_def) (simp add: mk_SessionManager_def Count_def kMaxPlayers_def)
  have idle: "sv_sessions (run_kicks spy_vt ((sweep spy_vt 5 sv1)\<lparr>sv_scripts := h\<rparr>)) = mk_SessionManager kMaxPlayers kTimeoutMs"
    if "sv_sessions sv1 = mk_SessionManager kMaxPlayers kTimeoutMs" for sv1 h
  proof -
    have "m_sessions (sv_sessions sv1) = []" by (simp add: that mk_SessionManager_def)
    then have sw: "sv_sessions (sweep spy_vt 5 sv1) = mk_SessionManager kMaxPlayers kTimeoutMs"
      unfolding sweep_sessions by (simp add: that mk_SessionManager_def)
    show ?thesis
      by (subst run_kicks_sessions) (simp_all add: sw mk_SessionManager_inv, simp add: mk_SessionManager_def)
  qed
  have "(1, ''a'', ?e) \<in> set (rows (sv_sessions ?sv'))"
  proof -
    let ?sv1 = "sweep spy_vt 5 ?sv"
    let ?sv2 = "?sv1\<lparr>sv_scripts := ScriptHost_OnTick spy_vt 5 (sv_sessions ?sv1) (sv_scripts ?sv1)\<rparr>"
    have "?sv' = handle_datagram spy_vt 5 ?e ?d (run_kicks spy_vt ?sv2)" by (simp add: loop_body_def Let_def)
    moreover have "sv_sessions (run_kicks spy_vt ?sv2) = mk_SessionManager kMaxPlayers kTimeoutMs"
      by (rule idle) (rule server_start_sessions)
    ultimately show ?thesis using first by metis
  qed
  then have o: "(1, ''a'', ?e) \<in> sy_owners ?s" by simp
  have e: "\<lparr>address = 2, port = 2\<rparr> \<notin> {?e}" by simp
  have owners: "\<forall>(p, u, a) \<in> sy_owners ?s. (\<exists>h. said_in ?srv {?e} ?s a (M_Hello h) \<and> hello_username h = u) \<and>
      (\<forall>(p', u', a') \<in> sy_owners ?s. p' = p \<longrightarrow> u' = u \<and> a' = a)"
    by (rule nothing_forged [OF r1 _ e, unfolded Let_def, THEN conjunct1]) simp
  have "u = ''a'' \<and> a = ?e" if "(1, u, a) \<in> sy_owners ?s" for u a
    using bspec [OF owners o] that by fast
  with r1 o show ?thesis by blast
qed

text \<open>
  C7: The traffic is well typed. In every reachable state, within 2^32 - 2 steps, every datagram that an
  honest client handed to its socket goes to the server, fits in a datagram and has a header of one of
  the three types that the server handles; every datagram of the server decodes as one of the five
  messages that a client handles; so no client ever counts a malformed one, and when nobody is rogue the
  server never counts a rejected one.
\<close>

theorem traffic_well_typed:
  assumes "system_reach vt srv rogue n s" and "n < 2 ^ 32 - 1"
  shows "(\<forall>e. e \<notin> rogue \<longrightarrow> m_malformed (fst (sy_client s e)) = 0 \<and>
      (\<forall>(a, d) \<in> set (nc_out (fst (sy_client s e))). a = srv \<and> length d \<le> kMaxDatagram \<and>
         (\<exists>h. PeekHeader d Header_default = (True, h) \<and> hdr_type h \<in> {Type_Hello, Type_Ping, Type_PlayerState}))) \<and>
    (\<forall>(a, d) \<in> set (sv_out (sy_server s)). \<exists>m. parse d = Some m \<and> type_of m \<in>
       {Type_HelloAck, Type_Pong, Type_NotifyPlayerState, Type_NotifyPlayerJoined, Type_NotifyPlayerLeft}) \<and>
    (rogue = {} \<longrightarrow> sv_rejected (sy_server s) = 0)"
proof (intro conjI allI impI)
  have ok: "system_ok srv rogue n s" by (rule system_reach_ok [OF assms])
  show "rogue = {} \<Longrightarrow> sv_rejected (sy_server s) = 0" using ok by (simp add: system_ok_def Let_def)
  {
    fix e assume "e \<notin> rogue"
    with ok have "client_sourced (sy_owners s) (said_in srv rogue s) srv e (fst (sy_client s e))"
      by (simp add: system_ok_def Let_def)
    then show "m_malformed (fst (sy_client s e)) = 0"
      and "\<forall>(a, d) \<in> set (nc_out (fst (sy_client s e))). a = srv \<and> length d \<le> kMaxDatagram \<and>
         (\<exists>h. PeekHeader d Header_default = (True, h) \<and> hdr_type h \<in> {Type_Hello, Type_Ping, Type_PlayerState})"
      by (auto simp: client_sourced_def server_bound_def list_all_iff)
  }
  have "list_all (sourced_bytes (sy_owners s) (said_in srv rogue s)) (sv_out (sy_server s))"
    using ok by (simp add: system_ok_def Let_def server_sourced_def)
  then show "\<forall>(a, d) \<in> set (sv_out (sy_server s)). \<exists>m. parse d = Some m \<and> type_of m \<in>
       {Type_HelloAck, Type_Pong, Type_NotifyPlayerState, Type_NotifyPlayerJoined, Type_NotifyPlayerLeft}"
    using sourced_type by (auto simp: list_all_iff dest!: bspec)
qed

theorem traffic_well_typed_witness:
  "\<exists>s. system_reach spy_vt (Loopback 11780) {} 1 s \<and> nc_out (fst (sy_client s \<lparr>address = 1, port = 1\<rparr>)) \<noteq> [] \<and>
     (\<forall>(a, d) \<in> set (nc_out (fst (sy_client s \<lparr>address = 1, port = 1\<rparr>))). a = Loopback 11780 \<and> length d \<le> kMaxDatagram)"
proof -
  let ?srv = "Loopback 11780" and ?e = "\<lparr>address = 1, port = 1\<rparr>"
  obtain c0 where c0: "NetClient_Connect (Some 5) 11780 ''bob'' fresh_client = (True, c0)" using fresh_Connect by blast
  note st = Connect_start [OF c0]
  define s where "s = \<lparr>sy_server = server_start spy_vt None, sy_client = (\<lambda>_ :: Endpoint. (c0, run_start 0)), sy_polls = (\<lambda>_. None), sy_owners = {}\<rparr>"
  have "system_start spy_vt ?srv s" unfolding s_def by (rule fresh_system [OF c0])
  then have r0: "system_reach spy_vt ?srv {} 0 s" by (rule Reach_start)
  obtain go c1 l1 where t: "run_timers (\<lambda>_ _ _. 0) 1000 0 (c0, run_start 0) = (go, c1, l1)" by (rule prod_cases3)
  have out: "nc_out c1 \<noteq> []"
    using t st by (simp add: run_timers_def run_start_def kHelloRetryMs_def kMaxHelloAttempts_def SendHello_eq) auto
  let ?s = "s\<lparr>sy_client := (sy_client s)(?e := (c1, l1)), sy_polls := (sy_polls s)(?e := if go then Some 1000 else None)\<rparr>"
  have "system_step spy_vt ?srv {} s ?s"
    by (rule Client_timers [of _ _ _ "\<lambda>_ _ _. 0" _ 0]) (use t in \<open>simp_all add: s_def\<close>)
  from Reach_step [OF r0 this] have r1: "system_reach spy_vt ?srv {} 1 ?s" by simp
  have "\<forall>(a, d) \<in> set (nc_out c1). a = ?srv \<and> length d \<le> kMaxDatagram \<and>
      (\<exists>h. PeekHeader d Header_default = (True, h) \<and> hdr_type h \<in> {Type_Hello, Type_Ping, Type_PlayerState})"
    using traffic_well_typed [OF r1, THEN conjunct1, THEN spec [of _ ?e]] by simp
  then have "\<forall>(a, d) \<in> set (nc_out c1). a = ?srv \<and> length d \<le> kMaxDatagram" by fast
  with r1 out show ?thesis by (intro exI [of _ ?s]) simp
qed

text \<open>
  C8: A client and the server agree on a hello. From a free endpoint, under a free name and with room
  on the server, it has this effect, in whatever order the answers arrive: the newcomer is connected and
  at its next update has, beside those it had, a body for exactly the players who were online; and
  each of these is sent one datagram, which gives him one body more, for the newcomer. (While ids are distinct: for fewer than
  2^32 - 1 joins.)
\<close>

theorem hello_to_bodies:
  assumes "sm_inv (sv_sessions sv)" and "ids_inv (sv_sessions sv)"
    and "u \<noteq> []" and "name_ok u" and "u \<notin> sess_username ` set (m_sessions (sv_sessions sv))"
    and "e \<notin> sess_endpoint ` set (m_sessions (sv_sessions sv))"
    and "Count (sv_sessions sv) < m_maxPlayers (sv_sessions sv)"
    and "mset ds = mset (to_peer e (answers sv (handle_datagram vt now e (hello_bytes u) sv)))"
    and "m_events (ws_net new) = []" and "s \<in> set (m_sessions (sv_sessions sv))" and "m_events (ws_net w) = []"
  shows "m_state (ws_net (world_run S (map (W_datagram us) ds) new)) = Connected \<and>
    fst ` set (m_bodies (world_run S (map (W_datagram us) ds @ [W_update tk]) new)) =
      fst ` set (m_bodies new) \<union> sess_id ` set (m_sessions (sv_sessions sv)) \<and>
    (\<exists>d. to_peer (sess_endpoint s) (answers sv (handle_datagram vt now e (hello_bytes u) sv)) = [d] \<and>
       fst ` set (m_bodies (world_run S (map (W_datagram us) [d] @ [W_update tk]) w)) =
         insert (m_nextId (sv_sessions sv)) (fst ` set (m_bodies w)))"
proof -
  let ?old = "m_sessions (sv_sessions sv)" and ?p = "m_nextId (sv_sessions sv)"
  let ?out = "answers sv (handle_datagram vt now e (hello_bytes u) sv)"
  let ?mine = "ack_bytes Accepted # map (\<lambda>s. joined_bytes (sess_id s) (sess_username s)) ?old"
  from hello_answers [OF assms(1-7), of vt now] have out: "?out = [(e, ack_bytes Accepted)] @
      map (\<lambda>s. (e, joined_bytes (sess_id s) (sess_username s))) ?old @ map (\<lambda>s. (sess_endpoint s, joined_bytes ?p u)) ?old"
    by (simp add: Let_def)
  have eps: "distinct (map sess_endpoint ?old)" and nm: "\<And>s. s \<in> set ?old \<Longrightarrow> name_ok (sess_username s)"
    using assms(1) by (simp_all add: sm_inv_def)
  have "to_peer e (map (\<lambda>s. (sess_endpoint s, joined_bytes ?p u)) ?old) = []"
    using assms(6) by (auto simp: to_peer_map filter_empty_conv)
  moreover have "to_peer e (map (\<lambda>s. (e, joined_bytes (sess_id s) (sess_username s))) ?old) = map (\<lambda>s. joined_bytes (sess_id s) (sess_username s)) ?old"
    by (simp add: to_peer_map)
  ultimately have "to_peer e ?out = ?mine" by (simp add: out to_peer_def)
  with assms(8) have ds: "set ds = set ?mine" by (metis mset_eq_setD)
  have ev: "announces (ack_bytes Accepted) = []" "\<And>s. s \<in> set ?old \<Longrightarrow> announces (joined_bytes (sess_id s) (sess_username s)) = [join_event s]"
    by (simp_all add: announces_server nm)
  have es: "set (concat (map announces ds)) = join_event ` set ?old" by (auto simp: ds ev)
  then have "list_all ev_joined (concat (map announces ds))" by (auto simp: list_all_iff join_event_def)
  from roster_joins [OF this] es assms(9) have b: "fst ` set (m_bodies (world_run S (map (W_datagram us) ds @ [W_update tk]) new)) =
      fst ` set (m_bodies new) \<union> sess_id ` set ?old"
    unfolding world_bodies_after by (simp add: image_image join_event_def)
  have ack: "ack_of (parse (joined_bytes (sess_id s) (sess_username s))) = None" if "s \<in> set ?old" for s
    by (simp add: parse_joined [OF nm [OF that]] ack_of_def)
  have st: "m_state (ws_net (world_run S (map (W_datagram us) ds) new)) = Connected"
    unfolding world_datagrams fold_datagram_state
    by (subst acks_connect) (auto simp: ds ack ack_bytes_accepted)
  have "sess_endpoint s \<noteq> e" using assms(6,10) by auto
  then have his: "to_peer (sess_endpoint s) ?out = [joined_bytes ?p u]"
    using to_peer_one [OF eps assms(10), of "\<lambda>_. joined_bytes ?p u"]
    by (simp add: out) (simp add: to_peer_def)
  have "announces (joined_bytes ?p u) = [\<lparr>ev_joined = True, ev_playerId = ?p, ev_username = u\<rparr>]"
    by (simp add: announces_def parse_joined [OF assms(4)])
  then have "fst ` set (m_bodies (world_run S (map (W_datagram us) [joined_bytes ?p u] @ [W_update tk]) w)) =
      insert ?p (fst ` set (m_bodies w))"
    unfolding world_bodies_after by (simp add: assms(11) roster_def)
  with b st his show ?thesis by blast
qed

theorem hello_to_bodies_witness:
  "let sv' = handle_datagram spy_vt 100 \<lparr>address = 9, port = 9\<rparr> (hello_bytes ''c'') two_players;
       ds = rev (to_peer \<lparr>address = 9, port = 9\<rparr> (answers two_players sv'))
   in fst ` set (m_bodies (world_run test_setting (map (W_datagram 0) ds @ [W_update (test_tick 5)])
        (mk_WorldSystem [] fresh_client))) = {1, 2}"
proof -
  let ?e = "\<lparr>address = 9, port = 9\<rparr>" and ?w = "mk_WorldSystem ([] :: DynamicEntitySpec list) fresh_client"
  let ?out = "answers two_players (handle_datagram spy_vt 100 ?e (hello_bytes ''c'') two_players)"
  have "m_events (ws_net ?w) = []" by (simp add: mk_WorldSystem_def fresh_client_def mk_NetClient_def)
  note this [simp]
  have "fst ` set (m_bodies (world_run test_setting (map (W_datagram 0) (rev (to_peer ?e ?out)) @ [W_update (test_tick 5)]) ?w)) =
      fst ` set (m_bodies ?w) \<union> sess_id ` set (m_sessions (sv_sessions two_players))"
    by (rule hello_to_bodies [OF two_players_inv, of "''c''" ?e _ spy_vt 100 ?w "m_sessions (sv_sessions two_players) ! 0" ?w,
          THEN conjunct2, THEN conjunct1])
      (simp_all only: mset_rev, simp_all add: two_players_def name_ok_def Count_def Session_default_def)
  then show ?thesis by (simp add: Let_def) (simp add: mk_WorldSystem_def two_players_def)
qed

text \<open>
  C9: A position that a connected client sends is, once it has reached the server and been relayed, what
  every other player's client holds of the sender: bit for bit, under his player id and with the tick he
  gave it, provided it is newer than what the server and that client had; nothing comes back to the sender. (While ids are distinct: for fewer than
  2^32 - 1 joins.)
\<close>

theorem position_arrives:
  assumes "sm_inv (sv_sessions sv)" and "ids_inv (sv_sessions sv)" and "i < Count (sv_sessions sv)"
    and "m_state a = Connected" and "m_open (m_socket a)" and "m_stateTick a + 1 \<noteq> 0"
    and "let s = m_sessions (sv_sessions sv) ! i in \<not> hasState s \<or> stateTick s < m_stateTick a + 1"
    and "s' \<in> set (m_sessions (sv_sessions sv))" and "sess_endpoint s' \<noteq> sess_endpoint (m_sessions (sv_sessions sv) ! i)"
    and "case client_snapshot (sess_id (m_sessions (sv_sessions sv) ! i)) (m_remote b) of None \<Rightarrow> True | Some x \<Rightarrow> fst x < m_stateTick a + 1"
  shows "let s = m_sessions (sv_sessions sv) ! i; d = snd (List.last (nc_out (snd (SendState os x y z r a))));
      out = answers sv (handle_datagram vt now (sess_endpoint s) d sv)
    in to_peer (sess_endpoint s) out = [] \<and>
       client_snapshot (sess_id s) (m_remote (fold (HandleDatagram us) (to_peer (sess_endpoint s') out) b)) =
         Some (m_stateTick a + 1, (x, y, z), r)"
proof -
  let ?xs = "m_sessions (sv_sessions sv)" and ?k = "m_stateTick a + 1"
  let ?s = "?xs ! i" and ?st = "\<lparr>ps_tick = ?k, ps_position = \<lparr>vx = x, vy = y, vz = z\<rparr>, ps_rotation = r\<rparr>"
  obtain d where d: "nc_out (snd (SendState os x y z r a)) = nc_out a @ [(m_server a, d)]" "parse d = Some (M_PlayerState ?st)"
    using SendState_bytes [OF assms(4,5), of os x y z r] by blast
  let ?n = "\<lparr>nps_playerId = sess_id ?s, nps_tick = ?k, nps_position = \<lparr>vx = x, vy = y, vz = z\<rparr>, nps_rotation = r\<rparr>"
  have out: "answers sv (handle_datagram vt now (sess_endpoint ?s) d sv) =
      map (\<lambda>s. (sess_endpoint s, relay_bytes (sess_id ?s) ?st)) (filter (\<lambda>s. sess_endpoint s \<noteq> sess_endpoint ?s) ?xs)"
    using state_answers [OF assms(1-3) d(2), of vt now] assms(7) by (simp add: Let_def)
  have "distinct (map sess_endpoint (filter (\<lambda>s. sess_endpoint s \<noteq> sess_endpoint ?s) ?xs))"
    using assms(1) by (simp add: sm_inv_def distinct_map_filter)
  from to_peer_one [OF this, of s'] assms(8,9) have to: "to_peer (sess_endpoint s')
      (answers sv (handle_datagram vt now (sess_endpoint ?s) d sv)) = [relay_bytes (sess_id ?s) ?st]" by (simp add: out)
  have "relay_bytes (sess_id ?s) ?st = state_bytes ?n" by (simp add: relay_bytes_def state_bytes_def)
  then have "client_snapshot (sess_id ?s) (m_remote (HandleDatagram us (relay_bytes (sess_id ?s) ?st) b)) =
      client_snapshot (sess_id ?s) (snd (put_snapshot (sess_id ?s) (mk_snapshot ?k ((x, y, z), r)) (m_remote b)))"
    by (simp add: remote_after_state payload_def)
  also have "\<dots> = Some (?k, (x, y, z), r)"
    using client_latest.put_cur [OF TrueI assms(6), of "sess_id ?s" "((x, y, z), r)" "m_remote b"] assms(10)
    by (auto split: option.splits)
  finally show ?thesis using to by (auto simp: Let_def d(1) out to_peer_map filter_empty_conv)
qed

theorem position_arrives_witness:
  "let a = fresh_client\<lparr>m_state := Connected, m_socket := \<lparr>m_handle = 5, m_open = True\<rparr>\<rparr>;
       d = snd (List.last (nc_out (snd (SendState (\<lambda>_ _ _. 0) 1 2 3 4 a))));
       out = answers two_players (handle_datagram spy_vt 100 \<lparr>address = 1, port = 2\<rparr> d two_players)
   in client_snapshot 2 (m_remote (fold (HandleDatagram 0) (to_peer \<lparr>address = 1, port = 1\<rparr> out) fresh_client)) = Some (1, (1, 2, 3), 4)"
proof -
  let ?a = "fresh_client\<lparr>m_state := Connected, m_socket := \<lparr>m_handle = 5, m_open = True\<rparr>\<rparr>"
  let ?s = "m_sessions (sv_sessions two_players) ! 1" and ?s' = "m_sessions (sv_sessions two_players) ! 0"
  let ?d = "snd (List.last (nc_out (snd (SendState (\<lambda>_ _ _. 0) 1 2 3 4 ?a))))"
  let ?out = "answers two_players (handle_datagram spy_vt 100 (sess_endpoint ?s) ?d two_players)"
  have two: "sess_endpoint ?s' = \<lparr>address = 1, port = 1\<rparr>" "sess_endpoint ?s = \<lparr>address = 1, port = 2\<rparr>" "sess_id ?s = 2"
    "\<not> hasState ?s" "?s' \<in> set (m_sessions (sv_sessions two_players))" "1 < Count (sv_sessions two_players)"
    by (simp_all add: two_players_def Session_default_def Count_def)
  have a: "m_state ?a = Connected" "m_open (m_socket ?a)" "m_stateTick ?a = 0" "m_remote fresh_client = []"
    by (simp_all add: fresh_client_def mk_NetClient_def)
  have "client_snapshot (sess_id ?s) (m_remote (fold (HandleDatagram 0) (to_peer (sess_endpoint ?s') ?out) fresh_client)) =
      Some (m_stateTick ?a + 1, (1, 2, 3), 4)"
    using position_arrives [OF two_players_inv two(6) a(1,2), of ?s' fresh_client "\<lambda>_ _ _. 0" 1 2 3 4 spy_vt 100 0] two a(3,4)
    by (simp add: Let_def client_snapshot_def)
  then show ?thesis by (simp only: Let_def two a(3) add_0)
qed

text \<open>
  C10: Players whom the server drops for their silence leave every world: with the leave notices of one
  sweep, in any order, exactly the bodies of those who timed out go at the next update of each
  client whose player stays. (While ids are distinct: for fewer than
  2^32 - 1 joins.)
\<close>

theorem timeout_to_bodies:
  assumes "sm_inv (sv_sessions sv)" and "ids_inv (sv_sessions sv)"
    and "s \<in> set (m_sessions (sv_sessions sv))" and "\<not> is_expired now sv s"
    and "mset ds = mset (to_peer (sess_endpoint s) (answers sv (sweep vt now sv)))" and "m_events (ws_net w) = []"
  shows "fst ` set (m_bodies (world_run S (map (W_datagram us) ds @ [W_update tk]) w)) = fst ` set (m_bodies w) -
    (sess_id ` set (m_sessions (sv_sessions sv)) - sess_id ` set (m_sessions (sv_sessions (sweep vt now sv))))"
proof -
  let ?xs = "m_sessions (sv_sessions sv)" and ?gone = "filter (is_expired now sv) (m_sessions (sv_sessions sv))"
  have ids: "distinct (map sess_id ?xs)" and eps: "distinct (map sess_endpoint ?xs)"
    using assms(1,2) by (simp_all add: sm_inv_def ids_inv_def)
  have "sess_id ` set ?gone = sess_id ` set ?xs - sess_id ` set (m_sessions (sv_sessions (sweep vt now sv)))"
    using inj_onD [OF distinct_map [THEN iffD1, OF ids, THEN conjunct2]] by (auto simp: sweep_sessions)
  moreover have "to_peer (sess_endpoint s) (answers sv (sweep vt now sv)) = map (left_bytes \<circ> sess_id) ?gone"
    by (rule sweep_answers [OF assms(1-4)])
  with assms(5) have "set ds = set (map (left_bytes \<circ> sess_id) ?gone)" by (metis mset_eq_setD)
  then have es: "set (concat (map announces ds)) = leave_event ` sess_id ` set ?gone" by (auto simp: announces_server)
  then have "list_all (\<lambda>e. \<not> ev_joined e) (concat (map announces ds))" by (auto simp: list_all_iff leave_event_def)
  from roster_leaves [OF this] es have "roster (concat (map announces ds)) K = K - sess_id ` set ?gone" for K
    by (simp add: image_image leave_event_def)
  ultimately show ?thesis unfolding world_bodies_after by (simp add: assms(6))
qed

theorem timeout_to_bodies_witness:
  "let joined = (\<lambda>p. snd (Encode NotifyPlayerJoined_T \<lparr>npj_playerId = p, npj_username = ''a''\<rparr>));
       w = world_run test_setting (map (W_datagram 0) (map joined [1, 7]) @ [W_update (test_tick 5)]) (mk_WorldSystem [] fresh_client);
       ds = to_peer \<lparr>address = 1, port = 2\<rparr> (answers two_players (sweep spy_vt 100 two_players))
   in fst ` set (m_bodies (world_run test_setting (map (W_datagram 0) ds @ [W_update (test_tick 6)]) w)) = {7}"
proof -
  let ?joined = "\<lambda>p. snd (Encode NotifyPlayerJoined_T \<lparr>npj_playerId = p, npj_username = ''a''\<rparr>)"
  let ?w = "world_run test_setting (map (W_datagram 0) (map ?joined [1, 7]) @ [W_update (test_tick 5)]) (mk_WorldSystem [] fresh_client)"
  let ?s = "m_sessions (sv_sessions two_players) ! 1"
  let ?ds = "to_peer (sess_endpoint ?s) (answers two_players (sweep spy_vt 100 two_players))"
  have u: "name_ok ''a''" by (simp add: name_ok_def)
  have "m_events fresh_client = []" by (simp add: fresh_client_def mk_NetClient_def)
  then have b: "fst ` set (m_bodies ?w) = {1, 7}"
    unfolding world_bodies_after by (auto simp: announces_joined [OF u] roster_def mk_WorldSystem_def)
  have "fst ` set (m_bodies (world_run test_setting (map (W_datagram 0) ?ds @ [W_update (test_tick 6)]) ?w)) = fst ` set (m_bodies ?w) -
      (sess_id ` set (m_sessions (sv_sessions two_players)) - sess_id ` set (m_sessions (sv_sessions (sweep spy_vt 100 two_players))))"
    by (rule timeout_to_bodies [OF two_players_inv _ _ refl world_bodies_after(2)])
      (simp_all add: is_expired_def expired_def two_players_def Session_default_def)
  also have "\<dots> = {7}"
    unfolding b by (auto simp: sweep_sessions is_expired_def expired_def two_players_def Session_default_def)
  finally show ?thesis by (simp add: Let_def two_players_def Session_default_def)
qed

end
